(* ===== verification/Prelude.thy ===== *)
theory Prelude
  imports Main "HOL-Library.Word" "HOL-Library.List_Lexorder" "HOL-Library.Char_ord"
begin

text \<open>
  What every component of the development shares: the collections of rewrite rules the
  component theories extend, the suffix operation \<open>last_n\<close> (the abstract view of each
  bounded, oldest-first-dropped container of the program), the conversions between the
  integer types of the C++ code and the pieces of the standard library several
  components use (\<open>std::clamp\<close>, \<open>std::move\<close>-free container loops).
\<close>

section \<open>Collections\<close>

text \<open>
  \<open>model_defs\<close> collects the unfoldings of the operations, \<open>inv_rules\<close> the facts
  "this operation keeps that invariant".
\<close>

named_theorems model_defs \<open>definitional unfoldings of the program's operations\<close>
named_theorems inv_rules \<open>preservation of the component invariants\<close>

section \<open>The last elements of a list\<close>

text \<open>The \<open>n\<close> most recent elements of a chronological list, oldest first.\<close>

definition last_n :: "nat \<Rightarrow> 'a list \<Rightarrow> 'a list" where
  "last_n n xs = drop (length xs - n) xs"

lemma last_n_Nil [simp]: "last_n n [] = []"
  by (simp add: last_n_def)

lemma last_n_0 [simp]: "last_n 0 xs = []"
  by (simp add: last_n_def)

lemma length_last_n [simp]: "length (last_n n xs) = min n (length xs)"
  by (simp add: last_n_def)

lemma last_n_id: "length xs \<le> n \<Longrightarrow> last_n n xs = xs"
  by (simp add: last_n_def)

lemma set_last_n: "set (last_n n xs) \<subseteq> set xs"
  by (simp add: last_n_def set_drop_subset)

lemma last_n_append:
  "last_n n (xs @ ys) = last_n (n - length ys) xs @ last_n n ys"
proof (cases "n \<le> length ys")
  case True
  then show ?thesis by (simp add: last_n_def)
next
  case False
  then have "length xs + length ys - n = length xs - (n - length ys)" by arith
  with False show ?thesis by (simp add: last_n_def)
qed

lemma last_n_snoc: "0 < n \<Longrightarrow> last_n n (xs @ [x]) = last_n (n - 1) xs @ [x]"
  by (simp add: last_n_append) (simp add: last_n_def)

lemma last_n_last_n [simp]: "last_n m (last_n n xs) = last_n (min m n) xs"
proof -
  have "length xs - (length xs - n) - m + (length xs - n) = length xs - min m n"
    by (auto simp: min_def)
  then show ?thesis by (simp add: last_n_def add.commute)
qed

lemma last_n_last_n_append:
  "last_n n (last_n n xs @ ys) = last_n n (xs @ ys)"
  by (simp add: last_n_append)

lemma last_n_full: "length xs = n \<Longrightarrow> 0 < n \<Longrightarrow> last_n n (xs @ [x]) = tl xs @ [x]"
  by (cases xs) (auto simp: last_n_def)

lemma last_n_room: "length xs < n \<Longrightarrow> last_n n (xs @ [x]) = xs @ [x]"
  by (simp add: last_n_id)

lemma last_n_map: "last_n n (map f xs) = map f (last_n n xs)"
  by (simp add: last_n_def drop_map)

lemma last_n_suffix: "\<exists>pre. xs = pre @ last_n n xs"
  by (metis append_take_drop_id last_n_def)

text \<open>
  The read loop \<open>for (i = size - count; i < size; ++i)\<close> over a list visits its last
  \<open>count\<close> elements.
\<close>

lemma map_nth_upt_last_n:
  "map (nth xs) [length xs - min n (length xs)..<length xs] = last_n n xs"
  by (rule nth_equalityI) (auto simp: last_n_def min_def)

section \<open>C++ integers\<close>

text \<open>
  \<open>int\<close>, \<open>int64_t\<close> and Windows' 32-bit \<open>long\<close> are carried as \<open>int\<close> with their range
  written out where a computation could leave it; \<open>as_int32\<close> is the value-changing
  conversion \<open>static_cast<int>\<close>, \<open>as_size\<close> is \<open>static_cast<std::size_t>\<close>.
\<close>

type_synonym u8 = "8 word"
type_synonym u16 = "16 word"
type_synonym u32 = "32 word"
type_synonym u64 = "64 word"

definition int32_range :: "int \<Rightarrow> bool" where
  "int32_range i \<longleftrightarrow> - (2 ^ 31) \<le> i \<and> i < 2 ^ 31"

definition as_int32 :: "int \<Rightarrow> int" where
  "as_int32 i = (i + 2 ^ 31) mod 2 ^ 32 - 2 ^ 31"

definition as_size :: "int \<Rightarrow> nat" where
  "as_size i = nat (i mod 2 ^ 64)"

definition as_u32 :: "int \<Rightarrow> u32" where
  "as_u32 i = word_of_int i"

lemma as_int32_range [simp]: "int32_range (as_int32 i)"
proof -
  have "0 \<le> (i + 2 ^ 31) mod 2 ^ 32" and "(i + 2 ^ 31) mod 2 ^ 32 < 2 ^ 32"
    by simp_all
  then show ?thesis by (simp add: int32_range_def as_int32_def)
qed

lemma as_int32_id: "int32_range i \<Longrightarrow> as_int32 i = i"
  by (simp add: int32_range_def as_int32_def)

lemma as_size_id: "0 \<le> i \<Longrightarrow> i < 2 ^ 64 \<Longrightarrow> as_size i = nat i"
  by (simp add: as_size_def)

text \<open>\<open>std::clamp(v, lo, hi)\<close>, with the comparison order of the standard.\<close>

definition std_clamp :: "int \<Rightarrow> int \<Rightarrow> int \<Rightarrow> int" where
  "std_clamp v lo hi = (if v < lo then lo else if hi < v then hi else v)"

lemma std_clamp_bounds: "lo \<le> hi \<Longrightarrow> lo \<le> std_clamp v lo hi \<and> std_clamp v lo hi \<le> hi"
  by (simp add: std_clamp_def)

lemma std_clamp_id: "lo \<le> v \<Longrightarrow> v \<le> hi \<Longrightarrow> std_clamp v lo hi = v"
  by (simp add: std_clamp_def)

end
