(* ===== verification/Bounded_Log.thy ===== *)
theory Bounded_Log
  imports Prelude
begin

text \<open>
  The contract shared by every bounded container of the program: the telemetry history
  (\<open>RingBuffer\<close>), the per-subscriber queues of \<open>TelemetryHub\<close> and \<open>EventBus\<close>, the chart
  series (\<open>MetricSeries\<close>) and the notification list (\<open>NotificationModel\<close>). Each accepts
  a new element and, once full, forgets its oldest one. The providers interpret the
  locale on their own definitions; what a client may conclude about a whole run of
  pushes is proved once, here.
\<close>

locale bounded_log =
  fixes push :: "'s \<Rightarrow> 'a \<Rightarrow> 's"
    and contents :: "'s \<Rightarrow> 'a list"
    and capacity :: "'s \<Rightarrow> nat"
    and inv :: "'s \<Rightarrow> bool"
  assumes inv_push: "inv s \<Longrightarrow> inv (push s x)"
    and capacity_push: "inv s \<Longrightarrow> capacity (push s x) = capacity s"
    and capacity_pos: "inv s \<Longrightarrow> 0 < capacity s"
    and contents_bound: "inv s \<Longrightarrow> length (contents s) \<le> capacity s"
    and contents_push: "inv s \<Longrightarrow> contents (push s x) = last_n (capacity s) (contents s @ [x])"
begin

lemma inv_push_all: "inv s \<Longrightarrow> inv (foldl push s xs)"
  by (induction xs arbitrary: s) (simp_all add: inv_push)

lemma capacity_push_all: "inv s \<Longrightarrow> capacity (foldl push s xs) = capacity s"
  by (induction xs arbitrary: s) (simp_all add: inv_push capacity_push)

text \<open>After any run the container holds exactly the most recent elements, in order.\<close>

lemma contents_push_all:
  "inv s \<Longrightarrow> contents (foldl push s xs) = last_n (capacity s) (contents s @ xs)"
proof (induction xs arbitrary: s)
  case Nil
  then show ?case by (simp add: last_n_id contents_bound)
next
  case (Cons x xs)
  then have "contents (foldl push (push s x) xs) =
      last_n (capacity s) (last_n (capacity s) (contents s @ [x]) @ xs)"
    by (simp add: inv_push capacity_push contents_push)
  then show ?case by (simp add: last_n_last_n_append)
qed

lemma contents_push_all_bound:
  "inv s \<Longrightarrow> length (contents (foldl push s xs)) \<le> capacity s"
  by (simp add: contents_push_all)

text \<open>The newest element is never the one that is dropped.\<close>

lemma last_contents_push: "inv s \<Longrightarrow> contents (push s x) \<noteq> [] \<and> last (contents (push s x)) = x"
  using capacity_pos [of s] by (simp add: contents_push last_n_snoc)

text \<open>Nothing is lost while there is room.\<close>

lemma contents_push_all_room:
  "inv s \<Longrightarrow> length (contents s) + length xs \<le> capacity s
    \<Longrightarrow> contents (foldl push s xs) = contents s @ xs"
  by (simp add: contents_push_all last_n_id)

end

end
