(* ===== verification/Ring_Buffer.thy ===== *)
theory Ring_Buffer
  imports Bounded_Log
begin

text \<open>
  \<open>libs/core/include/hwpanel/core/ring_buffer.h\<close>: the fixed-capacity circular buffer
  behind the service-side telemetry history. Every member function takes the mutex for
  its whole body, so each is one atomic operation on the record.
\<close>

section \<open>Model\<close>

record 'a ring_buffer =
  buf :: "'a list"
  head_ix :: nat
  total :: u64
  cap :: nat

definition RingBuffer :: "nat \<Rightarrow> 'a ring_buffer" where
  "RingBuffer c = \<lparr>buf = [], head_ix = 0, total = 0, cap = (if c = 0 then 1 else c)\<rparr>"

definition Push :: "'a ring_buffer \<Rightarrow> 'a \<Rightarrow> 'a ring_buffer" where
  "Push rb v =
     (let rb' = (if length (buf rb) < cap rb then rb\<lparr>buf := buf rb @ [v]\<rparr>
                 else rb\<lparr>buf := (buf rb)[head_ix rb := v],
                         head_ix := (head_ix rb + 1) mod cap rb\<rparr>)
      in rb'\<lparr>total := total rb' + 1\<rparr>)"

definition Size :: "'a ring_buffer \<Rightarrow> nat" where
  "Size rb = length (buf rb)"

definition Capacity :: "'a ring_buffer \<Rightarrow> nat" where
  "Capacity rb = cap rb"

definition TotalPushed :: "'a ring_buffer \<Rightarrow> u64" where
  "TotalPushed rb = total rb"

definition LastN :: "'a ring_buffer \<Rightarrow> nat \<Rightarrow> 'a list" where
  "LastN rb n =
     (let count = min n (length (buf rb))
      in map (\<lambda>i. buf rb ! ((head_ix rb + i) mod cap rb))
           [length (buf rb) - count..<length (buf rb)])"

definition All :: "'a ring_buffer \<Rightarrow> 'a list" where
  "All rb = LastN rb (Size rb)"

definition Clear :: "'a ring_buffer \<Rightarrow> 'a ring_buffer" where
  "Clear rb = rb\<lparr>buf := [], head_ix := 0, total := 0\<rparr>"

section \<open>Invariant and abstraction\<close>

text \<open>
  \<open>head_ix\<close> is the index of the oldest element and stays 0 until the buffer is full; the
  chronological view is the buffer rotated to start at \<open>head_ix\<close>.
\<close>

definition rb_inv :: "'a ring_buffer \<Rightarrow> bool" where
  "rb_inv rb \<longleftrightarrow> 0 < cap rb \<and> length (buf rb) \<le> cap rb \<and> head_ix rb < cap rb \<and>
     (length (buf rb) < cap rb \<longrightarrow> head_ix rb = 0)"

definition rb_list :: "'a ring_buffer \<Rightarrow> 'a list" where
  "rb_list rb = rotate (head_ix rb) (buf rb)"

lemma rb_inv_RingBuffer [simp, inv_rules]: "rb_inv (RingBuffer c)"
  by (simp add: rb_inv_def RingBuffer_def)

lemma rb_list_RingBuffer [simp]: "rb_list (RingBuffer c) = []"
  by (simp add: rb_list_def RingBuffer_def)

lemma cap_RingBuffer [simp]: "cap (RingBuffer c) = max 1 c"
  by (simp add: RingBuffer_def)

lemma cap_Push [simp]: "cap (Push rb x) = cap rb"
  by (simp add: Push_def Let_def)

lemma total_Push [simp]: "total (Push rb x) = total rb + 1"
  by (simp add: Push_def Let_def)

lemma rb_inv_Push [inv_rules]: "rb_inv rb \<Longrightarrow> rb_inv (Push rb x)"
  by (auto simp: rb_inv_def Push_def Let_def)

lemma rb_inv_Clear [inv_rules]: "rb_inv rb \<Longrightarrow> rb_inv (Clear rb)"
  by (simp add: rb_inv_def Clear_def)

lemma rb_list_Clear: "rb_list (Clear rb) = []"
  by (simp add: rb_list_def Clear_def)

lemma length_rb_list [simp]: "length (rb_list rb) = length (buf rb)"
  by (simp add: rb_list_def)

text \<open>Overwriting the oldest slot and advancing the head drops the oldest element.\<close>

lemma rotate_Suc_update:
  assumes "h < length xs"
  shows "rotate (Suc h) (xs[h := x]) = tl (rotate h xs) @ [x]"
proof (rule nth_equalityI)
  show "length (rotate (Suc h) (xs[h := x])) = length (tl (rotate h xs) @ [x])"
    using assms by simp
next
  fix i assume "i < length (rotate (Suc h) (xs[h := x]))"
  then have i: "i < length xs" by simp
  then have l: "rotate (Suc h) (xs[h := x]) ! i = xs[h := x] ! ((Suc h + i) mod length xs)"
    by (simp only: nth_rotate length_list_update)
  show "rotate (Suc h) (xs[h := x]) ! i = (tl (rotate h xs) @ [x]) ! i"
  proof (cases "Suc i = length xs")
    case True
    then have "Suc h + i = h + length xs" by simp
    then have "(Suc h + i) mod length xs = h" using assms by (simp only: mod_add_self2) simp
    with True assms show ?thesis unfolding l by (auto simp: nth_append)
  next
    case False
    with i have "Suc i < length xs" by simp
    then have "(Suc h + i) mod length xs \<noteq> h"
      using assms by (auto simp: mod_if)
    with i False show ?thesis
      unfolding l by (auto simp: nth_append nth_tl nth_rotate)
  qed
qed

lemma rb_list_Push:
  assumes "rb_inv rb"
  shows "rb_list (Push rb x) = last_n (cap rb) (rb_list rb @ [x])"
proof (cases "length (buf rb) < cap rb")
  case True
  with assms have "head_ix rb = 0" by (simp add: rb_inv_def)
  with True show ?thesis
    by (simp add: rb_list_def Push_def Let_def last_n_room)
next
  case False
  with assms have len: "length (buf rb) = cap rb" and h: "head_ix rb < length (buf rb)"
    by (auto simp: rb_inv_def)
  have "rb_list (Push rb x) = rotate (Suc (head_ix rb) mod length (buf rb)) ((buf rb)[head_ix rb := x])"
    using False len by (simp add: rb_list_def Push_def Let_def)
  also have "\<dots> = rotate (Suc (head_ix rb)) ((buf rb)[head_ix rb := x])"
    by (metis length_list_update rotate_conv_mod)
  also have "\<dots> = tl (rb_list rb) @ [x]"
    using rotate_Suc_update [OF h] by (simp add: rb_list_def)
  also have "\<dots> = last_n (cap rb) (rb_list rb @ [x])"
    using len h by (auto simp: last_n_full)
  finally show ?thesis .
qed

text \<open>Every index the read loop computes is inside the buffer.\<close>

lemma LastN_index_in_range:
  assumes "rb_inv rb" and "i < length (buf rb)"
  shows "(head_ix rb + i) mod cap rb < length (buf rb)"
  using assms by (cases "length (buf rb) < cap rb") (auto simp: rb_inv_def)

lemma rb_list_nth:
  assumes "rb_inv rb" and "i < length (buf rb)"
  shows "rb_list rb ! i = buf rb ! ((head_ix rb + i) mod cap rb)"
proof (cases "length (buf rb) < cap rb")
  case True
  with assms have "head_ix rb = 0" by (simp add: rb_inv_def)
  with True assms(2) show ?thesis by (simp add: rb_list_def)
next
  case False
  with assms have "length (buf rb) = cap rb" by (auto simp: rb_inv_def)
  with assms(2) show ?thesis by (simp add: rb_list_def nth_rotate)
qed

lemma LastN_eq:
  assumes "rb_inv rb"
  shows "LastN rb n = last_n n (rb_list rb)"
proof -
  have "LastN rb n = map (nth (rb_list rb))
      [length (rb_list rb) - min n (length (rb_list rb))..<length (rb_list rb)]"
    using assms by (auto simp: LastN_def Let_def rb_list_nth)
  then show ?thesis by (simp only: map_nth_upt_last_n)
qed

lemma All_eq: "rb_inv rb \<Longrightarrow> All rb = rb_list rb"
  by (simp add: All_def Size_def LastN_eq last_n_id)

section \<open>The contract\<close>

interpretation ring: bounded_log Push rb_list cap rb_inv
  by unfold_locales
    (auto simp: rb_inv_Push rb_list_Push, auto simp: rb_inv_def)

lemma total_pushes: "total (foldl Push rb xs) = total rb + of_nat (length xs)"
  by (induction xs arbitrary: rb) (simp_all add: algebra_simps)

text \<open>
  C20: after any sequence of pushes into a fresh ring buffer, \<open>LastN(n)\<close> returns exactly
  the \<open>min(n, capacity)\<close> most recent values in chronological order, whatever wrapping of
  the write index happened, and \<open>TotalPushed\<close> counts every push modulo $2^{64}$.
\<close>

theorem ring_buffer_keeps_most_recent:
  "LastN (foldl Push (RingBuffer c) xs) n = last_n (min n (max 1 c)) xs \<and>
   TotalPushed (foldl Push (RingBuffer c) xs) = of_nat (length xs)"
  by (simp add: LastN_eq ring.inv_push_all ring.contents_push_all TotalPushed_def total_pushes)
    (simp add: RingBuffer_def)

end
