(* ===== verification/Fanout.thy ===== *)
theory Fanout
  imports Bounded_Log "HOL-Library.Sublist"
begin

text \<open>
  The publish/subscribe contract that \<open>TelemetryHub\<close> and \<open>EventBus\<close> share: a subscriber
  is a bounded queue with a closed flag, owned by its consumer and reached by the
  publisher through a weak pointer. A heap maps the identity of each live subscriber
  object to its state; an identity outside the heap is an expired weak pointer. The two
  providers interpret the locale on their own definitions.
\<close>

section \<open>A subscriber against an arbitrary interleaving\<close>

text \<open>What may happen to one subscriber, in the order the mutex serialises it.\<close>

datatype 'm sub_op = OpPublish 'm | OpPop | OpClose

text \<open>
  A run of such operations: the messages the consumer received, the final subscriber.
\<close>

fun session ::
  "('s \<Rightarrow> 'm \<Rightarrow> 's) \<Rightarrow> ('s \<Rightarrow> 'm option \<times> 's) \<Rightarrow> ('s \<Rightarrow> 's) \<Rightarrow> 's \<Rightarrow> 'm sub_op list \<Rightarrow>
     'm list \<times> 's" where
  "session deliver pop cls s [] = ([], s)"
| "session deliver pop cls s (OpPublish m # ops) = session deliver pop cls (deliver s m) ops"
| "session deliver pop cls s (OpPop # ops) =
     (let (r, s1) = pop s; (got, s2) = session deliver pop cls s1 ops
      in ((case r of None \<Rightarrow> got | Some m \<Rightarrow> m # got), s2))"
| "session deliver pop cls s (OpClose # ops) = session deliver pop cls (cls s) ops"

fun published :: "'m sub_op list \<Rightarrow> 'm list" where
  "published [] = []"
| "published (OpPublish m # ops) = m # published ops"
| "published (OpPop # ops) = published ops"
| "published (OpClose # ops) = published ops"

section \<open>Delivery along a list of weak pointers\<close>

text \<open>
  The first loop of \<open>Publish\<close> keeps the identities whose \<open>weak_ptr::lock\<close> succeeds and
  erases the others; the second one delivers to each of them in turn.
\<close>

definition live_ids :: "(nat \<rightharpoonup> 's) \<Rightarrow> nat list \<Rightarrow> nat list" where
  "live_ids heap ids = filter (\<lambda>i. heap i \<noteq> None) ids"

primrec deliver_all :: "('s \<Rightarrow> 'm \<Rightarrow> 's) \<Rightarrow> 'm \<Rightarrow> (nat \<rightharpoonup> 's) \<Rightarrow> nat list \<Rightarrow> (nat \<rightharpoonup> 's)" where
  "deliver_all deliver m heap [] = heap"
| "deliver_all deliver m heap (i # ids) =
     deliver_all deliver m
       (case heap i of None \<Rightarrow> heap | Some s \<Rightarrow> heap(i \<mapsto> deliver s m)) ids"

lemma set_live_ids: "set (live_ids heap ids) = set ids \<inter> dom heap"
  by (auto simp: live_ids_def)

lemma distinct_live_ids: "distinct ids \<Longrightarrow> distinct (live_ids heap ids)"
  by (simp add: live_ids_def)

lemma dom_deliver_all [simp]: "dom (deliver_all deliver m heap ids) = dom heap"
  by (induction ids arbitrary: heap) (auto split: option.splits)

lemma deliver_all_other: "i \<notin> set ids \<Longrightarrow> deliver_all deliver m heap ids i = heap i"
  by (induction ids arbitrary: heap) (auto split: option.splits)

lemma deliver_all_at:
  "distinct ids \<Longrightarrow> deliver_all deliver m heap ids i =
     (if i \<in> set ids then map_option (\<lambda>s. deliver s m) (heap i) else heap i)"
  by (induction ids arbitrary: heap) (auto simp: deliver_all_other split: option.splits)

section \<open>A registry of subscribers\<close>

text \<open>
  The \<open>std::vector<std::weak_ptr<Subscriber>>\<close> of a publisher together with the heap of
  subscriber objects: an identity is live while the heap holds its object, which is while
  its consumer keeps the \<open>shared_ptr\<close> that \<open>Subscribe\<close> returned.
\<close>

record 's registry =
  subscribers :: "nat list"
  heap :: "nat \<rightharpoonup> 's"
  next_id :: nat

definition registry_empty :: "'s registry" where
  "registry_empty = \<lparr>subscribers = [], heap = Map.empty, next_id = 0\<rparr>"

definition registry_publish :: "('s \<Rightarrow> 'm \<Rightarrow> 's) \<Rightarrow> 'm \<Rightarrow> 's registry \<Rightarrow> 's registry" where
  "registry_publish deliver m r =
     (let live = live_ids (heap r) (subscribers r)
      in r\<lparr>subscribers := live, heap := deliver_all deliver m (heap r) live\<rparr>)"

definition registry_add :: "'s \<Rightarrow> 's registry \<Rightarrow> nat \<times> 's registry" where
  "registry_add s r =
     (next_id r, r\<lparr>subscribers := subscribers r @ [next_id r],
                  heap := (heap r)(next_id r \<mapsto> s), next_id := Suc (next_id r)\<rparr>)"

text \<open>A consumer's call on its own object (\<open>Pop\<close>, \<open>Close\<close>), and the end of its life.\<close>

definition registry_pop :: "('s \<Rightarrow> 'm option \<times> 's) \<Rightarrow> nat \<Rightarrow> 's registry \<Rightarrow> 'm option \<times> 's registry" where
  "registry_pop pop i r =
     (case heap r i of
        None \<Rightarrow> (None, r)
      | Some s \<Rightarrow> (let (m, s') = pop s in (m, r\<lparr>heap := (heap r)(i \<mapsto> s')\<rparr>)))"

definition registry_apply :: "('s \<Rightarrow> 's) \<Rightarrow> nat \<Rightarrow> 's registry \<Rightarrow> 's registry" where
  "registry_apply f i r =
     (case heap r i of None \<Rightarrow> r | Some s \<Rightarrow> r\<lparr>heap := (heap r)(i \<mapsto> f s)\<rparr>)"

definition registry_release :: "nat \<Rightarrow> 's registry \<Rightarrow> 's registry" where
  "registry_release i r = r\<lparr>heap := (heap r)(i := None)\<rparr>"

text \<open>
  Identities are fresh and never registered twice, and every live object is registered:
  \<open>Publish\<close> prunes the expired ones only.
\<close>

definition registry_inv :: "'s registry \<Rightarrow> bool" where
  "registry_inv r \<longleftrightarrow> distinct (subscribers r) \<and> dom (heap r) \<subseteq> set (subscribers r) \<and>
     (\<forall>i \<in> set (subscribers r). i < next_id r)"

lemma registry_inv_empty [simp, inv_rules]: "registry_inv registry_empty"
  by (simp add: registry_inv_def registry_empty_def)

lemma registry_inv_publish [inv_rules]: "registry_inv r \<Longrightarrow> registry_inv (registry_publish deliver m r)"
  by (auto simp: registry_inv_def registry_publish_def Let_def set_live_ids distinct_live_ids)

lemma registry_inv_add [inv_rules]: "registry_inv r \<Longrightarrow> registry_inv (snd (registry_add s r))"
  by (fastforce simp: registry_inv_def registry_add_def split: if_splits)

lemma registry_inv_pop [inv_rules]: "registry_inv r \<Longrightarrow> registry_inv (snd (registry_pop pop i r))"
  by (auto simp: registry_inv_def registry_pop_def split: option.splits prod.splits)

lemma registry_inv_apply [inv_rules]: "registry_inv r \<Longrightarrow> registry_inv (registry_apply f i r)"
  by (auto simp: registry_inv_def registry_apply_def split: option.splits)

lemma registry_inv_release [inv_rules]: "registry_inv r \<Longrightarrow> registry_inv (registry_release i r)"
  by (auto simp: registry_inv_def registry_release_def)

text \<open>Under the invariant a publish reaches every live object, and each exactly once.\<close>

lemma heap_registry_publish:
  assumes "registry_inv r"
  shows "heap (registry_publish deliver m r) i = map_option (\<lambda>s. deliver s m) (heap r i)"
proof -
  have "i \<notin> set (subscribers r) \<Longrightarrow> heap r i = None"
    using assms by (auto simp: registry_inv_def)
  then show ?thesis using assms
    by (auto simp: registry_inv_def registry_publish_def Let_def deliver_all_at distinct_live_ids
        set_live_ids domIff)
qed

lemma subscribers_registry_publish:
  "subscribers (registry_publish deliver m r) = filter (\<lambda>i. heap r i \<noteq> None) (subscribers r)"
  by (simp add: registry_publish_def live_ids_def Let_def)

section \<open>Runs of a registry\<close>

datatype 'm reg_op = Publish_op 'm | Subscribe_op | Pop_op nat | Close_op nat | Release_op nat

text \<open>One operation; the list holds what a \<open>Pop\<close> handed to its consumer.\<close>

fun registry_step ::
  "('s \<Rightarrow> 'm \<Rightarrow> 's) \<Rightarrow> ('s \<Rightarrow> 'm option \<times> 's) \<Rightarrow> ('s \<Rightarrow> 's) \<Rightarrow> 's \<Rightarrow>
     's registry \<Rightarrow> 'm reg_op \<Rightarrow> (nat \<times> 'm) list \<times> 's registry" where
  "registry_step deliver pop cls new r (Publish_op m) = ([], registry_publish deliver m r)"
| "registry_step deliver pop cls new r Subscribe_op = ([], snd (registry_add new r))"
| "registry_step deliver pop cls new r (Pop_op i) =
     (let (m, r') = registry_pop pop i r
      in ((case m of None \<Rightarrow> [] | Some x \<Rightarrow> [(i, x)]), r'))"
| "registry_step deliver pop cls new r (Close_op i) = ([], registry_apply cls i r)"
| "registry_step deliver pop cls new r (Release_op i) = ([], registry_release i r)"

fun registry_run ::
  "('s \<Rightarrow> 'm \<Rightarrow> 's) \<Rightarrow> ('s \<Rightarrow> 'm option \<times> 's) \<Rightarrow> ('s \<Rightarrow> 's) \<Rightarrow> 's \<Rightarrow>
     's registry \<Rightarrow> 'm reg_op list \<Rightarrow> (nat \<times> 'm) list \<times> 's registry" where
  "registry_run deliver pop cls new r [] = ([], r)"
| "registry_run deliver pop cls new r (op # ops) =
     (let (out, r') = registry_step deliver pop cls new r op;
          (outs, r'') = registry_run deliver pop cls new r' ops
      in (out @ outs, r''))"

text \<open>What subscriber \<open>i\<close> received, and the run as that subscriber sees it.\<close>

definition received :: "nat \<Rightarrow> (nat \<times> 'm) list \<Rightarrow> 'm list" where
  "received i out = map snd (filter (\<lambda>(j, _). j = i) out)"

fun view_of :: "nat \<Rightarrow> 'm reg_op list \<Rightarrow> 'm sub_op list" where
  "view_of i [] = []"
| "view_of i (Publish_op m # ops) = OpPublish m # view_of i ops"
| "view_of i (Subscribe_op # ops) = view_of i ops"
| "view_of i (Pop_op j # ops) = (if j = i then OpPop # view_of i ops else view_of i ops)"
| "view_of i (Close_op j # ops) = (if j = i then OpClose # view_of i ops else view_of i ops)"
| "view_of i (Release_op j # ops) = view_of i ops"

fun ops_published :: "'m reg_op list \<Rightarrow> 'm list" where
  "ops_published [] = []"
| "ops_published (Publish_op m # ops) = m # ops_published ops"
| "ops_published (_ # ops) = ops_published ops"

lemma published_view_of [simp]: "published (view_of i ops) = ops_published ops"
  by (induction i ops rule: view_of.induct) simp_all

lemma received_append [simp]: "received i (a @ b) = received i a @ received i b"
  by (simp add: received_def)

lemma registry_inv_step: "registry_inv r \<Longrightarrow> registry_inv (snd (registry_step deliver pop cls new r op))"
  by (cases op) (auto simp: split_beta Let_def intro: inv_rules)

lemma registry_inv_run: "registry_inv r \<Longrightarrow> registry_inv (snd (registry_run deliver pop cls new r ops))"
proof (induction ops arbitrary: r)
  case (Cons op ops)
  then show ?case using registry_inv_step [OF Cons.prems, of deliver pop cls new op]
    by (simp add: split_beta Let_def)
qed simp

lemma registry_run_append:
  "registry_run d p c n r (a @ b) =
     (let (out1, r1) = registry_run d p c n r a; (out2, r2) = registry_run d p c n r1 b in (out1 @ out2, r2))"
  by (induction a arbitrary: r) (simp_all add: split_beta Let_def)

lemma ops_published_append [simp]: "ops_published (a @ b) = ops_published a @ ops_published b"
  by (induction a rule: ops_published.induct) simp_all

lemma view_of_append [simp]: "view_of i (a @ b) = view_of i a @ view_of i b"
  by (induction i a rule: view_of.induct) simp_all

text \<open>Operations that do not come from the owner of subscriber \<open>i\<close>.\<close>

definition foreign :: "nat \<Rightarrow> 'm reg_op list \<Rightarrow> bool" where
  "foreign i ops \<longleftrightarrow> Pop_op i \<notin> set ops \<and> Close_op i \<notin> set ops \<and> Release_op i \<notin> set ops"

lemma view_of_foreign: "foreign i ops \<Longrightarrow> view_of i ops = map OpPublish (ops_published ops)"
  by (induction i ops rule: view_of.induct) (auto simp: foreign_def)

text \<open>
  The operations of a consumer loop: in each turn the others act, then the consumer pops.
\<close>

definition polling_ops :: "nat \<Rightarrow> 'm reg_op list list \<Rightarrow> 'm reg_op list" where
  "polling_ops i turns = concat (map (\<lambda>ops. ops @ [Pop_op i]) turns)"

lemma polling_ops_simps [simp]:
  "polling_ops i [] = []" "polling_ops i (ops # turns) = ops @ Pop_op i # polling_ops i turns"
  by (simp_all add: polling_ops_def)

lemma ops_published_polling [simp]: "ops_published (polling_ops i turns) = concat (map ops_published turns)"
  by (induction turns) simp_all

lemma view_of_polling:
  "\<forall>ops \<in> set turns. foreign i ops \<Longrightarrow>
     view_of i (polling_ops i turns) = concat (map (\<lambda>ops. map OpPublish (ops_published ops) @ [OpPop]) turns)"
  by (induction turns) (simp_all add: view_of_foreign)

lemma polling_no_release: "\<forall>ops \<in> set turns. foreign i ops \<Longrightarrow> Release_op i \<notin> set (polling_ops i turns)"
  by (auto simp: polling_ops_def foreign_def)

text \<open>
  The projection of a run of the whole registry on one subscriber is a session of that
  subscriber: no other consumer, subscription or release can affect it.
\<close>

lemma registry_run_view:
  assumes "registry_inv r" and "heap r i = Some s" and "Release_op i \<notin> set ops"
    and "registry_run deliver pop cls new r ops = (out, r')"
  shows "\<exists>s'. heap r' i = Some s' \<and> session deliver pop cls s (view_of i ops) = (received i out, s')"
  using assms
proof (induction ops arbitrary: r s out)
  case Nil
  then show ?case by (simp add: received_def)
next
  case (Cons op ops)
  obtain out1 r1 out2 where step: "registry_step deliver pop cls new r op = (out1, r1)"
    and run: "registry_run deliver pop cls new r1 ops = (out2, r')" and out: "out = out1 @ out2"
    using Cons.prems(4) by (auto split: prod.splits)
  have inv: "registry_inv r1"
    using registry_inv_step [OF Cons.prems(1), of deliver pop cls new op] step by simp
  have rel: "Release_op i \<notin> set ops" using Cons.prems(3) by simp
  note IH = Cons.IH [OF inv _ rel run]
  have fresh: "next_id r \<noteq> i"
    using Cons.prems(1,2) by (auto simp: registry_inv_def dom_def)
  show ?case
  proof (cases op)
    case (Publish_op m)
    with step have "heap r1 i = Some (deliver s m)" "out1 = []"
      using heap_registry_publish [OF Cons.prems(1), of deliver m i] Cons.prems(2) by auto
    with IH out Publish_op show ?thesis by simp
  next
    case Subscribe_op
    with step have "heap r1 i = Some s" "out1 = []"
      using Cons.prems(2) fresh by (auto simp: registry_add_def)
    with IH out Subscribe_op show ?thesis by simp
  next
    case (Pop_op j)
    show ?thesis
    proof (cases "j = i")
      case True
      with Pop_op step Cons.prems(2) have "heap r1 i = Some (snd (pop s))"
        "out1 = (case fst (pop s) of None \<Rightarrow> [] | Some x \<Rightarrow> [(i, x)])"
        by (auto simp: registry_pop_def split_beta Let_def)
      with IH out Pop_op True show ?thesis
        by (auto simp: received_def split_beta Let_def split: option.splits)
    next
      case False
      with Pop_op step Cons.prems(2) have "heap r1 i = Some s" "received i out1 = []"
        by (auto simp: registry_pop_def received_def split_beta Let_def split: option.splits)
      with IH out Pop_op False show ?thesis by simp
    qed
  next
    case (Close_op j)
    with step Cons.prems(2) have "heap r1 i = Some (if j = i then cls s else s)" "out1 = []"
      by (auto simp: registry_apply_def split: option.splits)
    with IH out Close_op show ?thesis by (cases "j = i") simp_all
  next
    case (Release_op j)
    with step Cons.prems(2,3) have "heap r1 i = Some s" "out1 = []"
      by (auto simp: registry_release_def)
    with IH out Release_op show ?thesis by simp
  qed
qed

lemma close_not_in_view: "Close_op i \<notin> set ops \<Longrightarrow> OpClose \<notin> set (view_of i ops)"
  by (induction i ops rule: view_of.induct) auto

section \<open>Streaming consumers\<close>

text \<open>
  One turn of the streaming loop as its environment decides it: whether the call is
  cancelled, what the other threads do to the hub before the subscriber's \<open>Pop\<close> returns,
  and whether the write to the client succeeds.
\<close>

record 'm rpc_turn =
  rt_cancelled :: bool
  rt_ops :: "'m reg_op list"
  rt_write_ok :: bool

lemma received_foreign:
  assumes "foreign i ops"
  shows "received i (fst (registry_run d p c n r ops)) = []"
  using assms
proof (induction ops arbitrary: r)
  case (Cons op ops)
  have "received i (fst (registry_step d p c n r op)) = []"
    using Cons.prems by (cases op) (auto simp: foreign_def received_def split_beta Let_def split: option.splits)
  then show ?case using Cons by (auto simp: foreign_def split_beta Let_def)
qed (simp add: received_def)

lemma received_single [simp]: "received i (case r of None \<Rightarrow> [] | Some x \<Rightarrow> [(i, x)]) = (case r of None \<Rightarrow> [] | Some x \<Rightarrow> [x])"
  by (simp add: received_def split: option.splits)

lemma published_map_append [simp]: "published (map OpPublish xs @ ys) = xs @ published ys"
  by (induction xs) simp_all

lemma published_turns [simp]:
  "published (concat (map (\<lambda>t. map OpPublish (f t) @ [OpPop]) past)) = concat (map f past)"
  by (induction past) simp_all

text \<open>What the consumer loop takes from a registry in some turns, and the registry they leave.\<close>

definition reg_taken where
  "reg_taken d p c n i turns r = received i (fst (registry_run d p c n r (polling_ops i (map rt_ops turns))))"

definition reg_after where
  "reg_after d p c n i turns r = snd (registry_run d p c n r (polling_ops i (map rt_ops turns)))"

lemma reg_taken_Nil [simp]: "reg_taken d p c n i [] r = []" "reg_after d p c n i [] r = r"
  by (simp_all add: reg_taken_def reg_after_def received_def)

lemma reg_taken_Cons:
  assumes "foreign i (rt_ops t)" and "registry_pop p i (snd (registry_run d p c n r (rt_ops t))) = (x, r1)"
  shows "reg_taken d p c n i (t # turns) r = (case x of None \<Rightarrow> [] | Some m \<Rightarrow> [m]) @ reg_taken d p c n i turns r1"
    and "reg_after d p c n i (t # turns) r = reg_after d p c n i turns r1"
  using received_foreign [OF assms(1), of d p c n r] assms(2)
  by (simp_all add: reg_taken_def reg_after_def registry_run_append split_beta Let_def)

lemma reg_taken_session:
  assumes "registry_inv r" and "heap r i = Some s" and "\<forall>t \<in> set turns. foreign i (rt_ops t)"
  shows "\<exists>s'. heap (reg_after d p c n i turns r) i = Some s' \<and>
    session d p c s (concat (map (\<lambda>t. map OpPublish (ops_published (rt_ops t)) @ [OpPop]) turns)) =
      (reg_taken d p c n i turns r, s')"
proof -
  have f: "\<forall>ops \<in> set (map rt_ops turns). foreign i ops" using assms(3) by simp
  have run: "registry_run d p c n r (polling_ops i (map rt_ops turns)) =
      (fst (registry_run d p c n r (polling_ops i (map rt_ops turns))), reg_after d p c n i turns r)"
    by (simp add: reg_after_def)
  from registry_run_view [OF assms(1,2) polling_no_release [OF f] run]
  show ?thesis by (simp add: view_of_polling [OF f] reg_taken_def comp_def)
qed

section \<open>The contract\<close>

locale fanout =
  fixes deliver :: "'s \<Rightarrow> 'm \<Rightarrow> 's"
    and pop :: "'s \<Rightarrow> 'm option \<times> 's"
    and close_sub :: "'s \<Rightarrow> 's"
    and queue_of :: "'s \<Rightarrow> 'm list"
    and closed_of :: "'s \<Rightarrow> bool"
    and limit :: nat
  assumes limit_pos: "0 < limit"
    and deliver_closed: "closed_of s \<Longrightarrow> deliver s m = s"
    and closed_deliver: "closed_of (deliver s m) = closed_of s"
    and queue_deliver: "\<not> closed_of s \<Longrightarrow> length (queue_of s) \<le> limit \<Longrightarrow>
      queue_of (deliver s m) = last_n limit (queue_of s @ [m])"
    and pop_empty: "queue_of s = [] \<Longrightarrow> pop s = (None, s)"
    and pop_value: "queue_of s = m # ms \<Longrightarrow>
      fst (pop s) = Some m \<and> queue_of (snd (pop s)) = ms \<and> closed_of (snd (pop s)) = closed_of s"
    and queue_close: "queue_of (close_sub s) = queue_of s"
    and closed_close: "closed_of (close_sub s)"

text \<open>An open subscriber within its limit is a bounded log.\<close>

sublocale fanout \<subseteq> bounded_log deliver queue_of "\<lambda>_. limit"
  "\<lambda>s. \<not> closed_of s \<and> length (queue_of s) \<le> limit"
  by unfold_locales (simp_all add: closed_deliver queue_deliver limit_pos)

context fanout begin

lemma queue_bound: "length (queue_of s) \<le> limit \<Longrightarrow> length (queue_of (deliver s m)) \<le> limit"
  by (cases "closed_of s") (simp_all add: deliver_closed queue_deliver)

lemma queue_bound_pop: "length (queue_of s) \<le> limit \<Longrightarrow> length (queue_of (snd (pop s))) \<le> limit"
  using pop_empty [of s] pop_value [of s] by (cases "queue_of s") auto

lemma closed_pop: "closed_of (snd (pop s)) = closed_of s"
  using pop_empty [of s] pop_value [of s] by (cases "queue_of s") auto

text \<open>No operation of a registry lets a queue grow beyond the limit.\<close>

definition all_bounded :: "'s registry \<Rightarrow> bool" where
  "all_bounded r \<longleftrightarrow> (\<forall>i s. heap r i = Some s \<longrightarrow> length (queue_of s) \<le> limit)"

lemma all_boundedD: "all_bounded r \<Longrightarrow> heap r i = Some s \<Longrightarrow> length (queue_of s) \<le> limit"
  by (simp add: all_bounded_def)

lemma all_bounded_step:
  assumes "registry_inv r" and "all_bounded r" and "queue_of new = []"
  shows "all_bounded (snd (registry_step deliver pop close_sub new r op))"
proof (cases op)
  case (Publish_op m)
  with assms show ?thesis
    by (auto simp: all_bounded_def heap_registry_publish queue_bound)
next
  case Subscribe_op
  with assms show ?thesis by (auto simp: all_bounded_def registry_add_def)
next
  case (Pop_op i)
  with assms show ?thesis
    by (auto simp: all_bounded_def registry_pop_def split_beta Let_def queue_bound_pop split: option.splits)
next
  case (Close_op i)
  with assms show ?thesis
    by (auto simp: all_bounded_def registry_apply_def queue_close split: option.splits)
next
  case (Release_op i)
  with assms show ?thesis by (auto simp: all_bounded_def registry_release_def)
qed

lemma all_bounded_run:
  assumes "registry_inv r" and "all_bounded r" and "queue_of new = []"
  shows "all_bounded (snd (registry_run deliver pop close_sub new r ops))"
  using assms
proof (induction ops arbitrary: r)
  case (Cons op ops)
  have "registry_inv (snd (registry_step deliver pop close_sub new r op))"
    "all_bounded (snd (registry_step deliver pop close_sub new r op))"
    using Cons.prems by (simp_all add: registry_inv_step all_bounded_step)
  then show ?case using Cons.IH Cons.prems(3) by (simp add: split_beta Let_def)
qed simp

lemma subseq_deliver:
  assumes "length (queue_of s) \<le> limit"
  shows "subseq (queue_of (deliver s m)) (queue_of s @ [m])"
proof (cases "closed_of s")
  case True
  then show ?thesis by (simp add: deliver_closed prefix_imp_subseq)
next
  case False
  obtain pre where "queue_of s @ [m] = pre @ last_n limit (queue_of s @ [m])"
    using last_n_suffix by blast
  then show ?thesis
    using False assms by (metis queue_deliver suffix_imp_subseq suffixI)
qed

text \<open>
  Whatever the interleaving of deliveries and pops, what the consumer got, followed by
  what still waits, is the published stream with some messages left out.
\<close>

lemma session_subseq:
  assumes "length (queue_of s) \<le> limit"
    and "session deliver pop close_sub s ops = (got, s')"
  shows "subseq (got @ queue_of s') (queue_of s @ published ops)"
  using assms
proof (induction ops arbitrary: s got)
  case Nil
  then show ?case by simp
next
  case (Cons op ops)
  show ?case
  proof (cases op)
    case (OpPublish m)
    with Cons.prems have "subseq (got @ queue_of s') (queue_of (deliver s m) @ published ops)"
      using Cons.IH [of "deliver s m" got] by (simp add: queue_bound)
    moreover have "subseq (queue_of (deliver s m) @ published ops) ((queue_of s @ [m]) @ published ops)"
      using subseq_deliver [OF Cons.prems(1)] by (intro list_emb_append_mono) simp_all
    ultimately have "subseq (got @ queue_of s') ((queue_of s @ [m]) @ published ops)"
      by (rule subseq_order.order_trans)
    then show ?thesis using OpPublish by simp
  next
    case OpClose
    with Cons.prems show ?thesis using Cons.IH [of "close_sub s" got] by (simp add: queue_close)
  next
    case OpPop
    obtain r s1 rest where p: "pop s = (r, s1)"
      and run: "session deliver pop close_sub s1 ops = (rest, s')"
      and got: "got = (case r of None \<Rightarrow> rest | Some m \<Rightarrow> m # rest)"
      using Cons.prems(2) OpPop by (auto split: prod.splits)
    have "length (queue_of s1) \<le> limit"
      using Cons.prems(1) queue_bound_pop [of s] p by simp
    then have IH: "subseq (rest @ queue_of s') (queue_of s1 @ published ops)"
      using Cons.IH run by blast
    show ?thesis
      using IH got OpPop p pop_empty [of s] pop_value [of s] by (cases "queue_of s") auto
  qed
qed

text \<open>
  The waiting messages are always the most recent ones, without a gap: only the oldest
  are ever dropped, so a slow consumer resumes at the newest contiguous window.
\<close>

lemma session_queue_recent:
  assumes "\<not> closed_of s" and "length (queue_of s) \<le> limit" and "OpClose \<notin> set ops"
    and "session deliver pop close_sub s ops = (got, s')"
  shows "\<exists>k. queue_of s' = last_n k (queue_of s @ published ops)"
  using assms
proof (induction ops arbitrary: s got)
  case Nil
  then show ?case by (auto intro: exI [of _ "length (queue_of s)"] simp: last_n_id)
next
  case (Cons op ops)
  show ?case
  proof (cases op)
    case (OpPublish m)
    with Cons.prems have run: "session deliver pop close_sub (deliver s m) ops = (got, s')" by simp
    obtain k where "queue_of s' = last_n k (queue_of (deliver s m) @ published ops)"
      using Cons.IH [OF _ _ _ run] Cons.prems(1,2,3) by (auto simp: closed_deliver queue_deliver)
    also have "\<dots> = last_n k (last_n (limit + length (published ops)) ((queue_of s @ [m]) @ published ops))"
      unfolding queue_deliver [OF Cons.prems(1,2)] last_n_append [of "limit + length (published ops)"]
      by (simp add: last_n_id)
    also have "\<dots> = last_n (min k (limit + length (published ops))) (queue_of s @ published (op # ops))"
      using OpPublish by simp
    finally show ?thesis by blast
  next
    case OpClose
    with Cons.prems(3) show ?thesis by simp
  next
    case OpPop
    obtain r s1 rest where p: "pop s = (r, s1)"
      and run: "session deliver pop close_sub s1 ops = (rest, s')"
      using Cons.prems(4) OpPop by (auto split: prod.splits)
    have s1: "\<not> closed_of s1" "length (queue_of s1) \<le> limit"
      using Cons.prems(1,2) closed_pop [of s] queue_bound_pop [of s] p by simp_all
    obtain k where k: "queue_of s' = last_n k (queue_of s1 @ published ops)"
      using Cons.IH [OF s1 _ run] Cons.prems(3) by auto
    show ?thesis
    proof (cases "queue_of s")
      case Nil
      with p have "s1 = s" using pop_empty [of s] by simp
      with k OpPop show ?thesis by auto
    next
      case (Cons m ms)
      with p have "queue_of s1 = ms" using pop_value [of s] by simp
      with k have "queue_of s' = last_n (min k (length (ms @ published ops))) (m # ms @ published ops)"
        by (cases "k \<le> length (ms @ published ops)") (auto simp: last_n_def Suc_diff_le)
      with OpPop Cons show ?thesis by auto
    qed
  qed
qed

text \<open>
  A consumer that keeps its backlog within the limit loses nothing at all: the received
  messages and the waiting ones are the published stream.
\<close>

lemma session_lossless:
  assumes "\<not> closed_of s" and "OpClose \<notin> set ops"
    and "length (queue_of s) + length (published ops) \<le> limit"
    and "session deliver pop close_sub s ops = (got, s')"
  shows "got @ queue_of s' = queue_of s @ published ops"
  using assms
proof (induction ops arbitrary: s got)
  case Nil
  then show ?case by simp
next
  case (Cons op ops)
  show ?case
  proof (cases op)
    case (OpPublish m)
    with Cons.prems show ?thesis
      using Cons.IH [of "deliver s m" got] by (simp add: closed_deliver queue_deliver last_n_id)
  next
    case OpClose
    with Cons.prems(2) show ?thesis by simp
  next
    case OpPop
    obtain r s1 rest where p: "pop s = (r, s1)"
      and run: "session deliver pop close_sub s1 ops = (rest, s')"
      and got: "got = (case r of None \<Rightarrow> rest | Some m \<Rightarrow> m # rest)"
      using Cons.prems(4) OpPop by (auto split: prod.splits)
    have closed: "\<not> closed_of s1" using Cons.prems(1) closed_pop [of s] p by simp
    have IH: "length (queue_of s1) + length (published ops) \<le> limit \<Longrightarrow>
        rest @ queue_of s' = queue_of s1 @ published ops"
      using Cons.IH [OF closed _ _ run] Cons.prems(2) by simp
    show ?thesis
      using IH Cons.prems(3) got OpPop p pop_empty [of s] pop_value [of s]
      by (cases "queue_of s") auto
  qed
qed

text \<open>A consumer that polls at least once per message receives everything at once.\<close>

lemma session_polling:
  assumes "\<not> closed_of s" and "queue_of s = []" and "\<forall>ms \<in> set mss. length ms \<le> 1"
  shows "\<exists>s'. session deliver pop close_sub s (concat (map (\<lambda>ms. map OpPublish ms @ [OpPop]) mss)) = (concat mss, s') \<and>
    queue_of s' = [] \<and> \<not> closed_of s'"
  using assms
proof (induction mss arbitrary: s)
  case (Cons ms mss)
  show ?case
  proof (cases ms)
    case Nil
    then show ?thesis using Cons pop_empty [of s] by simp
  next
    case (Cons m rest)
    then have ms: "ms = [m]" using Cons.prems(3) by simp
    have q: "queue_of (deliver s m) = [m]" "\<not> closed_of (deliver s m)"
      using Cons.prems(1,2) limit_pos by (simp_all add: queue_deliver closed_deliver last_n_id)
    obtain s1 where s1: "pop (deliver s m) = (Some m, s1)" "queue_of s1 = []" "\<not> closed_of s1"
      using pop_value [OF q(1)] q(2) by (cases "pop (deliver s m)") auto
    from Cons.IH [OF s1(3,2)] Cons.prems(3) obtain s' where
      "session deliver pop close_sub s1 (concat (map (\<lambda>ms. map OpPublish ms @ [OpPop]) mss)) = (concat mss, s')"
      "queue_of s' = []" "\<not> closed_of s'" by auto
    then show ?thesis using ms s1(1) by simp
  qed
qed simp

end

end
