(* ===== verification/Double.thy ===== *)
theory Double
  imports Complex_Main Prelude "HOL-Library.Log_Nat"
begin

text \<open>
  The C++ \<open>double\<close> of the measurements: IEEE 754 binary64 with rounding to nearest, ties
  to even. A finite non-zero value is carried as the rational number it denotes, so that
  an operation is "compute exactly, then round"; the sign of a zero, the infinities and
  the not-a-number value (one value stands for every payload) are kept apart.
  The arithmetic is given by instances of the syntactic type classes, without laws: the
  program's sums are neither associative nor exact, and no lemma may assume so.
\<close>

section \<open>Rounding\<close>

text \<open>The exponent of a positive rational: \<open>2^e \<le> q < 2^(e+1)\<close>.\<close>

definition exponent_of :: "rat \<Rightarrow> int" where
  "exponent_of q =
     (let (a, b) = quotient_of q; k = bitlen a - bitlen b
      in if q < 2 powi k then k - 1 else k)"

text \<open>Round to the nearest integer, ties to even.\<close>

definition nearest_even :: "rat \<Rightarrow> int" where
  "nearest_even q =
     (let f = \<lfloor>q\<rfloor>; r = q - of_int f
      in if r < 1 / 2 \<or> (r = 1 / 2 \<and> even f) then f else f + 1)"

text \<open>
  Rounding to a format of precision \<open>p\<close> whose smallest exponent (of the last bit) is
  \<open>emin\<close>; binary64 has precision 53 and smallest exponent -1074.
\<close>

definition last_bit :: "nat \<Rightarrow> int \<Rightarrow> rat \<Rightarrow> int" where
  "last_bit p emin q = max (exponent_of \<bar>q\<bar> - (int p - 1)) emin"

definition round_to :: "nat \<Rightarrow> int \<Rightarrow> rat \<Rightarrow> rat" where
  "round_to p emin q =
     (if q = 0 then 0
      else let e = last_bit p emin q in of_int (nearest_even (q / 2 powi e)) * 2 powi e)"

abbreviation round64 :: "rat \<Rightarrow> rat" where
  "round64 \<equiv> round_to 53 (- 1074)"

section \<open>Values and operations\<close>

datatype double = NaN | Inf bool | Zero bool | Fin rat

text \<open>The sign bit (\<open>True\<close> is negative) and the number a finite value denotes.\<close>

fun negative :: "double \<Rightarrow> bool" where
  "negative NaN = False"
| "negative (Inf s) = s"
| "negative (Zero s) = s"
| "negative (Fin q) = (q < 0)"

fun finite_val :: "double \<Rightarrow> rat" where
  "finite_val (Fin q) = q"
| "finite_val _ = 0"

text \<open>Round an exact result; \<open>s\<close> is the sign of an exact zero.\<close>

definition to_double :: "bool \<Rightarrow> rat \<Rightarrow> double" where
  "to_double s q =
     (let r = round64 q
      in if r = 0 then Zero (if q = 0 then s else q < 0)
         else if 2 ^ 1024 \<le> \<bar>r\<bar> then Inf (r < 0)
         else Fin r)"

definition double_of_int :: "int \<Rightarrow> double" where
  "double_of_int i = to_double False (of_int i)"

fun double_neg :: "double \<Rightarrow> double" where
  "double_neg NaN = NaN"
| "double_neg (Inf s) = Inf (\<not> s)"
| "double_neg (Zero s) = Zero (\<not> s)"
| "double_neg (Fin q) = Fin (- q)"

fun double_add :: "double \<Rightarrow> double \<Rightarrow> double" where
  "double_add NaN _ = NaN"
| "double_add _ NaN = NaN"
| "double_add (Inf s) (Inf t) = (if s = t then Inf s else NaN)"
| "double_add (Inf s) _ = Inf s"
| "double_add _ (Inf t) = Inf t"
| "double_add (Zero s) (Zero t) = Zero (s \<and> t)"
| "double_add x y = to_double False (finite_val x + finite_val y)"

fun double_mul :: "double \<Rightarrow> double \<Rightarrow> double" where
  "double_mul NaN _ = NaN"
| "double_mul _ NaN = NaN"
| "double_mul (Inf _) (Zero _) = NaN"
| "double_mul (Zero _) (Inf _) = NaN"
| "double_mul (Inf s) y = Inf (s \<noteq> negative y)"
| "double_mul x (Inf t) = Inf (negative x \<noteq> t)"
| "double_mul x y = to_double (negative x \<noteq> negative y) (finite_val x * finite_val y)"

fun double_div :: "double \<Rightarrow> double \<Rightarrow> double" where
  "double_div NaN _ = NaN"
| "double_div _ NaN = NaN"
| "double_div (Inf _) (Inf _) = NaN"
| "double_div (Zero _) (Zero _) = NaN"
| "double_div (Inf s) y = Inf (s \<noteq> negative y)"
| "double_div x (Inf t) = Zero (negative x \<noteq> t)"
| "double_div x (Zero t) = Inf (negative x \<noteq> t)"
| "double_div x y = to_double (negative x \<noteq> negative y) (finite_val x / finite_val y)"

text \<open>The comparisons \<open><\<close>, \<open><=\<close> and \<open>==\<close>: false as soon as one side is not a number.\<close>

fun double_less :: "double \<Rightarrow> double \<Rightarrow> bool" where
  "double_less NaN _ = False"
| "double_less _ NaN = False"
| "double_less (Inf s) (Inf t) = (s \<and> \<not> t)"
| "double_less (Inf s) _ = s"
| "double_less _ (Inf t) = (\<not> t)"
| "double_less x y = (finite_val x < finite_val y)"

fun double_eq :: "double \<Rightarrow> double \<Rightarrow> bool" where
  "double_eq NaN _ = False"
| "double_eq _ NaN = False"
| "double_eq (Inf s) (Inf t) = (s = t)"
| "double_eq (Inf _) _ = False"
| "double_eq _ (Inf _) = False"
| "double_eq x y = (finite_val x = finite_val y)"

instantiation double :: "{zero, plus, minus, uminus, times, divide, ord}"
begin

definition zero_double :: double where "zero_double = Zero False"
definition plus_double :: "double \<Rightarrow> double \<Rightarrow> double" where "plus_double = double_add"
definition uminus_double :: "double \<Rightarrow> double" where "uminus_double = double_neg"
definition minus_double :: "double \<Rightarrow> double \<Rightarrow> double" where
  "minus_double x y = double_add x (double_neg y)"
definition times_double :: "double \<Rightarrow> double \<Rightarrow> double" where "times_double = double_mul"
definition divide_double :: "double \<Rightarrow> double \<Rightarrow> double" where "divide_double = double_div"
definition less_double :: "double \<Rightarrow> double \<Rightarrow> bool" where "less_double = double_less"
definition less_eq_double :: "double \<Rightarrow> double \<Rightarrow> bool" where
  "less_eq_double x y \<longleftrightarrow> double_less x y \<or> double_eq x y"

instance ..

end

lemmas double_ops = zero_double_def plus_double_def uminus_double_def minus_double_def
  times_double_def divide_double_def less_double_def less_eq_double_def

text \<open>A decimal literal of the source, rounded as the compiler rounds it.\<close>

definition literal :: "rat \<Rightarrow> double" where
  "literal q = to_double False q"

section \<open>Exactness\<close>

lemma power_int_two_pos [simp]: "0 < (2::rat) powi e"
  by (simp add: zero_less_power_int)

lemma bitlen_powi:
  assumes "0 < (a::int)"
  shows "(2::rat) powi (bitlen a - 1) \<le> of_int a" and "of_int a < (2::rat) powi bitlen a"
proof -
  have b: "2 ^ nat (bitlen a - 1) \<le> a \<and> a < 2 ^ nat (bitlen a)"
    using bitlen_bounds [OF assms] .
  have pos: "0 < bitlen a" using assms bitlen_nonneg [of a] bitlen_eq_zero_iff [of a] by linarith
  have "(2::rat) powi (bitlen a - 1) = of_int (2 ^ nat (bitlen a - 1))"
    using pos by (simp add: power_int_def)
  also have "\<dots> \<le> of_int a" using b by (simp only: of_int_le_iff)
  finally show "(2::rat) powi (bitlen a - 1) \<le> of_int a" .
  have "of_int a < (of_int (2 ^ nat (bitlen a)) :: rat)" using b by (simp only: of_int_less_iff)
  also have "\<dots> = (2::rat) powi bitlen a" using pos by (simp add: power_int_def)
  finally show "of_int a < (2::rat) powi bitlen a" .
qed

lemma exponent_of_bounds:
  assumes "0 < q"
  shows "2 powi exponent_of q \<le> q" and "q < 2 powi (exponent_of q + 1)"
proof -
  obtain a b where ab: "quotient_of q = (a, b)" by fastforce
  then have b: "0 < b" and q: "q = of_int a / of_int b"
    by (simp_all add: quotient_of_denom_pos quotient_of_div)
  with assms have a: "0 < a" by (simp add: zero_less_divide_iff)
  let ?k = "bitlen a - bitlen b"
  have "(2::rat) powi (?k - 1) = 2 powi (bitlen a - 1) / 2 powi bitlen b"
    by (simp add: power_int_diff [symmetric] algebra_simps)
  also have "\<dots> \<le> of_int a / of_int b"
    using bitlen_powi [OF a] bitlen_powi [OF b] a b by (intro frac_le) auto
  finally have lo: "2 powi (?k - 1) \<le> q" using q by simp
  have "of_int a / of_int b < 2 powi bitlen a / (2::rat) powi (bitlen b - 1)"
    using bitlen_powi [OF a] bitlen_powi [OF b] a b
    by (intro frac_less) auto
  also have "\<dots> = 2 powi (?k + 1)"
    by (simp add: power_int_diff [symmetric] algebra_simps)
  finally have hi: "q < 2 powi (?k + 1)" using q by simp
  show "2 powi exponent_of q \<le> q" and "q < 2 powi (exponent_of q + 1)"
    using lo hi ab by (auto simp: exponent_of_def Let_def)
qed

lemma exponent_of_less:
  assumes "0 < q" and "q < 2 powi e"
  shows "exponent_of q < e"
proof (rule ccontr)
  assume "\<not> exponent_of q < e"
  then have "(2::rat) powi e \<le> 2 powi exponent_of q"
    by (intro power_int_increasing) simp_all
  with exponent_of_bounds(1) [OF assms(1)] assms(2) show False by simp
qed

lemma nearest_even_int [simp]: "nearest_even (of_int i) = i"
  by (simp add: nearest_even_def)

text \<open>A value whose significand fits the precision is not changed by rounding.\<close>

lemma round_to_exact:
  assumes "\<bar>m\<bar> < 2 ^ p" and "emin \<le> e"
  shows "round_to p emin (of_int m * 2 powi e) = of_int m * 2 powi e"
proof (cases "m = 0")
  case True
  then show ?thesis by (simp add: round_to_def)
next
  case False
  let ?q = "of_int m * (2::rat) powi e"
  have q: "0 < \<bar>?q\<bar>" using False by simp
  have m: "of_int \<bar>m\<bar> < (2::rat) ^ p"
    using assms(1) by (metis of_int_less_numeral_power_cancel_iff of_int_numeral of_int_power)
  have "\<bar>?q\<bar> = of_int \<bar>m\<bar> * (2::rat) powi e" by (simp add: abs_mult less_imp_le)
  also have "\<dots> < 2 ^ p * 2 powi e" using m by (intro mult_strict_right_mono) simp_all
  also have "\<dots> = 2 powi (int p + e)" by (simp add: power_int_add)
  finally have "exponent_of \<bar>?q\<bar> < int p + e" by (rule exponent_of_less [OF q])
  with assms(2) have le: "last_bit p emin ?q \<le> e" by (simp add: last_bit_def)
  let ?l = "last_bit p emin ?q"
  have "?q / 2 powi ?l = of_int m * 2 powi (e - ?l)" by (simp add: power_int_diff)
  also have "\<dots> = of_int (m * 2 ^ nat (e - ?l))" using le by (simp add: power_int_def)
  finally have "nearest_even (?q / 2 powi ?l) = m * 2 ^ nat (e - ?l)"
    by (simp only: nearest_even_int)
  then have "round_to p emin ?q = of_int (m * 2 ^ nat (e - ?l)) * 2 powi ?l"
    using False by (simp add: round_to_def Let_def)
  also have "\<dots> = of_int m * (2 powi (e - ?l) * 2 powi ?l)"
    using le by (simp add: power_int_def)
  also have "\<dots> = ?q" by (simp add: power_int_add [symmetric])
  finally show ?thesis .
qed

text \<open>Rounding moves a value by at most half a unit of its last bit.\<close>

lemma nearest_even_error: "\<bar>of_int (nearest_even q) - q\<bar> \<le> 1 / 2"
proof -
  have "of_int \<lfloor>q\<rfloor> \<le> q \<and> q < of_int (\<lfloor>q\<rfloor> + 1)" by (rule floor_correct)
  then show ?thesis by (auto simp: nearest_even_def Let_def abs_le_iff)
qed

lemma round_to_error:
  assumes "0 < q"
  shows "\<bar>round_to p emin q - q\<bar> \<le> 2 powi last_bit p emin q / 2"
proof -
  let ?l = "last_bit p emin q"
  have "round_to p emin q - q = (of_int (nearest_even (q / 2 powi ?l)) - q / 2 powi ?l) * 2 powi ?l"
    using assms by (simp add: round_to_def Let_def left_diff_distrib)
  then have "\<bar>round_to p emin q - q\<bar> = \<bar>of_int (nearest_even (q / 2 powi ?l)) - q / 2 powi ?l\<bar> * 2 powi ?l"
    by (simp add: abs_mult)
  also have "\<dots> \<le> 1 / 2 * 2 powi ?l" by (rule mult_right_mono [OF nearest_even_error]) simp
  finally show ?thesis by simp
qed

text \<open>For a value in the normal range that is a relative error of \<open>2 ^ - p\<close>.\<close>

lemma round_to_relative_error:
  assumes "2 powi (emin + int p - 1) \<le> q"
  shows "\<bar>round_to p emin q - q\<bar> \<le> q * 2 powi (- int p)"
proof -
  have q: "0 < q" using assms power_int_two_pos [of "emin + int p - 1"] by linarith
  have "\<not> q < 2 powi (emin + int p - 1)" using assms by simp
  moreover have "q < 2 powi (exponent_of q + 1)" by (rule exponent_of_bounds(2) [OF q])
  ultimately have "\<not> exponent_of q + 1 \<le> emin + int p - 1"
    using power_int_increasing [of "exponent_of q + 1" "emin + int p - 1" "2 :: rat"] by fastforce
  then have l: "last_bit p emin q = exponent_of q + (1 - int p)" using q by (simp add: last_bit_def)
  have "(2::rat) powi last_bit p emin q / 2 = 2 powi exponent_of q * 2 powi (- int p)"
  proof -
    have "(2::rat) powi (exponent_of q + (1 + - int p)) = 2 powi exponent_of q * (2 * 2 powi (- int p))"
      by (simp only: power_int_add [OF disjI1] zero_neq_numeral [symmetric] not_False_eq_True power_int_1_right)
    then show ?thesis by (simp add: l)
  qed
  also have "\<dots> \<le> q * 2 powi (- int p)" using exponent_of_bounds(1) [OF q] by (intro mult_right_mono) simp_all
  finally show ?thesis using round_to_error [OF q, of p emin] by simp
qed

lemma round64_int: "\<bar>i\<bar> < 2 ^ 53 \<Longrightarrow> round64 (of_int i) = of_int i"
  using round_to_exact [of i 53 "- 1074" 0] by simp

text \<open>Every 32-bit integer, signed or not, converts exactly.\<close>

lemma double_of_int_exact:
  assumes "\<bar>i\<bar> < 2 ^ 53"
  shows "double_of_int i = (if i = 0 then Zero False else Fin (of_int i))"
proof -
  have "\<bar>of_int i :: rat\<bar> < 2 ^ 53"
    using assms by (metis of_int_abs of_int_less_numeral_power_cancel_iff of_int_numeral of_int_power)
  also have "(2::rat) ^ 53 \<le> 2 ^ 1024" by (intro power_increasing) simp_all
  finally have "\<bar>of_int i :: rat\<bar> < 2 ^ 1024" .
  then show ?thesis
    using round64_int [OF assms] by (simp add: double_of_int_def to_double_def Let_def del: power_numeral)
qed

text \<open>So do small integer literals.\<close>

lemma literal_int: "\<bar>i\<bar> < 2 ^ 53 \<Longrightarrow> literal (of_int i) = (if i = 0 then Zero False else Fin (of_int i))"
  using double_of_int_exact [of i] by (simp add: double_of_int_def literal_def)

lemma literal_simps [simp]: "literal 0 = Zero False" "literal 1 = Fin 1"
  using literal_int [of 0] literal_int [of 1] by simp_all

lemma double_add_commute: "(x::double) + y = y + x"
  by (cases x; cases y) (auto simp: plus_double_def add.commute)

end
