(* ===== verification/Telemetry_Types.thy ===== *)
theory Telemetry_Types
  imports Double
begin

text \<open>
  \<open>libs/core/include/hwpanel/core/telemetry_types.h\<close>: one measurement, and everything
  the collectors produced at one tick. \<open>timestamp_ms\<close> is an \<open>int64_t\<close> that is only moved
  and compared.
\<close>

record metric_sample =
  metric_id :: string
  metric_value :: double
  metric_unit :: string

record telemetry_sample =
  timestamp_ms :: int
  metrics :: "metric_sample list"

abbreviation metric :: "string \<Rightarrow> double \<Rightarrow> string \<Rightarrow> metric_sample" where
  "metric i v u \<equiv> \<lparr>metric_id = i, metric_value = v, metric_unit = u\<rparr>"

end
