(* ===== verification/Telemetry_Hub.thy ===== *)
theory Telemetry_Hub
  imports Ring_Buffer Fanout Telemetry_Types
begin

text \<open>
  \<open>libs/core/src/telemetry_hub.cpp\<close> and its header: the fan-out point of the telemetry
  pipeline. \<open>Publish\<close> stores the sample in the ring buffer and appends it to the queue of
  every live subscriber, dropping the oldest sample of a full queue; \<open>Pop\<close> is modelled at
  the moment its wait returns with the subscriber's mutex held; \<open>History\<close> answers from
  the ring buffer. The pipeline thread is the only publisher of a hub.
\<close>

section \<open>Subscribers\<close>

definition kDefaultHistoryCapacity :: nat where "kDefaultHistoryCapacity = 300"
definition hub_kSubscriberQueueCapacity :: nat where "hub_kSubscriberQueueCapacity = 64"

record hub_subscriber =
  hs_queue :: "telemetry_sample list"
  hs_closed :: bool

definition new_hub_subscriber :: hub_subscriber where
  "new_hub_subscriber = \<lparr>hs_queue = [], hs_closed = False\<rparr>"

text \<open>
  \<open>wait_for\<close> returns the predicate's value when the wait ends: false means the timeout
  expired with the queue still empty; a true predicate on an empty queue means closed.
\<close>

definition hub_Pop :: "hub_subscriber \<Rightarrow> telemetry_sample option \<times> hub_subscriber" where
  "hub_Pop s =
     (if \<not> (hs_closed s \<or> hs_queue s \<noteq> []) then (None, s)
      else case hs_queue s of
             [] \<Rightarrow> (None, s)
           | m # rest \<Rightarrow> (Some m, s\<lparr>hs_queue := rest\<rparr>))"

definition hub_Close :: "hub_subscriber \<Rightarrow> hub_subscriber" where
  "hub_Close s = s\<lparr>hs_closed := True\<rparr>"

definition hub_QueueSize :: "hub_subscriber \<Rightarrow> nat" where
  "hub_QueueSize s = length (hs_queue s)"

text \<open>The body of the delivery loop of \<open>Publish\<close>, for one live subscriber.\<close>

definition hub_deliver :: "hub_subscriber \<Rightarrow> telemetry_sample \<Rightarrow> hub_subscriber" where
  "hub_deliver s m =
     (if hs_closed s then s
      else let q = (if hub_kSubscriberQueueCapacity \<le> length (hs_queue s)
                    then tl (hs_queue s) else hs_queue s)
           in s\<lparr>hs_queue := q @ [m]\<rparr>)"

interpretation hub: fanout hub_deliver hub_Pop hub_Close hs_queue hs_closed hub_kSubscriberQueueCapacity
proof
  fix s :: hub_subscriber and m
  assume "\<not> hs_closed s" and "length (hs_queue s) \<le> hub_kSubscriberQueueCapacity"
  then show "hs_queue (hub_deliver s m) = last_n hub_kSubscriberQueueCapacity (hs_queue s @ [m])"
    by (cases "length (hs_queue s) = hub_kSubscriberQueueCapacity")
      (auto simp: hub_deliver_def Let_def last_n_full last_n_room hub_kSubscriberQueueCapacity_def)
qed (auto simp: hub_deliver_def hub_Pop_def hub_Close_def hub_kSubscriberQueueCapacity_def Let_def)

section \<open>The hub\<close>

record telemetry_hub =
  history :: "telemetry_sample ring_buffer"
  hub_reg :: "hub_subscriber registry"

definition TelemetryHub :: "nat \<Rightarrow> telemetry_hub" where
  "TelemetryHub history_capacity =
     \<lparr>history = RingBuffer history_capacity, hub_reg = registry_empty\<rparr>"

definition hub_Publish :: "telemetry_sample \<Rightarrow> telemetry_hub \<Rightarrow> telemetry_hub" where
  "hub_Publish sample h =
     h\<lparr>history := Push (history h) sample,
       hub_reg := registry_publish hub_deliver sample (hub_reg h)\<rparr>"

definition hub_Subscribe :: "telemetry_hub \<Rightarrow> nat \<times> telemetry_hub" where
  "hub_Subscribe h =
     (let (i, r) = registry_add new_hub_subscriber (hub_reg h) in (i, h\<lparr>hub_reg := r\<rparr>))"

definition hub_History :: "telemetry_hub \<Rightarrow> int \<Rightarrow> telemetry_sample list" where
  "hub_History h seconds =
     (let capped = std_clamp seconds 0 (as_int32 (int (Capacity (history h))))
      in LastN (history h) (as_size capped))"

definition hub_HistorySize :: "telemetry_hub \<Rightarrow> nat" where
  "hub_HistorySize h = Size (history h)"

section \<open>Runs\<close>

text \<open>
  An arbitrary sequence of the operations of the pipeline and of the consumers on one hub.
\<close>

definition hub_step :: "telemetry_hub \<Rightarrow> telemetry_sample reg_op \<Rightarrow>
    (nat \<times> telemetry_sample) list \<times> telemetry_hub" where
  "hub_step h op =
     (case op of
        Publish_op m \<Rightarrow> ([], hub_Publish m h)
      | Subscribe_op \<Rightarrow> ([], snd (hub_Subscribe h))
      | _ \<Rightarrow> (let (out, r) = registry_step hub_deliver hub_Pop hub_Close new_hub_subscriber (hub_reg h) op
              in (out, h\<lparr>hub_reg := r\<rparr>)))"

fun hub_run :: "telemetry_hub \<Rightarrow> telemetry_sample reg_op list \<Rightarrow>
    (nat \<times> telemetry_sample) list \<times> telemetry_hub" where
  "hub_run h [] = ([], h)"
| "hub_run h (op # ops) =
     (let (out, h') = hub_step h op; (outs, h'') = hub_run h' ops in (out @ outs, h''))"

definition hub_inv :: "telemetry_hub \<Rightarrow> bool" where
  "hub_inv h \<longleftrightarrow> rb_inv (history h) \<and> registry_inv (hub_reg h) \<and> hub.all_bounded (hub_reg h)"

abbreviation hub_registry_run where
  "hub_registry_run \<equiv> registry_run hub_deliver hub_Pop hub_Close new_hub_subscriber"

lemma hub_inv_TelemetryHub [simp, inv_rules]: "hub_inv (TelemetryHub c)"
  by (simp add: hub_inv_def TelemetryHub_def hub.all_bounded_def) (simp add: registry_empty_def)

text \<open>The two halves of the hub evolve independently: the registry and the history.\<close>

lemma hub_step_reg:
  "fst (hub_step h op) = fst (registry_step hub_deliver hub_Pop hub_Close new_hub_subscriber (hub_reg h) op)"
  "hub_reg (snd (hub_step h op)) =
     snd (registry_step hub_deliver hub_Pop hub_Close new_hub_subscriber (hub_reg h) op)"
  by (cases op; simp add: hub_step_def hub_Publish_def hub_Subscribe_def split_beta Let_def)+

lemma hub_step_history:
  "history (snd (hub_step h op)) = foldl Push (history h) (ops_published [op])"
  by (cases op) (simp_all add: hub_step_def hub_Publish_def hub_Subscribe_def split_beta Let_def)

lemma hub_run_reg:
  "fst (hub_run h ops) = fst (hub_registry_run (hub_reg h) ops) \<and>
   hub_reg (snd (hub_run h ops)) = snd (hub_registry_run (hub_reg h) ops)"
  by (induction ops arbitrary: h) (simp_all add: split_beta Let_def hub_step_reg)

lemma hub_run_append:
  "hub_run h (a @ b) = (let (out1, h1) = hub_run h a; (out2, h2) = hub_run h1 b in (out1 @ out2, h2))"
  by (induction a arbitrary: h) (simp_all add: split_beta Let_def)

lemma hub_run_history:
  "history (snd (hub_run h ops)) = foldl Push (history h) (ops_published ops)"
proof (induction ops arbitrary: h)
  case (Cons op ops)
  have "ops_published (op # ops) = ops_published [op] @ ops_published ops"
    by (simp flip: ops_published_append)
  then show ?case by (simp add: split_beta Let_def Cons.IH hub_step_history)
qed simp

lemma hub_inv_run: "hub_inv h \<Longrightarrow> hub_inv (snd (hub_run h ops))"
  using hub_run_reg [of h ops]
  by (simp add: hub_inv_def hub_run_history ring.inv_push_all registry_inv_run
      hub.all_bounded_run new_hub_subscriber_def)

section \<open>Properties\<close>

text \<open>
  Whatever publishes, subscriptions, pops, closes and releases happen on a hub of the
  default capacity, \<open>History(seconds)\<close> returns the most recent samples published, in
  order, at most \<open>min(seconds, 300)\<close> of them, and nothing for a negative argument.
\<close>

theorem history_is_recent_published:
  "hub_History (snd (hub_run (TelemetryHub kDefaultHistoryCapacity) ops)) seconds =
     last_n (min (nat seconds) 300) (ops_published ops)"
proof -
  let ?rb = "foldl Push (RingBuffer 300) (ops_published ops)"
  have h: "history (snd (hub_run (TelemetryHub kDefaultHistoryCapacity) ops)) = ?rb"
    by (simp add: hub_run_history TelemetryHub_def kDefaultHistoryCapacity_def)
  have c: "cap ?rb = 300" by (simp add: ring.capacity_push_all)
  have "as_size (std_clamp seconds 0 300) = min (nat seconds) 300"
    by (auto simp: std_clamp_def as_size_id as_size_def)
  then show ?thesis
    by (simp add: hub_History_def h Capacity_def c as_int32_id int32_range_def LastN_eq
        ring.inv_push_all ring.contents_push_all min.commute min.left_commute)
qed

text \<open>
  C8: a consumer that owns its subscriber throughout receives, whatever the other
  consumers do, a subsequence of what was published after it had its state: no duplicate,
  no reordering; and its backlog never exceeds 64 samples.
\<close>

theorem hub_subscriber_stream:
  assumes "hub_inv h" and "heap (hub_reg h) i = Some s" and "Release_op i \<notin> set ops"
    and "hub_run h ops = (out, h')"
  shows "\<exists>s'. heap (hub_reg h') i = Some s' \<and> hub_QueueSize s' \<le> 64 \<and>
    subseq (received i out @ hs_queue s') (hs_queue s @ ops_published ops)"
proof -
  have run: "hub_registry_run (hub_reg h) ops = (out, hub_reg h')"
    using hub_run_reg [of h ops] assms(4) by (simp add: prod_eq_iff)
  obtain s' where s': "heap (hub_reg h') i = Some s'"
    and sess: "session hub_deliver hub_Pop hub_Close s (view_of i ops) = (received i out, s')"
    using registry_run_view [OF _ assms(2,3) run] assms(1) by (auto simp: hub_inv_def)
  have "hub_inv h'" using hub_inv_run [OF assms(1), of ops] assms(4) by simp
  then have "hub_QueueSize s' \<le> 64"
    using hub.all_boundedD [OF _ s'] hub_kSubscriberQueueCapacity_def
    by (simp add: hub_inv_def hub_QueueSize_def)
  moreover have "length (hs_queue s) \<le> hub_kSubscriberQueueCapacity"
    using assms(1) hub.all_boundedD [OF _ assms(2)] by (simp add: hub_inv_def)
  ultimately show ?thesis
    using s' hub.session_subseq [OF _ sess] by auto
qed

text \<open>
  Only the oldest waiting samples are ever lost: while the subscriber stays open, its
  queue is a contiguous window that ends with the latest published sample, and nothing is
  lost at all while backlog and new samples fit the capacity of 64.
\<close>

theorem hub_drops_only_oldest:
  assumes "hub_inv h" and "heap (hub_reg h) i = Some s" and "\<not> hs_closed s"
    and "Release_op i \<notin> set ops" and "Close_op i \<notin> set ops"
    and "hub_run h ops = (out, h')"
  shows "\<exists>s'. heap (hub_reg h') i = Some s' \<and>
    (\<exists>k. hs_queue s' = last_n k (hs_queue s @ ops_published ops)) \<and>
    (length (hs_queue s) + length (ops_published ops) \<le> 64 \<longrightarrow>
      received i out @ hs_queue s' = hs_queue s @ ops_published ops)"
proof -
  have run: "hub_registry_run (hub_reg h) ops = (out, hub_reg h')"
    using hub_run_reg [of h ops] assms(6) by (simp add: prod_eq_iff)
  obtain s' where s': "heap (hub_reg h') i = Some s'"
    and sess: "session hub_deliver hub_Pop hub_Close s (view_of i ops) = (received i out, s')"
    using registry_run_view [OF _ assms(2,4) run] assms(1) by (auto simp: hub_inv_def)
  have "length (hs_queue s) \<le> hub_kSubscriberQueueCapacity"
    using assms(1) hub.all_boundedD [OF _ assms(2)] by (simp add: hub_inv_def)
  then show ?thesis
    using s' hub.session_queue_recent [OF assms(3) _ close_not_in_view [OF assms(5)] sess]
      hub.session_lossless [OF assms(3) close_not_in_view [OF assms(5)] _ sess]
    by (simp add: hub_kSubscriberQueueCapacity_def)
qed

text \<open>A tick in which one consumer subscribes, two samples arrive and one is taken.\<close>

definition demo_ops :: "telemetry_sample reg_op list" where
  "demo_ops =
     [Publish_op \<lparr>timestamp_ms = 1, metrics = []\<rparr>, Pop_op 0,
      Publish_op \<lparr>timestamp_ms = 2, metrics = []\<rparr>]"

definition demo_hub :: telemetry_hub where
  "demo_hub = snd (hub_Subscribe (TelemetryHub 300))"

lemma demo_hub_inv: "hub_inv demo_hub"
  using hub_inv_run [OF hub_inv_TelemetryHub, of 300 "[Subscribe_op]"]
  by (simp add: demo_hub_def hub_step_def split_beta)

lemma demo_hub_sub: "heap (hub_reg demo_hub) 0 = Some new_hub_subscriber"
  by (simp add: demo_hub_def hub_Subscribe_def registry_add_def TelemetryHub_def registry_empty_def)

theorem hub_subscriber_stream_witness:
  "\<exists>s'. heap (hub_reg (snd (hub_run demo_hub demo_ops))) 0 = Some s' \<and> hub_QueueSize s' \<le> 64 \<and>
    subseq (received 0 (fst (hub_run demo_hub demo_ops)) @ hs_queue s')
      [\<lparr>timestamp_ms = 1, metrics = []\<rparr>, \<lparr>timestamp_ms = 2, metrics = []\<rparr>]"
  using hub_subscriber_stream [OF demo_hub_inv demo_hub_sub, of demo_ops]
  by (simp add: demo_ops_def new_hub_subscriber_def prod_eq_iff)

theorem hub_drops_only_oldest_witness:
  "\<exists>s'. heap (hub_reg (snd (hub_run demo_hub demo_ops))) 0 = Some s' \<and>
    received 0 (fst (hub_run demo_hub demo_ops)) @ hs_queue s' =
      [\<lparr>timestamp_ms = 1, metrics = []\<rparr>, \<lparr>timestamp_ms = 2, metrics = []\<rparr>]"
  using hub_drops_only_oldest [OF demo_hub_inv demo_hub_sub, of demo_ops]
  by (auto simp: demo_ops_def new_hub_subscriber_def prod_eq_iff)

end
