(* ===== verification/Event_Bus.thy ===== *)
theory Event_Bus
  imports Fanout
begin

text \<open>
  \<open>libs/core/src/event_bus.cpp\<close> and its header: notifications, with the subscriber
  semantics of \<open>TelemetryHub\<close> and a queue of 32. Several threads publish here (the RPC
  handlers through the profile manager, the directory watcher, the service start), and
  \<open>Publish\<close> does not hold the bus mutex while it delivers, so besides the sequential
  operations the theory models the interleaving of publishers, one mutex section a step.
\<close>

section \<open>Messages and subscribers\<close>

record event_message =
  ev_timestamp_ms :: int
  ev_level :: string
  ev_title :: string
  ev_message :: string

definition bus_kSubscriberQueueCapacity :: nat where "bus_kSubscriberQueueCapacity = 32"

record bus_subscriber =
  bs_queue :: "event_message list"
  bs_closed :: bool

definition new_bus_subscriber :: bus_subscriber where
  "new_bus_subscriber = \<lparr>bs_queue = [], bs_closed = False\<rparr>"

definition bus_Pop :: "bus_subscriber \<Rightarrow> event_message option \<times> bus_subscriber" where
  "bus_Pop s =
     (if \<not> (bs_closed s \<or> bs_queue s \<noteq> []) then (None, s)
      else case bs_queue s of
             [] \<Rightarrow> (None, s)
           | m # rest \<Rightarrow> (Some m, s\<lparr>bs_queue := rest\<rparr>))"

definition bus_Close :: "bus_subscriber \<Rightarrow> bus_subscriber" where
  "bus_Close s = s\<lparr>bs_closed := True\<rparr>"

definition bus_deliver :: "bus_subscriber \<Rightarrow> event_message \<Rightarrow> bus_subscriber" where
  "bus_deliver s m =
     (if bs_closed s then s
      else let q = (if bus_kSubscriberQueueCapacity \<le> length (bs_queue s)
                    then tl (bs_queue s) else bs_queue s)
           in s\<lparr>bs_queue := q @ [m]\<rparr>)"

interpretation bus: fanout bus_deliver bus_Pop bus_Close bs_queue bs_closed bus_kSubscriberQueueCapacity
proof
  fix s :: bus_subscriber and m
  assume "\<not> bs_closed s" and "length (bs_queue s) \<le> bus_kSubscriberQueueCapacity"
  then show "bs_queue (bus_deliver s m) = last_n bus_kSubscriberQueueCapacity (bs_queue s @ [m])"
    by (cases "length (bs_queue s) = bus_kSubscriberQueueCapacity")
      (auto simp: bus_deliver_def Let_def last_n_full last_n_room bus_kSubscriberQueueCapacity_def)
qed (auto simp: bus_deliver_def bus_Pop_def bus_Close_def bus_kSubscriberQueueCapacity_def Let_def)

section \<open>The bus, one call at a time\<close>

type_synonym event_bus = "bus_subscriber registry"

definition bus_Publish :: "event_message \<Rightarrow> event_bus \<Rightarrow> event_bus" where
  "bus_Publish event b = registry_publish bus_deliver event b"

definition bus_Subscribe :: "event_bus \<Rightarrow> nat \<times> event_bus" where
  "bus_Subscribe b = registry_add new_bus_subscriber b"

text \<open>\<open>now\<close> is what \<open>system_clock::now()\<close> returned, in milliseconds.\<close>

definition PublishNow :: "int \<Rightarrow> string \<Rightarrow> string \<Rightarrow> string \<Rightarrow> event_bus \<Rightarrow> event_bus" where
  "PublishNow now level title message b =
     bus_Publish \<lparr>ev_timestamp_ms = now, ev_level = level, ev_title = title, ev_message = message\<rparr> b"

definition bus_inv :: "event_bus \<Rightarrow> bool" where
  "bus_inv b \<longleftrightarrow> registry_inv b \<and> bus.all_bounded b"

abbreviation bus_run where
  "bus_run \<equiv> registry_run bus_deliver bus_Pop bus_Close new_bus_subscriber"

lemma bus_inv_empty [simp, inv_rules]: "bus_inv registry_empty"
  by (simp add: bus_inv_def bus.all_bounded_def) (simp add: registry_empty_def)

lemma bus_inv_run: "bus_inv b \<Longrightarrow> bus_inv (snd (bus_run b ops))"
  by (simp add: bus_inv_def registry_inv_run bus.all_bounded_run new_bus_subscriber_def)

lemma bus_inv_Publish [inv_rules]: "bus_inv b \<Longrightarrow> bus_inv (bus_Publish m b)"
  using bus_inv_run [of b "[Publish_op m]"] by (simp add: bus_Publish_def)

lemma bus_inv_PublishNow [inv_rules]: "bus_inv b \<Longrightarrow> bus_inv (PublishNow now l t m b)"
  by (simp add: PublishNow_def bus_inv_Publish)

lemma heap_bus_Publish:
  "bus_inv b \<Longrightarrow> heap (bus_Publish m b) i = map_option (\<lambda>s. bus_deliver s m) (heap b i)"
  by (simp add: bus_Publish_def bus_inv_def heap_registry_publish)

section \<open>Concurrent publishers\<close>

text \<open>
  A publisher between its two loops holds the list of subscribers it locked and still has
  to serve, and its event.
\<close>

record bus_system =
  sys_bus :: event_bus
  inflight :: "nat \<Rightarrow> (nat list \<times> event_message) option"

text \<open>
  \<open>begin_publish\<close> is the section under the bus mutex, \<open>serve\<close> the section under one
  subscriber's mutex (an object whose owner has gone is only kept alive by the publisher,
  and nobody sees what is put there), \<open>end_publish\<close> the return. The consumers' calls are
  those of \<open>registry_step\<close>; a whole \<open>Publish\<close> is not one step here.
\<close>

inductive bus_sys_step :: "bus_system \<Rightarrow> bus_system \<Rightarrow> bool" where
  begin_publish: "inflight y p = None \<Longrightarrow>
     bus_sys_step y (y\<lparr>sys_bus := (sys_bus y)\<lparr>subscribers := live_ids (heap (sys_bus y)) (subscribers (sys_bus y))\<rparr>,
                      inflight := (inflight y)(p \<mapsto>
                        (live_ids (heap (sys_bus y)) (subscribers (sys_bus y)), m))\<rparr>)"
| serve: "inflight y p = Some (i # ids, m) \<Longrightarrow>
     bus_sys_step y (y\<lparr>sys_bus := registry_apply (\<lambda>s. bus_deliver s m) i (sys_bus y),
                      inflight := (inflight y)(p \<mapsto> (ids, m))\<rparr>)"
| end_publish: "inflight y p = Some ([], m) \<Longrightarrow>
     bus_sys_step y (y\<lparr>inflight := (inflight y)(p := None)\<rparr>)"
| consumer: "(\<forall>m. op \<noteq> Publish_op m) \<Longrightarrow>
     bus_sys_step y (y\<lparr>sys_bus :=
       snd (registry_step bus_deliver bus_Pop bus_Close new_bus_subscriber (sys_bus y) op)\<rparr>)"

inductive bus_reachable :: "bus_system \<Rightarrow> bool" where
  start: "bus_reachable \<lparr>sys_bus = registry_empty, inflight = (\<lambda>_. None)\<rparr>"
| step: "bus_reachable y \<Longrightarrow> bus_sys_step y z \<Longrightarrow> bus_reachable z"

text \<open>Each publisher still serves only identities that were handed out, each once.\<close>

definition bus_sys_inv :: "bus_system \<Rightarrow> bool" where
  "bus_sys_inv y \<longleftrightarrow> bus_inv (sys_bus y) \<and>
     (\<forall>p ids m. inflight y p = Some (ids, m) \<longrightarrow>
        distinct ids \<and> (\<forall>i \<in> set ids. i < next_id (sys_bus y)))"

lemma next_id_registry_step: "next_id r \<le> next_id (snd (registry_step d p c n r op))"
  by (cases op) (auto simp: registry_publish_def registry_add_def registry_pop_def registry_apply_def
      registry_release_def Let_def split_beta split: option.splits)

lemma bus_inv_serve: "bus_inv b \<Longrightarrow> bus_inv (registry_apply (\<lambda>s. bus_deliver s m) i b)"
proof -
  assume b: "bus_inv b"
  then have "bus.all_bounded (registry_apply (\<lambda>s. bus_deliver s m) i b)"
    by (auto simp: bus_inv_def bus.all_bounded_def registry_apply_def bus.queue_bound
        split: option.splits)
  with b show ?thesis by (simp add: bus_inv_def registry_inv_apply)
qed

lemma bus_inv_consumer:
  "bus_inv b \<Longrightarrow> bus_inv (snd (registry_step bus_deliver bus_Pop bus_Close new_bus_subscriber b op))"
  by (simp add: bus_inv_def registry_inv_step bus.all_bounded_step new_bus_subscriber_def)

lemma all_bounded_prune [simp]: "bus.all_bounded (b\<lparr>subscribers := ids\<rparr>) = bus.all_bounded b"
  by (simp add: bus.all_bounded_def)

lemma bus_inv_prune:
  "bus_inv b \<Longrightarrow> bus_inv (b\<lparr>subscribers := live_ids (heap b) (subscribers b)\<rparr>)"
  by (auto simp: bus_inv_def registry_inv_def distinct_live_ids set_live_ids)

lemma bus_sys_inv_step:
  assumes "bus_sys_step y z" and "bus_sys_inv y"
  shows "bus_sys_inv z"
  using assms
proof (induction rule: bus_sys_step.induct)
  case (begin_publish y p m)
  then show ?case
    by (auto simp: bus_sys_inv_def bus_inv_prune distinct_live_ids set_live_ids bus_inv_def registry_inv_def)
next
  case (serve y p i ids m)
  then have "next_id (registry_apply (\<lambda>s. bus_deliver s m) i (sys_bus y)) = next_id (sys_bus y)"
    by (simp add: registry_apply_def split: option.splits)
  moreover have "distinct (i # ids) \<and> (\<forall>j \<in> set (i # ids). j < next_id (sys_bus y))"
    using serve by (simp only: bus_sys_inv_def) blast
  ultimately show ?case using serve by (auto simp: bus_sys_inv_def bus_inv_serve)
next
  case (end_publish y p m)
  then show ?case by (auto simp: bus_sys_inv_def)
next
  case (consumer op y)
  then show ?case
    using next_id_registry_step [of "sys_bus y" bus_deliver bus_Pop bus_Close new_bus_subscriber op]
    by (fastforce simp: bus_sys_inv_def bus_inv_consumer)
qed

lemma bus_reachable_inv: "bus_reachable y \<Longrightarrow> bus_sys_inv y"
proof (induction rule: bus_reachable.induct)
  case start
  show ?case by (simp add: bus_sys_inv_def)
next
  case (step y z)
  then show ?case by (blast intro: bus_sys_inv_step)
qed

text \<open>What one \<open>PublishNow\<close> does to each subscriber and to the list of weak pointers.\<close>

lemma PublishNow_effect:
  assumes "bus_inv b"
  shows "heap (PublishNow now level title message b) i =
      (case heap b i of
         None \<Rightarrow> None
       | Some s \<Rightarrow> Some (if bs_closed s then s
           else s\<lparr>bs_queue := last_n 32 (bs_queue s @
             [\<lparr>ev_timestamp_ms = now, ev_level = level, ev_title = title, ev_message = message\<rparr>])\<rparr>)) \<and>
    subscribers (PublishNow now level title message b) =
      filter (\<lambda>j. heap b j \<noteq> None) (subscribers b)"
proof -
  have "bs_queue (bus_deliver s m) = last_n 32 (bs_queue s @ [m])"
    if "heap b i = Some s" and "\<not> bs_closed s" for s m
    using that assms bus.queue_deliver [of s m] bus.all_boundedD [of b i s] bus_kSubscriberQueueCapacity_def
    by (simp add: bus_inv_def)
  moreover have "bus_deliver s m = s\<lparr>bs_queue := bs_queue (bus_deliver s m)\<rparr>" for s m
    by (simp add: bus_deliver_def Let_def)
  ultimately show ?thesis
    using heap_bus_Publish [OF assms]
    by (auto simp: PublishNow_def bus_Publish_def subscribers_registry_publish
        bus.deliver_closed split: option.splits) metis+
qed

section \<open>Properties\<close>

text \<open>
  With any number of threads publishing, subscribing, popping, closing and
  releasing in any interleaving, no event queue ever holds more than 32 messages and no
  publisher serves a subscriber twice for one event.
\<close>

theorem bus_queues_bounded_concurrently:
  assumes "bus_reachable y"
  shows "(\<forall>i s. heap (sys_bus y) i = Some s \<longrightarrow> length (bs_queue s) \<le> 32) \<and>
    (\<forall>p ids m. inflight y p = Some (ids, m) \<longrightarrow> distinct ids)"
proof -
  have inv: "bus_sys_inv y" by (rule bus_reachable_inv [OF assms])
  then have "bus.all_bounded (sys_bus y)" by (simp add: bus_sys_inv_def bus_inv_def)
  then have "heap (sys_bus y) i = Some s \<Longrightarrow> length (bs_queue s) \<le> 32" for i s
    using bus.all_boundedD unfolding bus_kSubscriberQueueCapacity_def by blast
  moreover have "inflight y p = Some (ids, m) \<Longrightarrow> distinct ids" for p ids m
    using inv by (auto simp: bus_sys_inv_def)
  ultimately show ?thesis by blast
qed

theorem bus_queues_bounded_concurrently_witness:
  "\<exists>s. heap (snd (bus_Subscribe registry_empty)) 0 = Some s \<and> length (bs_queue s) \<le> 32"
proof -
  let ?z = "\<lparr>sys_bus = snd (bus_Subscribe registry_empty), inflight = (\<lambda>_. None)\<rparr> :: bus_system"
  have "bus_sys_step \<lparr>sys_bus = registry_empty, inflight = (\<lambda>_. None)\<rparr> ?z"
    using bus_sys_step.consumer [of Subscribe_op "\<lparr>sys_bus = registry_empty, inflight = (\<lambda>_. None)\<rparr>"]
    by (simp add: bus_Subscribe_def)
  then have "bus_reachable ?z" by (rule bus_reachable.step [OF bus_reachable.start])
  from bus_queues_bounded_concurrently [OF this]
  show ?thesis by (simp add: bus_Subscribe_def registry_add_def registry_empty_def)
qed

text \<open>
  One whole \<open>PublishNow\<close> on a bus that satisfies its invariant appends the event,
  stamped with the clock, to the queue of every open live subscriber, dropping its oldest
  event only when 32 wait, leaves closed subscribers as they are, and removes exactly the
  expired weak pointers.
\<close>

theorem publish_now_reaches_every_open_subscriber:
  assumes "bus_inv b"
  shows "heap (PublishNow now level title message b) i =
      (case heap b i of
         None \<Rightarrow> None
       | Some s \<Rightarrow> Some (if bs_closed s then s
           else s\<lparr>bs_queue := last_n 32 (bs_queue s @
             [\<lparr>ev_timestamp_ms = now, ev_level = level, ev_title = title, ev_message = message\<rparr>])\<rparr>)) \<and>
    subscribers (PublishNow now level title message b) =
      filter (\<lambda>j. heap b j \<noteq> None) (subscribers b)"
  by (rule PublishNow_effect [OF assms])

theorem publish_now_reaches_every_open_subscriber_witness:
  "heap (PublishNow 5 ''info'' ''t'' ''m'' (snd (bus_Subscribe registry_empty))) 0 =
     Some \<lparr>bs_queue = [\<lparr>ev_timestamp_ms = 5, ev_level = ''info'', ev_title = ''t'', ev_message = ''m''\<rparr>],
           bs_closed = False\<rparr>"
proof -
  have inv: "bus_inv (snd (bus_Subscribe registry_empty))"
    using bus_inv_run [OF bus_inv_empty, of "[Subscribe_op]"] by (simp add: bus_Subscribe_def)
  have "heap (snd (bus_Subscribe registry_empty)) 0 = Some new_bus_subscriber"
    by (simp add: bus_Subscribe_def registry_add_def registry_empty_def)
  then show ?thesis
    using publish_now_reaches_every_open_subscriber [OF inv, of 5 "''info''" "''t''" "''m''" 0]
    by (simp add: new_bus_subscriber_def last_n_id)
qed

end
