(* ===== verification/File_System.thy ===== *)
theory File_System
  imports Prelude
begin

text \<open>
  The disk as a profile store observes it: regular files in enumeration order, under their
  names relative to the store's directory, with their bytes. The operating system behind it is a set of
  parameters of the state: \<open>canon\<close> says which names denote the same file (NTFS ignores
  case), \<open>can_open\<close> and \<open>can_rename\<close> which calls succeed, \<open>stored\<close> what a write leaves in
  the file (the bytes written unless, say, the disk is full: the stream state is never
  checked by the program). \<open>can_list\<close> is whether the directory can be opened for enumeration;
  \<open>enum_fault\<close> is the number of regular files after which reading its next entry or asking
  for that entry's type fails, if it does; \<open>narrow\<close> is whether the path of a file can be
  converted to a narrow string.
\<close>

record 'b file_system =
  entries :: "(string \<times> 'b) list"
  canon :: "string \<Rightarrow> string"
  can_open :: "string \<Rightarrow> bool"
  can_rename :: "string \<Rightarrow> bool"
  stored :: "'b \<Rightarrow> 'b"
  can_list :: bool
  enum_fault :: "nat option"
  narrow :: "string \<Rightarrow> bool"

text \<open>
  A name with a separator or a colon, relative or absolute, denotes a file of another
  directory (or a stream of a file). Enumerating the directory shows the other ones.
\<close>

definition in_directory :: "string \<Rightarrow> bool" where
  "in_directory name \<longleftrightarrow> list_all (\<lambda>c. c \<noteq> CHR ''/'' \<and> c \<noteq> CHR 0x5C \<and> c \<noteq> CHR '':'') name"

definition dir_files :: "'b file_system \<Rightarrow> string list" where
  "dir_files fs = filter in_directory (map fst (entries fs))"

lemma in_directory_append [simp]: "in_directory (a @ b) \<longleftrightarrow> in_directory a \<and> in_directory b"
  by (simp add: in_directory_def)

text \<open>\<open>std::ifstream\<close> on a name: the bytes, or nothing when the file cannot be opened.\<close>

definition lookup :: "'b file_system \<Rightarrow> string \<Rightarrow> 'b option" where
  "lookup fs name = map_of (map (\<lambda>(n, b). (canon fs n, b)) (entries fs)) (canon fs name)"

definition read_file :: "'b file_system \<Rightarrow> string \<Rightarrow> 'b option" where
  "read_file fs name = (if can_open fs name then lookup fs name else None)"

text \<open>Truncate or create, then write.\<close>

fun put_entry :: "(string \<Rightarrow> string) \<Rightarrow> string \<Rightarrow> 'b \<Rightarrow> (string \<times> 'b) list \<Rightarrow> (string \<times> 'b) list" where
  "put_entry cn name b [] = [(name, b)]"
| "put_entry cn name b ((n, b') # es) =
     (if cn n = cn name then (n, b) # es else (n, b') # put_entry cn name b es)"

definition del_entry :: "(string \<Rightarrow> string) \<Rightarrow> string \<Rightarrow> (string \<times> 'b) list \<Rightarrow> (string \<times> 'b) list" where
  "del_entry cn name es = filter (\<lambda>(n, _). cn n \<noteq> cn name) es"

definition write_file :: "'b file_system \<Rightarrow> string \<Rightarrow> 'b \<Rightarrow> 'b file_system" where
  "write_file fs name b = fs\<lparr>entries := put_entry (canon fs) name (stored fs b) (entries fs)\<rparr>"

text \<open>
  \<open>std::filesystem::rename\<close> onto a name: replaces the file of that name. Renaming a file
  onto itself changes nothing; a missing source is an error.
\<close>

definition rename_file :: "'b file_system \<Rightarrow> string \<Rightarrow> string \<Rightarrow> bool \<times> 'b file_system" where
  "rename_file fs from to_name =
     (case lookup fs from of
        None \<Rightarrow> (False, fs)
      | Some b \<Rightarrow>
          if \<not> can_rename fs to_name then (False, fs)
          else if canon fs from = canon fs to_name then (True, fs)
          else (True, fs\<lparr>entries := put_entry (canon fs) to_name b
                           (del_entry (canon fs) from (entries fs))\<rparr>))"

text \<open>\<open>std::filesystem::remove\<close>: whether a file was there and could be removed.\<close>

definition remove_file :: "'b file_system \<Rightarrow> string \<Rightarrow> bool \<times> 'b file_system" where
  "remove_file fs name =
     (if lookup fs name = None \<or> \<not> can_rename fs name then (False, fs)
      else (True, fs\<lparr>entries := del_entry (canon fs) name (entries fs)\<rparr>))"

text \<open>Each file appears once in the enumeration.\<close>

definition fs_ok :: "'b file_system \<Rightarrow> bool" where
  "fs_ok fs \<longleftrightarrow> distinct (map (\<lambda>(n, _). canon fs n) (entries fs))"

lemma map_of_put_entry:
  "map_of (map (\<lambda>(n, b). (cn n, b)) (put_entry cn name b es)) =
   (map_of (map (\<lambda>(n, b). (cn n, b)) es))(cn name \<mapsto> b)"
  by (induction cn name b es rule: put_entry.induct) (auto simp: fun_eq_iff)

lemma map_of_del_entry:
  "map_of (map (\<lambda>(n, b). (cn n, b)) (del_entry cn name es)) =
   (map_of (map (\<lambda>(n, b). (cn n, b)) es))(cn name := None)"
  by (induction es) (auto simp: del_entry_def fun_eq_iff)

lemma lookup_write: "lookup (write_file fs name b) n =
    (if canon fs n = canon fs name then Some (stored fs b) else lookup fs n)"
  by (simp add: lookup_def write_file_def map_of_put_entry)

lemma write_file_params [simp]:
  "canon (write_file fs n b) = canon fs" "can_open (write_file fs n b) = can_open fs"
  "can_rename (write_file fs n b) = can_rename fs" "stored (write_file fs n b) = stored fs"
  "can_list (write_file fs n b) = can_list fs" "enum_fault (write_file fs n b) = enum_fault fs"
  "narrow (write_file fs n b) = narrow fs"
  by (simp_all add: write_file_def)

lemma rename_file_params [simp]:
  "canon (snd (rename_file fs a b)) = canon fs" "can_open (snd (rename_file fs a b)) = can_open fs"
  "can_rename (snd (rename_file fs a b)) = can_rename fs" "stored (snd (rename_file fs a b)) = stored fs"
  "can_list (snd (rename_file fs a b)) = can_list fs" "enum_fault (snd (rename_file fs a b)) = enum_fault fs"
  "narrow (snd (rename_file fs a b)) = narrow fs"
  by (simp_all add: rename_file_def split: option.splits)

lemma lookup_rename:
  assumes "lookup fs from = Some b" and "can_rename fs to_name" and "canon fs from \<noteq> canon fs to_name"
  shows "fst (rename_file fs from to_name)"
    and "lookup (snd (rename_file fs from to_name)) n =
      (if canon fs n = canon fs to_name then Some b
       else if canon fs n = canon fs from then None else lookup fs n)"
  using assms by (simp_all add: rename_file_def) (simp add: lookup_def map_of_put_entry map_of_del_entry)

lemma keys_put_entry:
  "set (map (\<lambda>(n, _). cn n) (put_entry cn name b es)) = insert (cn name) (set (map (\<lambda>(n, _). cn n) es))"
  by (induction cn name b es rule: put_entry.induct) auto

lemma distinct_put_entry:
  "distinct (map (\<lambda>(n, _). cn n) es) \<Longrightarrow> distinct (map (\<lambda>(n, _). cn n) (put_entry cn name b es))"
proof (induction cn name b es rule: put_entry.induct)
  case (2 cn name b n b' es)
  then show ?case using keys_put_entry [of cn name b es] by auto
qed simp

lemma distinct_del_entry:
  "distinct (map (\<lambda>(n, _). cn n) es) \<Longrightarrow> distinct (map (\<lambda>(n, _). cn n) (del_entry cn name es))"
  by (simp add: del_entry_def distinct_map_filter)

lemma fs_ok_write [inv_rules]: "fs_ok fs \<Longrightarrow> fs_ok (write_file fs n b)"
  by (simp add: fs_ok_def write_file_def distinct_put_entry)

lemma fs_ok_rename [inv_rules]: "fs_ok fs \<Longrightarrow> fs_ok (snd (rename_file fs a b))"
  by (simp add: fs_ok_def rename_file_def distinct_put_entry distinct_del_entry split: option.splits)

lemma lookup_entry:
  assumes "fs_ok fs" and "(n, b) \<in> set (entries fs)"
  shows "lookup fs n = Some b"
proof -
  have "distinct (map fst (map (\<lambda>(n, b). (canon fs n, b)) (entries fs)))"
    using assms(1) by (simp add: fs_ok_def comp_def split_def)
  moreover have "(canon fs n, b) \<in> set (map (\<lambda>(n, b). (canon fs n, b)) (entries fs))"
    using assms(2) by force
  ultimately show ?thesis unfolding lookup_def by (rule map_of_is_SomeI)
qed

text \<open>
  A disk on which every call succeeds, a write leaves the bytes written, and files with
  the extensions \<open>.json.tmp\<close> and \<open>.json\<close> are different files.
\<close>

definition fs_healthy :: "'b file_system \<Rightarrow> bool" where
  "fs_healthy fs \<longleftrightarrow> (\<forall>n. can_open fs n) \<and> (\<forall>n. can_rename fs n) \<and> (\<forall>b. stored fs b = b) \<and>
     (\<forall>i j. canon fs (i @ ''.json.tmp'') \<noteq> canon fs (j @ ''.json'')) \<and>
     can_list fs \<and> enum_fault fs = None \<and> (\<forall>n. narrow fs n)"

lemma fs_healthy_write [simp]: "fs_healthy (write_file fs n b) = fs_healthy fs"
  by (simp add: fs_healthy_def)

lemma fs_healthy_rename [simp]: "fs_healthy (snd (rename_file fs a b)) = fs_healthy fs"
  by (simp add: fs_healthy_def)

text \<open>The write-then-rename idiom of the store, on such a disk.\<close>

lemma replace_file:
  fixes fs :: "'b file_system" and i n :: string and b :: 'b
  assumes "fs_healthy fs"
  defines "r \<equiv> rename_file (write_file fs (i @ ''.json.tmp'') b) (i @ ''.json.tmp'') (i @ ''.json'')"
  shows "fst r" and "fs_healthy (snd r)"
    and "lookup (snd r) n =
      (if canon fs n = canon fs (i @ ''.json'') then Some b
       else if canon fs n = canon fs (i @ ''.json.tmp'') then None else lookup fs n)"
proof -
  let ?w = "write_file fs (i @ ''.json.tmp'') b"
  have l: "lookup ?w (i @ ''.json.tmp'') = Some b"
    using assms by (simp add: lookup_write fs_healthy_def)
  have c: "can_rename ?w (i @ ''.json'')" "canon ?w (i @ ''.json.tmp'') \<noteq> canon ?w (i @ ''.json'')"
    using assms by (simp_all add: fs_healthy_def)
  show "fst r" "lookup (snd r) n =
      (if canon fs n = canon fs (i @ ''.json'') then Some b
       else if canon fs n = canon fs (i @ ''.json.tmp'') then None else lookup fs n)"
    using lookup_rename [OF l c] by (simp_all add: r_def lookup_write)
  show "fs_healthy (snd r)" using assms(1) by (simp add: r_def)
qed

lemma put_entry_fresh:
  "(\<forall>(n, _) \<in> set es. cn n \<noteq> cn name) \<Longrightarrow> put_entry cn name b es = es @ [(name, b)]"
  by (induction cn name b es rule: put_entry.induct) auto

lemma lookup_None: "lookup fs name = None \<longleftrightarrow> (\<forall>(n, _) \<in> set (entries fs). canon fs n \<noteq> canon fs name)"
  by (force simp: lookup_def map_of_eq_None_iff image_iff)

text \<open>Replacing a file that was not there appends one entry to the enumeration.\<close>

lemma entries_replace_fresh:
  assumes "fs_healthy fs" and "lookup fs (i @ ''.json.tmp'') = None" and "lookup fs (i @ ''.json'') = None"
  shows "entries (snd (rename_file (write_file fs (i @ ''.json.tmp'') b) (i @ ''.json.tmp'') (i @ ''.json''))) =
    entries fs @ [(i @ ''.json'', b)]"
proof -
  let ?w = "write_file fs (i @ ''.json.tmp'') b"
  have w: "entries ?w = entries fs @ [(i @ ''.json.tmp'', b)]"
    using assms by (simp add: write_file_def fs_healthy_def put_entry_fresh lookup_None)
  have l: "lookup ?w (i @ ''.json.tmp'') = Some b"
    using assms by (simp add: lookup_write fs_healthy_def)
  have d: "del_entry (canon fs) (i @ ''.json.tmp'') (entries ?w) = entries fs"
    using assms(2) by (auto simp: w del_entry_def lookup_None intro!: filter_True)
  have "put_entry (canon fs) (i @ ''.json'') b (entries fs) = entries fs @ [(i @ ''.json'', b)]"
    using assms(3) by (intro put_entry_fresh) (simp add: lookup_None)
  then show ?thesis
    using assms(1) l d by (simp add: rename_file_def fs_healthy_def)
qed

text \<open>A disk with exact names and no failures, for concrete runs.\<close>

definition plain_disk :: "(string \<times> 'b) list \<Rightarrow> 'b file_system" where
  "plain_disk es = \<lparr>entries = es, canon = (\<lambda>n. n), can_open = (\<lambda>_. True), can_rename = (\<lambda>_. True),
                   stored = (\<lambda>b. b), can_list = True, enum_fault = None, narrow = (\<lambda>_. True)\<rparr>"

lemma plain_disk_healthy [simp]: "fs_healthy (plain_disk es)"
proof -
  have "i @ ''.json.tmp'' \<noteq> j @ ''.json''" for i j :: string
  proof
    assume "i @ ''.json.tmp'' = j @ ''.json''"
    then have "last (i @ ''.json.tmp'') = last (j @ ''.json'')" by simp
    then show False by simp
  qed
  then show ?thesis by (simp add: fs_healthy_def plain_disk_def)
qed

end
