(* ===== verification/Std_Map.thy ===== *)
theory Std_Map
  imports Prelude
begin

text \<open>
  \<open>std::map<std::string, T>\<close>: an association list in the order iteration visits it,
  ascending by key (bytes compared as unsigned), each key once.
\<close>

fun smap_put :: "string \<Rightarrow> 'v \<Rightarrow> (string \<times> 'v) list \<Rightarrow> (string \<times> 'v) list" where
  "smap_put k v [] = [(k, v)]"
| "smap_put k v ((k', v') # m) =
     (if k < k' then (k, v) # (k', v') # m
      else if k = k' then (k, v) # m
      else (k', v') # smap_put k v m)"

definition smap_ok :: "(string \<times> 'v) list \<Rightarrow> bool" where
  "smap_ok m \<longleftrightarrow> sorted_wrt (<) (map fst m)"

lemma smap_ok_Nil [simp]: "smap_ok []"
  by (simp add: smap_ok_def)

lemma smap_ok_Cons [simp]:
  "smap_ok (p # m) \<longleftrightarrow> (\<forall>k \<in> fst ` set m. fst p < k) \<and> smap_ok m"
  by (auto simp: smap_ok_def)

lemma keys_smap_put [simp]: "fst ` set (smap_put k v m) = insert k (fst ` set m)"
  by (induction k v m rule: smap_put.induct) auto

lemma smap_ok_put [simp]: "smap_ok m \<Longrightarrow> smap_ok (smap_put k v m)"
  by (induction k v m rule: smap_put.induct) (auto simp: not_less_iff_gr_or_eq)

lemma map_of_smap_put: "smap_ok m \<Longrightarrow> map_of (smap_put k v m) = (map_of m)(k \<mapsto> v)"
  by (induction k v m rule: smap_put.induct) (auto simp: fun_eq_iff)

lemma smap_ok_distinct: "smap_ok m \<Longrightarrow> distinct (map fst m)"
  by (auto simp: smap_ok_def dest: strict_sorted_imp_sorted intro: strict_sorted_equal)
    (simp add: strict_sorted_iff)

text \<open>Putting a key beyond all others appends it; refilling a map in order copies it.\<close>

lemma smap_put_last: "(\<forall>k' \<in> fst ` set m. k' < k) \<Longrightarrow> smap_put k v m = m @ [(k, v)]"
  by (induction m) (auto dest: less_asym)

lemma foldl_smap_put_append:
  assumes "smap_ok (m @ items)"
  shows "foldl (\<lambda>m (k, v). smap_put k v m) m items = m @ items"
  using assms
proof (induction items arbitrary: m)
  case Nil
  then show ?case by simp
next
  case (Cons p items)
  have "\<forall>k' \<in> fst ` set m. k' < fst p"
    using Cons.prems by (auto simp: smap_ok_def sorted_wrt_append)
  then have "smap_put (fst p) (snd p) m = m @ [p]" by (simp add: smap_put_last)
  with Cons show ?case by (simp add: split_beta)
qed

lemma foldl_smap_put_id: "smap_ok items \<Longrightarrow> foldl (\<lambda>m (k, v). smap_put k v m) [] items = items"
  by (simp add: foldl_smap_put_append)

end
