(* ===== verification/Json.thy ===== *)
theory Json
  imports Double Std_Map
begin

text \<open>
  The JSON documents the profile store reads and writes, and the part of the interface of
  \<open>nlohmann::json\<close> (a package outside the repository) the store relies on. Parsing and
  dumping are parameters; the accessors \<open>contains\<close>, \<open>is_string\<close> and \<open>value\<close> are written
  out after their documentation, because which of them throws decides what the store does.
\<close>

datatype json =
    JNull
  | JBool bool
  | JNumber double
  | JString string
  | JArray "json list"
  | JObject "(string \<times> json) list"

text \<open>
  The exceptions that may leave a store operation: the library's \<open>type_error\<close> for a value of
  another type and for a string that is not UTF-8, and the file system's for a directory
  that cannot be enumerated to its end and for a path that has no narrow form.
\<close>

datatype json_error = TypeError | InvalidUtf8 | EnumerationFailed | PathNotNarrow

record 'b json_library =
  dump :: "json \<Rightarrow> 'b option"   \<comment> \<open>\<open>None\<close>: \<open>type_error\<close> 316 is thrown\<close>
  parse :: "'b \<Rightarrow> json option"  \<comment> \<open>\<open>None\<close>: \<open>parse_error\<close> is thrown\<close>

section \<open>UTF-8\<close>

text \<open>
  A string of the program is a sequence of bytes; it is UTF-8 if it is well-formed after
  RFC 3629. The first byte of a character says which ranges the bytes after it lie in.
\<close>

definition following :: "nat \<Rightarrow> (nat \<times> nat) list option" where
  "following b =
     (if b < 0x80 then Some []
      else if 0xC2 \<le> b \<and> b \<le> 0xDF then Some [(0x80, 0xBF)]
      else if b = 0xE0 then Some [(0xA0, 0xBF), (0x80, 0xBF)]
      else if b = 0xED then Some [(0x80, 0x9F), (0x80, 0xBF)]
      else if 0xE1 \<le> b \<and> b \<le> 0xEF then Some [(0x80, 0xBF), (0x80, 0xBF)]
      else if b = 0xF0 then Some [(0x90, 0xBF), (0x80, 0xBF), (0x80, 0xBF)]
      else if 0xF1 \<le> b \<and> b \<le> 0xF3 then Some [(0x80, 0xBF), (0x80, 0xBF), (0x80, 0xBF)]
      else if b = 0xF4 then Some [(0x80, 0x8F), (0x80, 0xBF), (0x80, 0xBF)]
      else None)"

fun utf8_from :: "(nat \<times> nat) list \<Rightarrow> nat list \<Rightarrow> bool" where
  "utf8_from pending [] = (pending = [])"
| "utf8_from ((lo, hi) # pending) (b # bs) = (lo \<le> b \<and> b \<le> hi \<and> utf8_from pending bs)"
| "utf8_from [] (b # bs) = (case following b of None \<Rightarrow> False | Some pending \<Rightarrow> utf8_from pending bs)"

definition utf8 :: "string \<Rightarrow> bool" where
  "utf8 s = utf8_from [] (map of_char s)"

lemma utf8_ascii: "\<forall>c \<in> set s. (of_char c :: nat) < 0x80 \<Longrightarrow> utf8 s"
  unfolding utf8_def by (induction s) (auto simp: following_def)

lemma utf8_Nil [simp]: "utf8 []"
  by (simp add: utf8_def)

text \<open>Every string of a document, keys included.\<close>

fun json_utf8 :: "json \<Rightarrow> bool" where
  "json_utf8 (JString s) = utf8 s"
| "json_utf8 (JArray js) = (\<forall>j \<in> set js. json_utf8 j)"
| "json_utf8 (JObject m) = (\<forall>p \<in> set m. utf8 (fst p) \<and> json_utf8 (snd p))"
| "json_utf8 _ = True"

section \<open>The library\<close>

text \<open>
  A document as the library holds it and as it survives the trip: the members of an object
  are kept in a \<open>std::map\<close>, in the order of their keys, and every number is finite (one
  that is not is dumped as \<open>null\<close>).
\<close>

fun json_regular :: "json \<Rightarrow> bool" where
  "json_regular (JNumber d) = (case d of Fin _ \<Rightarrow> True | Zero _ \<Rightarrow> True | _ \<Rightarrow> False)"
| "json_regular (JArray js) = (\<forall>j \<in> set js. json_regular j)"
| "json_regular (JObject m) = (smap_ok m \<and> (\<forall>p \<in> set m. json_regular (snd p)))"
| "json_regular _ = True"

text \<open>
  The documented behaviour: \<open>dump\<close> throws exactly if a string is not valid UTF-8, and what
  was dumped of such a document parses back to it.
\<close>

definition json_library_ok :: "'b json_library \<Rightarrow> bool" where
  "json_library_ok lib \<longleftrightarrow> (\<forall>j. (dump lib j = None) = (\<not> json_utf8 j)) \<and>
     (\<forall>j b. json_regular j \<and> dump lib j = Some b \<longrightarrow> parse lib b = Some j)"

lemma parse_dumped: "json_library_ok lib \<Longrightarrow> json_regular j \<Longrightarrow> dump lib j = Some b \<Longrightarrow> parse lib b = Some j"
  by (simp add: json_library_ok_def)

lemma dump_utf8:
  assumes "json_library_ok lib" and "json_utf8 j"
  obtains b where "dump lib j = Some b"
  using assms that by (cases "dump lib j") (auto simp: json_library_ok_def)

section \<open>The accessors\<close>

fun is_object :: "json \<Rightarrow> bool" where
  "is_object (JObject _) = True"
| "is_object _ = False"

fun is_string :: "json \<Rightarrow> bool" where
  "is_string (JString _) = True"
| "is_string _ = False"

fun members :: "json \<Rightarrow> (string \<times> json) list" where
  "members (JObject m) = m"
| "members _ = []"

definition contains :: "json \<Rightarrow> string \<Rightarrow> bool" where
  "contains j key \<longleftrightarrow> map_of (members j) key \<noteq> None"

text \<open>
  \<open>value(key, default)\<close> with a string default: the default only if the key is absent; a
  member of another type, or a document that is no object, throws \<open>type_error\<close>.
\<close>

fun json_value :: "json \<Rightarrow> string \<Rightarrow> string \<Rightarrow> json_error + string" where
  "json_value (JObject m) key d =
     (case map_of m key of
        None \<Rightarrow> Inr d
      | Some (JString s) \<Rightarrow> Inr s
      | Some _ \<Rightarrow> Inl TypeError)"
| "json_value _ key d = Inl TypeError"

text \<open>A library that keeps the documents themselves: the hypothesis can hold.\<close>

definition identity_json :: "json json_library" where
  "identity_json = \<lparr>dump = (\<lambda>j. if json_utf8 j then Some j else None), parse = Some\<rparr>"

lemma dump_identity [simp]: "json_utf8 j \<Longrightarrow> dump identity_json j = Some j"
  by (simp add: identity_json_def)

lemma parse_identity [simp]: "parse identity_json b = Some b"
  by (simp add: identity_json_def)

lemma identity_json_ok [simp]: "json_library_ok identity_json"
  by (simp add: json_library_ok_def identity_json_def)

end
