(* ===== verification/Text.thy ===== *)
theory Text
  imports Prelude
begin

text \<open>
  The pieces of the C and C++ text library the program formats and scans with:
  \<open>std::to_string\<close>, \<open>atoi\<close>, the \<open>%0Nx\<close> conversion of \<open>snprintf\<close> and the \<open>%0Nx\<close>
  conversion and literal characters of \<open>sscanf_s\<close>. A string is a list of bytes.
\<close>

section \<open>Digits\<close>

definition digit_char :: "nat \<Rightarrow> char" where
  "digit_char d = (if d < 10 then char_of (48 + d) else char_of (87 + d))"

text \<open>The value of a hexadecimal digit of either case.\<close>

definition digit_val :: "char \<Rightarrow> nat option" where
  "digit_val c =
     (let n = of_char c :: nat
      in if 48 \<le> n \<and> n < 58 then Some (n - 48)
         else if 97 \<le> n \<and> n < 103 then Some (n - 87)
         else if 65 \<le> n \<and> n < 71 then Some (n - 55)
         else None)"

definition is_xdigit :: "char \<Rightarrow> bool" where
  "is_xdigit c \<longleftrightarrow> digit_val c \<noteq> None"

definition is_digit :: "char \<Rightarrow> bool" where
  "is_digit c \<longleftrightarrow> 48 \<le> (of_char c :: nat) \<and> (of_char c :: nat) < 58"

definition is_space :: "char \<Rightarrow> bool" where
  "is_space c \<longleftrightarrow> (of_char c :: nat) = 32 \<or> (9 \<le> (of_char c :: nat) \<and> (of_char c :: nat) \<le> 13)"

lemma of_char_digit: "d < 16 \<Longrightarrow> (of_char (digit_char d) :: nat) = (if d < 10 then 48 + d else 87 + d)"
  by (simp add: digit_char_def)

lemma digit_val_digit [simp]: "d < 16 \<Longrightarrow> digit_val (digit_char d) = Some d"
  by (auto simp: digit_val_def of_char_digit Let_def)

lemma is_xdigit_digit [simp]: "d < 16 \<Longrightarrow> is_xdigit (digit_char d)"
  by (simp add: is_xdigit_def)

lemma not_space_xdigit: "is_xdigit c \<Longrightarrow> \<not> is_space c"
  by (auto simp: is_xdigit_def digit_val_def is_space_def Let_def split: if_splits)

lemma not_sign_xdigit: "is_xdigit c \<Longrightarrow> c \<noteq> CHR ''-'' \<and> c \<noteq> CHR ''+''"
  by (auto simp: is_xdigit_def digit_val_def Let_def)

lemma not_x_xdigit: "is_xdigit c \<Longrightarrow> c \<noteq> CHR ''x'' \<and> c \<noteq> CHR ''X''"
  by (auto simp: is_xdigit_def digit_val_def Let_def)

section \<open>Positional notation\<close>

fun digits_of :: "nat \<Rightarrow> nat \<Rightarrow> string" where
  "digits_of b n =
     (if n < b \<or> b < 2 then [digit_char n] else digits_of b (n div b) @ [digit_char (n mod b)])"

declare digits_of.simps [simp del]

definition digits_value :: "nat \<Rightarrow> string \<Rightarrow> nat" where
  "digits_value b s = foldl (\<lambda>v c. v * b + the (digit_val c)) 0 s"

lemma digits_value_Nil [simp]: "digits_value b [] = 0"
  by (simp add: digits_value_def)

lemma digits_value_snoc [simp]: "digits_value b (s @ [c]) = digits_value b s * b + the (digit_val c)"
  by (simp add: digits_value_def)

lemma digits_of_induct [consumes 1, case_names small large]:
  fixes n b :: nat
  assumes "2 \<le> b" and "\<And>n. n < b \<Longrightarrow> P n" and "\<And>n. b \<le> n \<Longrightarrow> P (n div b) \<Longrightarrow> P n"
  shows "P n"
proof (induction n rule: less_induct)
  case (less n)
  show ?case
  proof (cases "n < b")
    case False
    with assms(1) have "n div b < n" by simp
    with less False show ?thesis by (auto intro: assms(3))
  qed (rule assms(2))
qed

lemma digits_of_small: "n < b \<Longrightarrow> digits_of b n = [digit_char n]"
  by (subst digits_of.simps) simp

lemma digits_of_large:
  "2 \<le> b \<Longrightarrow> b \<le> n \<Longrightarrow> digits_of b n = digits_of b (n div b) @ [digit_char (n mod b)]"
  by (subst digits_of.simps) simp

lemma digits_of_xdigits:
  assumes "2 \<le> b" and "b \<le> 16"
  shows "\<forall>c \<in> set (digits_of b n). is_xdigit c"
  using assms(1)
proof (induction n rule: digits_of_induct)
  case (large n)
  have "n mod b < 16" using assms mod_less_divisor [of b n] by linarith
  with large assms show ?case by (simp add: digits_of_large)
qed (use assms in \<open>simp add: digits_of_small\<close>)

lemma digits_value_digits_of:
  assumes "2 \<le> b" and "b \<le> 16"
  shows "digits_value b (digits_of b n) = n"
  using assms(1)
proof (induction n rule: digits_of_induct)
  case (small n)
  with assms show ?case by (simp add: digits_of_small digits_value_def)
next
  case (large n)
  have "n mod b < 16" using assms mod_less_divisor [of b n] by linarith
  with large assms show ?case by (simp add: digits_of_large)
qed

lemma digits_of_nonempty: "digits_of b n \<noteq> []"
  by (subst digits_of.simps) simp

lemma length_digits_of:
  assumes "2 \<le> b"
  shows "n < b ^ w \<Longrightarrow> 0 < w \<Longrightarrow> length (digits_of b n) \<le> w"
proof (induction w arbitrary: n)
  case (Suc w)
  show ?case
  proof (cases "n < b")
    case True
    then show ?thesis by (simp add: digits_of_small)
  next
    case False
    with Suc.prems have "0 < w" by (cases w) simp_all
    moreover have "n div b < b ^ w"
      using Suc.prems(1) assms by (simp add: less_mult_imp_div_less mult.commute)
    ultimately show ?thesis using Suc.IH False assms by (simp add: digits_of_large)
  qed
qed simp

section \<open>Printing\<close>

definition to_string :: "int \<Rightarrow> string" where
  "to_string i = (if i < 0 then CHR ''-'' # digits_of 10 (nat (- i)) else digits_of 10 (nat i))"

text \<open>\<open>%0Nx\<close>: at least \<open>N\<close> lower-case digits, padded with zeros.\<close>

definition print_hex :: "nat \<Rightarrow> nat \<Rightarrow> string" where
  "print_hex w n =
     (let ds = digits_of 16 n in replicate (w - length ds) (digit_char 0) @ ds)"

lemma print_hex_xdigits: "\<forall>c \<in> set (print_hex w n). is_xdigit c"
  using digits_of_xdigits [of 16 n] by (auto simp: print_hex_def Let_def)

lemma length_print_hex: "n < 16 ^ w \<Longrightarrow> 0 < w \<Longrightarrow> length (print_hex w n) = w"
  using length_digits_of [of 16 n w] by (simp add: print_hex_def Let_def)

lemma digits_value_zeros: "digits_value b (replicate k (digit_char 0) @ ds) = digits_value b ds"
proof -
  have "foldl (\<lambda>v c. v * b + the (digit_val c)) 0 (replicate k (digit_char 0)) = 0"
    by (induction k) simp_all
  then show ?thesis by (simp add: digits_value_def)
qed

lemma digits_value_print_hex [simp]: "digits_value 16 (print_hex w n) = n"
  by (simp add: print_hex_def Let_def digits_value_zeros digits_value_digits_of)

section \<open>Scanning\<close>

text \<open>
  \<open>atoi\<close>: leading white space, an optional sign, digits; no digits is 0. The Windows C
  run-time documents \<open>INT_MAX\<close> and \<open>INT_MIN\<close> for values out of range.
\<close>

definition take_sign :: "string \<Rightarrow> bool \<times> string" where
  "take_sign s =
     (case s of
        c # rest \<Rightarrow> if c = CHR ''-'' then (True, rest) else if c = CHR ''+'' then (False, rest) else (False, s)
      | [] \<Rightarrow> (False, s))"

definition atoi :: "string \<Rightarrow> int" where
  "atoi s =
     (let (neg, body) = take_sign (dropWhile is_space s);
          v = int (digits_value 10 (takeWhile is_digit body));
          i = (if neg then - v else v)
      in std_clamp i (- (2 ^ 31)) (2 ^ 31 - 1))"

text \<open>
  One \<open>%Nx\<close> conversion into an \<open>unsigned int\<close>: leading white space, then at most \<open>w\<close>
  characters of an optional sign, an optional \<open>0x\<close> and digits. The result is the value
  and the rest of the input, or nothing on a matching failure.
\<close>

definition scan_hex :: "nat \<Rightarrow> string \<Rightarrow> (u32 \<times> string) option" where
  "scan_hex w input =
     (let s1 = dropWhile is_space input;
          (neg, s2) = take_sign s1;
          w2 = w - (length s1 - length s2);
          prefix = (2 \<le> w2 \<and> (take 2 s2 = ''0x'' \<or> take 2 s2 = ''0X''));
          s3 = (if prefix then drop 2 s2 else s2);
          w3 = (if prefix then w2 - 2 else w2);
          ds = takeWhile is_xdigit (take w3 s3);
          v = word_of_nat (digits_value 16 ds)
      in if ds = [] then None else Some (if neg then - v else v, drop (length ds) s3))"

datatype directive = Hex nat | Lit char

text \<open>
  \<open>sscanf\<close> with such a format: the values assigned before the first failure; their number
  is what \<open>sscanf\<close> returns.
\<close>

fun sscanf :: "directive list \<Rightarrow> string \<Rightarrow> u32 list" where
  "sscanf [] _ = []"
| "sscanf (Hex w # fmt) s =
     (case scan_hex w s of None \<Rightarrow> [] | Some (v, rest) \<Rightarrow> v # sscanf fmt rest)"
| "sscanf (Lit c # fmt) [] = []"
| "sscanf (Lit c # fmt) (d # s) = (if d = c then sscanf fmt s else [])"

section \<open>Round trips\<close>

lemma takeWhile_all: "\<forall>c \<in> set xs. P c \<Longrightarrow> takeWhile P xs = xs"
  by (induction xs) auto

lemma takeWhile_digits_of_10: "takeWhile is_digit (digits_of 10 n) = digits_of 10 n"
proof -
  have "2 \<le> (10::nat)" by simp
  then have "\<forall>c \<in> set (digits_of 10 n). is_digit c"
  proof (induction n rule: digits_of_induct)
    case (small n)
    then show ?case by (simp add: digits_of_small is_digit_def of_char_digit)
  next
    case (large n)
    then show ?case by (simp add: digits_of_large is_digit_def of_char_digit)
  qed
  then show ?thesis by (rule takeWhile_all)
qed

lemma digits_of_head:
  obtains c cs where "digits_of 10 n = c # cs" and "is_xdigit c"
  using digits_of_nonempty [of 10 n] digits_of_xdigits [of 10 n]
  by (cases "digits_of 10 n") auto

lemma atoi_to_string:
  assumes "int32_range i"
  shows "atoi (to_string i) = i"
proof (cases "i < 0")
  case True
  then have "atoi (to_string i) = std_clamp (- int (nat (- i))) (- (2 ^ 31)) (2 ^ 31 - 1)"
    by (simp add: atoi_def to_string_def take_sign_def is_space_def takeWhile_digits_of_10
        digits_value_digits_of)
  with True assms show ?thesis by (simp add: int32_range_def std_clamp_def)
next
  case False
  obtain c cs where d: "digits_of 10 (nat i) = c # cs" and c: "is_xdigit c"
    by (rule digits_of_head)
  have "dropWhile is_space (digits_of 10 (nat i)) = digits_of 10 (nat i)"
    using d not_space_xdigit [OF c] by simp
  moreover have "take_sign (digits_of 10 (nat i)) = (False, digits_of 10 (nat i))"
    using d not_sign_xdigit [OF c] by (simp add: take_sign_def)
  ultimately have "atoi (to_string i) = std_clamp (int (nat i)) (- (2 ^ 31)) (2 ^ 31 - 1)"
    using False
    by (simp add: atoi_def to_string_def takeWhile_digits_of_10 digits_value_digits_of)
  with False assms show ?thesis by (simp add: int32_range_def std_clamp_def)
qed

lemma scan_hex_digits:
  assumes ds: "\<forall>c \<in> set ds. is_xdigit c" and len: "length ds = w" and w: "0 < w"
  shows "scan_hex w (ds @ rest) = Some (word_of_nat (digits_value 16 ds), rest)"
proof -
  obtain c cs where c: "ds = c # cs" using len w by (cases ds) auto
  then have "is_xdigit c" using ds by simp
  then have 1: "dropWhile is_space (ds @ rest) = ds @ rest"
    and 2: "take_sign (ds @ rest) = (False, ds @ rest)"
    using c not_space_xdigit not_sign_xdigit by (auto simp: take_sign_def)
  have 3: "\<not> (2 \<le> w \<and> (take 2 (ds @ rest) = ''0x'' \<or> take 2 (ds @ rest) = ''0X''))"
  proof (cases cs)
    case Nil
    then show ?thesis using c len by simp
  next
    case (Cons d es)
    then have "is_xdigit d" using c ds by simp
    then show ?thesis using c Cons not_x_xdigit by auto
  qed
  have 4: "takeWhile is_xdigit (take w (ds @ rest)) = ds"
    using ds len by (simp add: takeWhile_all)
  have "ds \<noteq> []" using c by simp
  then show ?thesis
    using 3 4 len by (auto simp: scan_hex_def 1 2 Let_def simp del: take_append)
qed

lemma scan_hex_print:
  assumes "n < 16 ^ w" and "0 < w"
  shows "scan_hex w (print_hex w n @ rest) = Some (word_of_nat n, rest)"
  using scan_hex_digits [OF print_hex_xdigits length_print_hex [OF assms] assms(2)] by simp

end
