(* ===== verification/Endpoint.thy ===== *)
theory Endpoint
  imports Text
begin

text \<open>
  \<open>libs/core/src/endpoint.cpp\<close> and its header: the addresses the service listens on and
  the clients dial. The environment is a partial map.
\<close>

definition backslash :: string where "backslash = [CHR 0x5C]"

definition kPipeName :: string where "kPipeName = ''hwpanel''"

definition kDefaultTcpPort :: int where "kDefaultTcpPort = 50051"

definition NamedPipeAddress :: string where
  "NamedPipeAddress = ''np:'' @ backslash @ backslash @ ''.'' @ backslash @ ''pipe'' @ backslash @ kPipeName"

definition TcpAddress :: "int \<Rightarrow> string" where
  "TcpAddress port = ''127.0.0.1:'' @ to_string port"

text \<open>\<open>std::getenv\<close> with the non-empty test the callers make.\<close>

definition nonempty_env :: "(string \<Rightarrow> string option) \<Rightarrow> string \<Rightarrow> string option" where
  "nonempty_env env name = (case env name of Some (c # cs) \<Rightarrow> Some (c # cs) | _ \<Rightarrow> None)"

definition DefaultEndpoint :: "(string \<Rightarrow> string option) \<Rightarrow> string" where
  "DefaultEndpoint env =
     (case nonempty_env env ''HWPANEL_ENDPOINT'' of Some v \<Rightarrow> v | None \<Rightarrow> NamedPipeAddress)"

definition IsNamedPipeAddress :: "string \<Rightarrow> bool" where
  "IsNamedPipeAddress address \<longleftrightarrow> take 3 address = ''np:''"

lemma IsNamedPipeAddress_simps [simp]:
  "IsNamedPipeAddress NamedPipeAddress" "\<not> IsNamedPipeAddress (TcpAddress p)"
  by (simp_all add: IsNamedPipeAddress_def NamedPipeAddress_def TcpAddress_def)

lemma DefaultEndpoint_unset: "env ''HWPANEL_ENDPOINT'' = None \<Longrightarrow> IsNamedPipeAddress (DefaultEndpoint env)"
  by (simp add: DefaultEndpoint_def nonempty_env_def)

end
