(* ===== verification/Paths.thy ===== *)
theory Paths
  imports Endpoint
begin

text \<open>
  \<open>libs/core/src/paths.cpp\<close> and its header: where the program keeps its data. Paths are
  strings in the native format; \<open>path_append\<close> is \<open>operator/\<close> of \<open>std::filesystem::path\<close>
  for a relative right operand without a root.
\<close>

definition is_separator :: "char \<Rightarrow> bool" where
  "is_separator c \<longleftrightarrow> c = CHR 0x5C \<or> c = CHR 0x2F"

text \<open>Whether a separator has to be inserted: the path ends in a file name.\<close>

definition has_filename :: "string \<Rightarrow> bool" where
  "has_filename p \<longleftrightarrow> p \<noteq> '''' \<and> \<not> is_separator (last p) \<and> \<not> (length p = 2 \<and> last p = CHR '':'')"

definition path_append :: "string \<Rightarrow> string \<Rightarrow> string" where
  "path_append p q = (if has_filename p then p @ backslash @ q else p @ q)"

definition MAX_PATH :: nat where "MAX_PATH = 260"

text \<open>
  \<open>getvar name n\<close> stands for \<open>GetEnvironmentVariableW\<close> into a buffer of \<open>n\<close> characters:
  what it returns and what the buffer then holds up to its terminator.
\<close>

definition DataDir :: "(string \<Rightarrow> string option) \<Rightarrow> (string \<Rightarrow> nat \<Rightarrow> nat \<times> string) \<Rightarrow> string" where
  "DataDir env getvar =
     (case nonempty_env env ''HWPANEL_DATA'' of
        Some v \<Rightarrow> v
      | None \<Rightarrow>
          (let (len, buf) = getvar ''PROGRAMDATA'' MAX_PATH
           in if len = 0 \<or> len > MAX_PATH
              then path_append (''C:'' @ backslash @ ''ProgramData'') ''HWPanel''
              else path_append buf ''HWPanel''))"

definition LogsDir :: "(string \<Rightarrow> string option) \<Rightarrow> (string \<Rightarrow> nat \<Rightarrow> nat \<times> string) \<Rightarrow> string" where
  "LogsDir env getvar = path_append (DataDir env getvar) ''logs''"

definition ProfilesDir :: "(string \<Rightarrow> string option) \<Rightarrow> (string \<Rightarrow> nat \<Rightarrow> nat \<times> string) \<Rightarrow> string" where
  "ProfilesDir env getvar = path_append (DataDir env getvar) ''profiles''"

text \<open>\<open>EnsureDir\<close> on the set of existing directories; \<open>mk\<close> is \<open>create_directories\<close>, whose errors are dropped.\<close>

definition EnsureDir :: "(string \<Rightarrow> string set \<Rightarrow> string set) \<Rightarrow> string \<Rightarrow> string set \<Rightarrow> string \<times> string set" where
  "EnsureDir mk dir dirs = (dir, mk dir dirs)"

text \<open>
  The documented contract of the call: 0 when the variable is unset, its length when it
  fits with the terminator, otherwise the size it needs, which is larger than the buffer.
  Under it a value is never used truncated.
\<close>

definition getvar_contract :: "(string \<Rightarrow> string option) \<Rightarrow> (string \<Rightarrow> nat \<Rightarrow> nat \<times> string) \<Rightarrow> bool" where
  "getvar_contract vars getvar \<longleftrightarrow> (\<forall>name n.
     case vars name of
       None \<Rightarrow> fst (getvar name n) = 0
     | Some v \<Rightarrow> if length v < n then getvar name n = (length v, v) else fst (getvar name n) = length v + 1)"

lemma DataDir_cases:
  assumes "getvar_contract vars getvar" and "nonempty_env env ''HWPANEL_DATA'' = None"
  shows "DataDir env getvar =
    (case vars ''PROGRAMDATA'' of
       Some (c # cs) \<Rightarrow> if length (c # cs) < MAX_PATH then path_append (c # cs) ''HWPanel''
         else path_append (''C:'' @ backslash @ ''ProgramData'') ''HWPanel''
     | _ \<Rightarrow> path_append (''C:'' @ backslash @ ''ProgramData'') ''HWPanel'')"
proof -
  have "case vars ''PROGRAMDATA'' of
       None \<Rightarrow> fst (getvar ''PROGRAMDATA'' MAX_PATH) = 0
     | Some v \<Rightarrow> if length v < MAX_PATH then getvar ''PROGRAMDATA'' MAX_PATH = (length v, v)
         else fst (getvar ''PROGRAMDATA'' MAX_PATH) = length v + 1"
    using assms(1) unfolding getvar_contract_def by blast
  then show ?thesis
    using assms(2) by (auto simp: DataDir_def split_beta Let_def split: option.splits list.splits if_splits)
qed

end
