(* ===== verification/Profile_Store.thy ===== *)
theory Profile_Store
  imports File_System Json Paths
begin

text \<open>
  \<open>libs/core/src/profile_store.cpp\<close> and its header: profiles as JSON files
  \<open><id>.json\<close> of one directory, the active profile's id in \<open>active.json\<close>. An operation
  returns a sum: the left side is an exception that leaves it, which happens where the
  source does not catch one.
\<close>

section \<open>Profiles\<close>

record profile =
  prof_id :: string
  prof_name :: string
  prof_description :: string
  prof_settings :: "(string \<times> string) list"

text \<open>The settings member: string values are taken over, others skipped.\<close>

definition read_settings :: "json \<Rightarrow> (string \<times> string) list" where
  "read_settings doc =
     (case map_of (members doc) ''settings'' of
        Some (JObject items) \<Rightarrow>
          foldl (\<lambda>m (k, v). case v of JString s \<Rightarrow> smap_put k s m | _ \<Rightarrow> m) [] items
      | _ \<Rightarrow> [])"

text \<open>The part of \<open>ParseProfileFile\<close> after the document was read.\<close>

definition profile_of_json :: "json \<Rightarrow> json_error + profile option" where
  "profile_of_json doc =
     (if \<not> is_object doc then Inr None
      else case map_of (members doc) ''id'' of
        Some (JString i) \<Rightarrow>
          (case json_value doc ''name'' i of
             Inl e \<Rightarrow> Inl e
           | Inr n \<Rightarrow>
               (case json_value doc ''description'' '''' of
                  Inl e \<Rightarrow> Inl e
                | Inr d \<Rightarrow> Inr (Some \<lparr>prof_id = i, prof_name = n, prof_description = d,
                                     prof_settings = read_settings doc\<rparr>)))
      | _ \<Rightarrow> Inr None)"

text \<open>
  The whole of it. The warning about a file that is no document, or not a profile's, names
  the file by its narrow path, outside any \<open>try\<close>.
\<close>

definition warn_skipped :: "'b file_system \<Rightarrow> string \<Rightarrow> json_error + profile option" where
  "warn_skipped fs file = (if narrow fs file then Inr None else Inl PathNotNarrow)"

definition ParseProfileFile :: "'b json_library \<Rightarrow> 'b file_system \<Rightarrow> string \<Rightarrow> json_error + profile option" where
  "ParseProfileFile lib fs file =
     (case read_file fs file of
        None \<Rightarrow> Inr None
      | Some bytes \<Rightarrow>
          (case parse lib bytes of
             None \<Rightarrow> warn_skipped fs file
           | Some doc \<Rightarrow>
               (case profile_of_json doc of
                  Inr None \<Rightarrow> warn_skipped fs file
                | r \<Rightarrow> r)))"

text \<open>The constructor: the directory it keeps, and the directories there are afterwards.\<close>

definition ProfileStore :: "(string \<Rightarrow> string set \<Rightarrow> string set) \<Rightarrow> string \<Rightarrow> string set \<Rightarrow> string \<times> string set" where
  "ProfileStore mk dir dirs = (dir, snd (EnsureDir mk dir dirs))"

section \<open>Listing\<close>

text \<open>
  \<open>std::filesystem::path::extension\<close>: from the last dot, unless the name is \<open>.\<close> or \<open>..\<close>,
  has no dot, or its only dot comes first.
\<close>

definition extension :: "string \<Rightarrow> string" where
  "extension f =
     (let tail = takeWhile (\<lambda>c. c \<noteq> CHR ''.'') (rev f); n = length f - length tail
      in if f = ''.'' \<or> f = ''..'' \<or> n \<le> 1 then '''' else CHR ''.'' # rev tail)"

definition is_profile_file :: "string \<Rightarrow> bool" where
  "is_profile_file f \<longleftrightarrow> extension f = ''.json'' \<and> f \<noteq> ''active.json''"

fun parse_files :: "'b json_library \<Rightarrow> 'b file_system \<Rightarrow> string list \<Rightarrow> json_error + profile list" where
  "parse_files lib fs [] = Inr []"
| "parse_files lib fs (f # files) =
     (if \<not> is_profile_file f then parse_files lib fs files
      else case ParseProfileFile lib fs f of
        Inl e \<Rightarrow> Inl e
      | Inr r \<Rightarrow>
          (case parse_files lib fs files of
             Inl e \<Rightarrow> Inl e
           | Inr ps \<Rightarrow> Inr (case r of None \<Rightarrow> ps | Some p \<Rightarrow> p # ps)))"

text \<open>
  \<open>std::sort\<close> by id; the order of profiles with equal ids is unspecified in C++ and here
  that of the enumeration. A directory that cannot be opened is an error code nobody reads:
  the iterator is at its end and the list empty. Advancing it and \<open>is_regular_file\<close> throw.
\<close>

definition store_List :: "'b json_library \<Rightarrow> 'b file_system \<Rightarrow> json_error + profile list" where
  "store_List lib fs =
     (if \<not> can_list fs then Inr []
      else case parse_files lib fs (case enum_fault fs of None \<Rightarrow> dir_files fs | Some n \<Rightarrow> take n (dir_files fs)) of
        Inl e \<Rightarrow> Inl e
      | Inr ps \<Rightarrow> if enum_fault fs \<noteq> None then Inl EnumerationFailed else Inr (sort_key prof_id ps))"

definition store_Get :: "'b json_library \<Rightarrow> 'b file_system \<Rightarrow> string \<Rightarrow> json_error + profile option" where
  "store_Get lib fs i = ParseProfileFile lib fs (i @ ''.json'')"

section \<open>Writing\<close>

definition json_of_profile :: "profile \<Rightarrow> json" where
  "json_of_profile p =
     JObject [(''description'', JString (prof_description p)),
              (''id'', JString (prof_id p)),
              (''name'', JString (prof_name p)),
              (''settings'', JObject (map (\<lambda>(k, v). (k, JString v)) (prof_settings p)))]"

text \<open>
  The temporary file is created (and truncated) before the document is dumped, so an
  exception from \<open>dump\<close> leaves an empty temporary file behind: its bytes are the parameter
  \<open>no_bytes\<close> of the library's byte type.
\<close>

definition store_Save :: "'b json_library \<Rightarrow> 'b \<Rightarrow> 'b file_system \<Rightarrow> profile \<Rightarrow>
    (json_error + bool) \<times> 'b file_system" where
  "store_Save lib no_bytes fs p =
     (let file = prof_id p @ ''.json''; tmp = prof_id p @ ''.json.tmp''
      in if \<not> can_open fs tmp then (Inr False, fs)
         else case dump lib (json_of_profile p) of
           None \<Rightarrow> (Inl InvalidUtf8, write_file fs tmp no_bytes)
         | Some bytes \<Rightarrow>
             (let (ok, fs') = rename_file (write_file fs tmp bytes) tmp file in (Inr ok, fs')))"

definition store_Remove :: "'b file_system \<Rightarrow> string \<Rightarrow> bool \<times> 'b file_system" where
  "store_Remove fs i = remove_file fs (i @ ''.json'')"

text \<open>Every exception inside \<open>ActiveId\<close> is caught and gives the empty id.\<close>

definition store_ActiveId :: "'b json_library \<Rightarrow> 'b file_system \<Rightarrow> string" where
  "store_ActiveId lib fs =
     (case read_file fs ''active.json'' of
        None \<Rightarrow> ''''
      | Some bytes \<Rightarrow>
          (case parse lib bytes of
             None \<Rightarrow> ''''
           | Some doc \<Rightarrow> (case json_value doc ''active'' '''' of Inl _ \<Rightarrow> '''' | Inr i \<Rightarrow> i)))"

definition store_SetActiveId :: "'b json_library \<Rightarrow> 'b \<Rightarrow> 'b file_system \<Rightarrow> string \<Rightarrow>
    (json_error + unit) \<times> 'b file_system" where
  "store_SetActiveId lib no_bytes fs i =
     (if \<not> can_open fs ''active.json.tmp'' then (Inr (), fs)
      else case dump lib (JObject [(''active'', JString i)]) of
        None \<Rightarrow> (Inl InvalidUtf8, write_file fs ''active.json.tmp'' no_bytes)
      | Some bytes \<Rightarrow>
          (Inr (), snd (rename_file (write_file fs ''active.json.tmp'' bytes)
                         ''active.json.tmp'' ''active.json'')))"

definition default_profiles :: "profile list" where
  "default_profiles =
     [\<lparr>prof_id = ''balanced'', prof_name = ''Balanced'',
       prof_description = ''Windows default balanced plan'',
       prof_settings = [(''power.plan'', ''balanced'')]\<rparr>,
      \<lparr>prof_id = ''performance'', prof_name = ''Performance'',
       prof_description = ''High performance plan for gaming/renders'',
       prof_settings = [(''power.plan'', ''high'')]\<rparr>,
      \<lparr>prof_id = ''powersaver'', prof_name = ''Power Saver'',
       prof_description = ''Battery friendly plan'',
       prof_settings = [(''power.plan'', ''saver'')]\<rparr>]"

fun save_all :: "'b json_library \<Rightarrow> 'b \<Rightarrow> 'b file_system \<Rightarrow> profile list \<Rightarrow>
    (json_error + unit) \<times> 'b file_system" where
  "save_all lib no_bytes fs [] = (Inr (), fs)"
| "save_all lib no_bytes fs (p # ps) =
     (let (r, fs') = store_Save lib no_bytes fs p
      in case r of Inl e \<Rightarrow> (Inl e, fs') | Inr _ \<Rightarrow> save_all lib no_bytes fs' ps)"

definition store_EnsureDefaults :: "'b json_library \<Rightarrow> 'b \<Rightarrow> 'b file_system \<Rightarrow>
    (json_error + unit) \<times> 'b file_system" where
  "store_EnsureDefaults lib no_bytes fs =
     (case store_List lib fs of
        Inl e \<Rightarrow> (Inl e, fs)
      | Inr ps \<Rightarrow>
          if ps \<noteq> [] then (Inr (), fs)
          else
            (let (r, fs') = save_all lib no_bytes fs default_profiles
             in case r of
                  Inl e \<Rightarrow> (Inl e, fs')
                | Inr _ \<Rightarrow>
                    if store_ActiveId lib fs' = '''' then store_SetActiveId lib no_bytes fs' ''balanced''
                    else (Inr (), fs')))"

section \<open>Reading back what was written\<close>

lemma read_settings_json_of_profile:
  "smap_ok (prof_settings p) \<Longrightarrow> read_settings (json_of_profile p) = prof_settings p"
proof -
  assume ok: "smap_ok (prof_settings p)"
  have "foldl (\<lambda>m (k, v). case v of JString s \<Rightarrow> smap_put k s m | _ \<Rightarrow> m) m
      (map (\<lambda>(k, v). (k, JString v)) items) = foldl (\<lambda>m (k, v). smap_put k v m) m items" for m items
    by (induction items arbitrary: m) auto
  with ok show ?thesis
    by (simp add: read_settings_def json_of_profile_def foldl_smap_put_id)
qed

lemma profile_of_json_of_profile:
  "smap_ok (prof_settings p) \<Longrightarrow> profile_of_json (json_of_profile p) = Inr (Some p)"
  using read_settings_json_of_profile [of p]
  by (simp add: profile_of_json_def) (simp add: json_of_profile_def)

text \<open>Reading on a healthy disk.\<close>

lemma warn_skipped_healthy [simp]: "fs_healthy fs \<Longrightarrow> warn_skipped fs f = Inr None"
  by (simp add: warn_skipped_def fs_healthy_def)

lemma store_List_healthy:
  "fs_healthy fs \<Longrightarrow> store_List lib fs =
     (case parse_files lib fs (dir_files fs) of Inl e \<Rightarrow> Inl e | Inr ps \<Rightarrow> Inr (sort_key prof_id ps))"
  by (simp add: store_List_def fs_healthy_def split: sum.split)

lemma ParseProfileFile_cong:
  "read_file fs f = read_file fs' f \<Longrightarrow> narrow fs f = narrow fs' f \<Longrightarrow> ParseProfileFile lib fs f = ParseProfileFile lib fs' f"
proof -
  assume read: "read_file fs f = read_file fs' f" and "narrow fs f = narrow fs' f"
  then have warn: "warn_skipped fs f = warn_skipped fs' f" by (simp add: warn_skipped_def)
  show "ParseProfileFile lib fs f = ParseProfileFile lib fs' f" unfolding ParseProfileFile_def read warn ..
qed

text \<open>The documents the store writes are regular, and UTF-8 if the strings in them are.\<close>

lemma json_of_profile_regular: "smap_ok (prof_settings p) \<Longrightarrow> json_regular (json_of_profile p)"
proof -
  have "smap_ok (map (\<lambda>(k, v). (k, JString v)) kvs) = smap_ok kvs" for kvs :: "(string \<times> string) list"
    by (simp add: smap_ok_def comp_def split_def)
  moreover have "''description'' < ''id'' \<and> ''description'' < ''name'' \<and> ''description'' < ''settings'' \<and>
      ''id'' < ''name'' \<and> ''id'' < ''settings'' \<and> ''name'' < ''settings''" by code_simp
  ultimately show "smap_ok (prof_settings p) \<Longrightarrow> json_regular (json_of_profile p)" by (auto simp: json_of_profile_def)
qed

definition profile_utf8 :: "profile \<Rightarrow> bool" where
  "profile_utf8 p \<longleftrightarrow> utf8 (prof_id p) \<and> utf8 (prof_name p) \<and> utf8 (prof_description p) \<and>
     (\<forall>(k, v) \<in> set (prof_settings p). utf8 k \<and> utf8 v)"

lemma profile_keys_utf8 [simp]:
  "utf8 ''description''" "utf8 ''id''" "utf8 ''name''" "utf8 ''settings''" "utf8 ''active''"
  by code_simp+

lemma json_of_profile_utf8: "json_utf8 (json_of_profile p) = profile_utf8 p"
  by (auto simp: json_of_profile_def profile_utf8_def)

lemma default_profiles_utf8: "p \<in> set default_profiles \<Longrightarrow> profile_utf8 p"
proof -
  have "list_all (\<lambda>p. utf8 (prof_id p) \<and> utf8 (prof_name p) \<and> utf8 (prof_description p) \<and>
     list_all (\<lambda>(k, v). utf8 k \<and> utf8 v) (prof_settings p)) default_profiles" by code_simp
  then show "p \<in> set default_profiles \<Longrightarrow> profile_utf8 p" by (auto simp: profile_utf8_def list_all_iff)
qed

lemma utf8_balanced: "utf8 ''balanced''"
  by code_simp

lemma active_regular: "json_regular (JObject [(''active'', JString i)])"
  by simp

text \<open>A \<open>Save\<close> on a healthy disk: the shape every later fact uses.\<close>

lemma store_Save_healthy:
  assumes "fs_healthy fs" and "dump lib (json_of_profile p) = Some bytes"
  shows "store_Save lib no_bytes fs p =
    (Inr True, snd (rename_file (write_file fs (prof_id p @ ''.json.tmp'') bytes)
                     (prof_id p @ ''.json.tmp'') (prof_id p @ ''.json'')))"
  using assms replace_file(1) [OF assms(1), of "prof_id p" bytes]
  by (simp add: store_Save_def Let_def split_beta fs_healthy_def)

lemma ParseProfileFile_saved:
  assumes "json_library_ok lib" and "fs_healthy fs" and "smap_ok (prof_settings p)"
    and "dump lib (json_of_profile p) = Some bytes" and "lookup fs f = Some bytes"
  shows "ParseProfileFile lib fs f = Inr (Some p)"
  using assms parse_dumped [OF assms(1) json_of_profile_regular [OF assms(3)] assms(4)]
  by (simp add: ParseProfileFile_def read_file_def fs_healthy_def profile_of_json_of_profile)

text \<open>
  C23: a profile saved on a healthy disk is read back unchanged, and no profile stored
  under another file name is affected.
\<close>

theorem save_get_roundtrip:
  assumes "json_library_ok lib" and "fs_healthy fs" and "smap_ok (prof_settings p)"
    and "dump lib (json_of_profile p) \<noteq> None"
    and "store_Save lib no_bytes fs p = (r, fs')"
  shows "r = Inr True \<and> store_Get lib fs' (prof_id p) = Inr (Some p) \<and>
    (\<forall>j. canon fs (j @ ''.json'') \<noteq> canon fs (prof_id p @ ''.json'') \<longrightarrow>
       store_Get lib fs' j = store_Get lib fs j)"
proof -
  obtain bytes where b: "dump lib (json_of_profile p) = Some bytes" using assms(4) by blast
  let ?r = "rename_file (write_file fs (prof_id p @ ''.json.tmp'') bytes)
              (prof_id p @ ''.json.tmp'') (prof_id p @ ''.json'')"
  have r: "r = Inr True" and fs': "fs' = snd ?r"
    using store_Save_healthy [OF assms(2) b, of no_bytes] assms(5) by simp_all
  have h: "fs_healthy fs'" using replace_file(2) [OF assms(2)] by (simp add: fs')
  have l: "lookup fs' n =
      (if canon fs n = canon fs (prof_id p @ ''.json'') then Some bytes
       else if canon fs n = canon fs (prof_id p @ ''.json.tmp'') then None else lookup fs n)" for n
    unfolding fs' by (rule replace_file(3) [OF assms(2)])
  have "store_Get lib fs' (prof_id p) = Inr (Some p)"
    using ParseProfileFile_saved [OF assms(1) h assms(3) b] by (simp add: store_Get_def l)
  moreover have "store_Get lib fs' j = store_Get lib fs j"
    if "canon fs (j @ ''.json'') \<noteq> canon fs (prof_id p @ ''.json'')" for j
  proof -
    have "canon fs (j @ ''.json'') \<noteq> canon fs (prof_id p @ ''.json.tmp'')"
      using assms(2) unfolding fs_healthy_def by metis
    with that have "read_file fs' (j @ ''.json'') = read_file fs (j @ ''.json'')"
      using assms(2) h by (simp add: read_file_def l fs_healthy_def)
    moreover have "narrow fs' = narrow fs" by (simp add: fs')
    ultimately show ?thesis unfolding store_Get_def by (intro ParseProfileFile_cong) simp_all
  qed
  ultimately show ?thesis using r by blast
qed

theorem save_get_roundtrip_witness:
  "store_Get identity_json (snd (store_Save identity_json JNull (plain_disk []) (hd default_profiles)))
     ''balanced'' = Inr (Some (hd default_profiles))"
proof -
  let ?p = "hd default_profiles"
  have p: "?p \<in> set default_profiles" "prof_id ?p = ''balanced''" by (simp_all add: default_profiles_def)
  have "smap_ok (prof_settings ?p)" by (simp add: default_profiles_def)
  moreover have "dump identity_json (json_of_profile ?p) \<noteq> None"
    using default_profiles_utf8 [OF p(1)] by (simp add: json_of_profile_utf8)
  ultimately show ?thesis
    using save_get_roundtrip [OF identity_json_ok plain_disk_healthy, of ?p JNull "[]"] p(2) by (metis prod.collapse)
qed

section \<open>The active profile\<close>

lemma SetActiveId_roundtrip:
  assumes "json_library_ok lib" and "fs_healthy fs"
    and "dump lib (JObject [(''active'', JString i)]) \<noteq> None"
    and "store_SetActiveId lib no_bytes fs i = (r, fs')"
  shows "r = Inr () \<and> store_ActiveId lib fs' = i \<and>
    (\<forall>j. canon fs (j @ ''.json'') \<noteq> canon fs ''active.json'' \<longrightarrow>
       store_Get lib fs' j = store_Get lib fs j)"
proof -
  obtain bytes where b: "dump lib (JObject [(''active'', JString i)]) = Some bytes"
    using assms(3) by blast
  let ?r = "rename_file (write_file fs ''active.json.tmp'' bytes) ''active.json.tmp'' ''active.json''"
  have r: "r = Inr ()" and fs': "fs' = snd ?r"
    using assms(2,4) b by (auto simp: store_SetActiveId_def fs_healthy_def)
  have h: "fs_healthy fs'" using replace_file(2) [OF assms(2)] by (simp add: fs')
  have l: "lookup fs' n = (if canon fs n = canon fs ''active.json'' then Some bytes
       else if canon fs n = canon fs ''active.json.tmp'' then None else lookup fs n)" for n
    unfolding fs' using replace_file(3) [OF assms(2), of "''active''"] by simp
  have "store_ActiveId lib fs' = i"
    using parse_dumped [OF assms(1) active_regular b] h
    by (simp add: store_ActiveId_def read_file_def l fs_healthy_def)
  moreover have "store_Get lib fs' j = store_Get lib fs j"
    if "canon fs (j @ ''.json'') \<noteq> canon fs ''active.json''" for j
  proof -
    have "canon fs (''active'' @ ''.json.tmp'') \<noteq> canon fs (j @ ''.json'')"
      using assms(2) unfolding fs_healthy_def by blast
    with that have "read_file fs' (j @ ''.json'') = read_file fs (j @ ''.json'')"
      using assms(2) h by (simp add: read_file_def l fs_healthy_def)
    moreover have "narrow fs' = narrow fs" by (simp add: fs')
    ultimately show ?thesis unfolding store_Get_def by (intro ParseProfileFile_cong) simp_all
  qed
  ultimately show ?thesis using r by blast
qed

text \<open>
  On a healthy disk \<open>SetActiveId\<close> is read back by \<open>ActiveId\<close> and leaves every profile
  file alone.
\<close>

theorem set_active_id_roundtrip:
  assumes "json_library_ok lib" and "fs_healthy fs"
    and "dump lib (JObject [(''active'', JString i)]) \<noteq> None"
    and "store_SetActiveId lib no_bytes fs i = (r, fs')"
  shows "r = Inr () \<and> store_ActiveId lib fs' = i \<and>
    (\<forall>j. canon fs (j @ ''.json'') \<noteq> canon fs ''active.json'' \<longrightarrow>
       store_Get lib fs' j = store_Get lib fs j)"
  by (rule SetActiveId_roundtrip [OF assms])

theorem set_active_id_roundtrip_witness:
  "store_ActiveId identity_json
     (snd (store_SetActiveId identity_json JNull (plain_disk []) ''performance'')) = ''performance''"
proof -
  have "utf8 ''performance''" by code_simp
  then show ?thesis
    using set_active_id_roundtrip [OF identity_json_ok plain_disk_healthy, of "''performance''" JNull "[]"]
    by (simp add: prod_eq_iff)
qed

section \<open>What a listing shows\<close>

text \<open>The results of the listed files, when none of them throws.\<close>

definition listed_profiles :: "'b json_library \<Rightarrow> 'b file_system \<Rightarrow> profile list" where
  "listed_profiles lib fs =
     List.map_filter (\<lambda>f. case ParseProfileFile lib fs f of Inr r \<Rightarrow> r | Inl _ \<Rightarrow> None)
       (filter is_profile_file (dir_files fs))"

lemma parse_files_Inr:
  "parse_files lib fs files = Inr ps \<Longrightarrow>
     ps = List.map_filter (\<lambda>f. case ParseProfileFile lib fs f of Inr r \<Rightarrow> r | Inl _ \<Rightarrow> None)
            (filter is_profile_file files)"
  by (induction files arbitrary: ps)
    (auto simp: map_filter_simps split: if_splits sum.splits option.splits)

lemma parse_files_throws:
  "(\<exists>e. parse_files lib fs files = Inl e) \<longleftrightarrow>
     (\<exists>f \<in> set files. is_profile_file f \<and> (\<exists>e. ParseProfileFile lib fs f = Inl e))"
  by (induction files) (auto split: sum.splits)

lemma store_List_Inr:
  "store_List lib fs = Inr ps \<Longrightarrow>
     (if can_list fs then enum_fault fs = None \<and> ps = sort_key prof_id (listed_profiles lib fs) else ps = [])"
  by (auto simp: store_List_def listed_profiles_def dest: parse_files_Inr split: sum.splits if_splits)

text \<open>The exception the contents of a profile file cause: a name or description of the wrong type.\<close>

definition ill_typed_member :: "json \<Rightarrow> string \<Rightarrow> bool" where
  "ill_typed_member doc key \<longleftrightarrow> (\<exists>j. map_of (members doc) key = Some j \<and> \<not> is_string j)"

lemma json_value_throws:
  "is_object doc \<Longrightarrow> (\<exists>e. json_value doc key d = Inl e) \<longleftrightarrow> ill_typed_member doc key"
  by (cases doc) (auto simp: ill_typed_member_def split: option.splits json.splits)

lemma profile_of_json_throws:
  "(\<exists>e. profile_of_json doc = Inl e) \<longleftrightarrow>
     is_object doc \<and> (\<exists>i. map_of (members doc) ''id'' = Some (JString i)) \<and>
     (ill_typed_member doc ''name'' \<or> ill_typed_member doc ''description'')"
proof (cases "is_object doc \<and> (\<exists>i. map_of (members doc) ''id'' = Some (JString i))")
  case True
  then obtain i where o: "is_object doc" and i: "map_of (members doc) ''id'' = Some (JString i)" by blast
  from json_value_throws [OF o, of "''name''" i] json_value_throws [OF o, of "''description''" "''''"]
  show ?thesis using o i by (auto simp: profile_of_json_def split: sum.splits)
next
  case False
  then show ?thesis by (auto simp: profile_of_json_def split: option.splits json.splits)
qed

lemma profile_of_json_skips:
  "profile_of_json doc = Inr None \<longleftrightarrow> \<not> (is_object doc \<and> (\<exists>i. map_of (members doc) ''id'' = Some (JString i)))"
  by (auto simp: profile_of_json_def split: option.splits json.splits sum.splits)

text \<open>
  A successful \<open>List\<close> of a directory that could be opened is sorted by id and holds exactly what the \<open>.json\<close> files other
  than \<open>active.json\<close> parse to, each file once.
\<close>

theorem list_sorted_and_complete:
  assumes "store_List lib fs = Inr ps" and "can_list fs"
  shows "sorted (map prof_id ps) \<and>
    (\<forall>p. p \<in> set ps \<longleftrightarrow> (\<exists>f \<in> set (dir_files fs). is_profile_file f \<and>
       ParseProfileFile lib fs f = Inr (Some p))) \<and>
    length ps \<le> length (entries fs)"
proof -
  have ps: "ps = sort_key prof_id (listed_profiles lib fs)" using store_List_Inr [OF assms(1)] assms(2) by simp
  have "length (List.map_filter g xs) \<le> length xs" for g :: "string \<Rightarrow> profile option" and xs
    by (induction xs) (auto simp: map_filter_simps split: option.splits)
  then have "length ps \<le> length (filter is_profile_file (dir_files fs))"
    unfolding ps listed_profiles_def length_sort by blast
  also have "\<dots> \<le> length (dir_files fs)" by (rule length_filter_le)
  also have "\<dots> \<le> length (entries fs)" unfolding dir_files_def by (metis length_filter_le length_map)
  finally have len: "length ps \<le> length (entries fs)" .
  have "p \<in> set ps \<longleftrightarrow> (\<exists>f \<in> set (dir_files fs). is_profile_file f \<and>
       ParseProfileFile lib fs f = Inr (Some p))" for p
    unfolding ps listed_profiles_def
    by (force simp: map_filter_def split: sum.splits)
  with len show ?thesis by (simp add: ps)
qed

text \<open>
  C36: \<open>List\<close> throws exactly when the directory can be opened and one of these holds: reading
  on in it fails at some point; or some \<open>.json\<close> file of it holds an object whose id is a
  string but whose name or description has another type (such a file is not skipped, it
  makes the whole listing fail); or a file to be skipped, because it is no JSON document or
  not an object with a string id, has a path without a narrow form for the warning.
\<close>

theorem list_throws_iff_ill_typed_file:
  "(\<exists>e. store_List lib fs = Inl e) \<longleftrightarrow> can_list fs \<and>
     ((\<exists>n. enum_fault fs = Some n) \<or>
      (\<exists>f \<in> set (dir_files fs). is_profile_file f \<and>
        ((\<exists>bytes doc i. read_file fs f = Some bytes \<and> parse lib bytes = Some doc \<and>
           is_object doc \<and> map_of (members doc) ''id'' = Some (JString i) \<and>
           (ill_typed_member doc ''name'' \<or> ill_typed_member doc ''description'')) \<or>
         (\<exists>bytes. read_file fs f = Some bytes \<and> \<not> narrow fs f \<and>
           (case parse lib bytes of
              None \<Rightarrow> True
            | Some doc \<Rightarrow> \<not> (is_object doc \<and> (\<exists>i. map_of (members doc) ''id'' = Some (JString i))))))))"
proof -
  have throws: "(\<exists>e. ParseProfileFile lib fs f = Inl e) \<longleftrightarrow>
      (\<exists>bytes doc. read_file fs f = Some bytes \<and> parse lib bytes = Some doc \<and> (\<exists>e. profile_of_json doc = Inl e)) \<or>
      (\<exists>bytes. read_file fs f = Some bytes \<and> \<not> narrow fs f \<and>
         (case parse lib bytes of None \<Rightarrow> True | Some doc \<Rightarrow> profile_of_json doc = Inr None))" for f
    by (auto simp: ParseProfileFile_def warn_skipped_def split: option.splits sum.splits)
  have "(\<exists>e. store_List lib fs = Inl e) \<longleftrightarrow>
      can_list fs \<and> ((\<exists>n. enum_fault fs = Some n) \<or> (\<exists>e. parse_files lib fs (dir_files fs) = Inl e))"
    by (auto simp: store_List_def split: sum.splits option.splits)
  then show ?thesis
    unfolding parse_files_throws throws profile_of_json_throws profile_of_json_skips by blast
qed

section \<open>Seeding\<close>

lemma parse_files_filter: "parse_files lib fs files = parse_files lib fs (filter is_profile_file files)"
  by (induction files) (auto split: sum.splits)

lemma parse_files_saved:
  assumes "\<forall>p \<in> set ps. is_profile_file (prof_id p @ ''.json'') \<and>
      ParseProfileFile lib fs (prof_id p @ ''.json'') = Inr (Some p)"
  shows "parse_files lib fs (map (\<lambda>p. prof_id p @ ''.json'') ps) = Inr ps"
  using assms by (induction ps) auto

text \<open>The file a profile is saved to, and saving a list of new profiles.\<close>

definition saved_entry :: "'b json_library \<Rightarrow> profile \<Rightarrow> string \<times> 'b" where
  "saved_entry lib p = (prof_id p @ ''.json'', the (dump lib (json_of_profile p)))"

lemma store_Save_fresh:
  assumes "fs_healthy fs" and "dump lib (json_of_profile p) \<noteq> None"
    and "lookup fs (prof_id p @ ''.json'') = None" and "lookup fs (prof_id p @ ''.json.tmp'') = None"
    and "store_Save lib no_bytes fs p = (r, fs')"
  shows "r = Inr True" "fs_healthy fs'" "canon fs' = canon fs"
    "entries fs' = entries fs @ [saved_entry lib p]"
proof -
  obtain b where b: "dump lib (json_of_profile p) = Some b" using assms(2) by blast
  note save = store_Save_healthy [OF assms(1) b, of no_bytes]
  show "r = Inr True" "canon fs' = canon fs" using save assms(5) by auto
  show "fs_healthy fs'" using save assms(5) replace_file(2) [OF assms(1)] by auto
  show "entries fs' = entries fs @ [saved_entry lib p]"
    using save assms(5) b entries_replace_fresh [OF assms(1,4,3)] by (auto simp: saved_entry_def)
qed

lemma save_all_fresh:
  assumes "fs_healthy fs" and "\<forall>p \<in> set ps. dump lib (json_of_profile p) \<noteq> None"
    and "\<forall>p \<in> set ps. lookup fs (prof_id p @ ''.json'') = None \<and> lookup fs (prof_id p @ ''.json.tmp'') = None"
    and "distinct (map (\<lambda>p. canon fs (prof_id p @ ''.json'')) ps)"
  shows "\<exists>fs'. save_all lib no_bytes fs ps = (Inr (), fs') \<and> fs_healthy fs' \<and> canon fs' = canon fs \<and>
    entries fs' = entries fs @ map (saved_entry lib) ps"
  using assms
proof (induction ps arbitrary: fs)
  case Nil
  then show ?case by simp
next
  case (Cons p ps)
  obtain r fs1 where sv: "store_Save lib no_bytes fs p = (r, fs1)" by fastforce
  note one = store_Save_fresh [OF Cons.prems(1) _ _ _ sv]
  have f: "r = Inr True" "fs_healthy fs1" "canon fs1 = canon fs"
    "entries fs1 = entries fs @ [saved_entry lib p]"
    using one Cons.prems(2,3) by simp_all
  have "lookup fs1 (prof_id q @ ''.json'') = None \<and> lookup fs1 (prof_id q @ ''.json.tmp'') = None"
    if q: "q \<in> set ps" for q
  proof -
    have "canon fs (prof_id p @ ''.json'') \<noteq> canon fs (prof_id q @ ''.json'')"
      using Cons.prems(4) q by auto
    moreover have "canon fs (prof_id p @ ''.json'') \<noteq> canon fs (prof_id q @ ''.json.tmp'')"
      using Cons.prems(1) unfolding fs_healthy_def by metis
    ultimately show ?thesis
      using Cons.prems(3) q by (auto simp: lookup_None f saved_entry_def)
  qed
  then obtain fs' where "save_all lib no_bytes fs1 ps = (Inr (), fs')" "fs_healthy fs'"
    "canon fs' = canon fs1" "entries fs' = entries fs1 @ map (saved_entry lib) ps"
    using Cons.IH [of fs1] Cons.prems(2,4) f by auto
  then show ?case using sv f by simp
qed

lemma default_profiles_facts:
  "p \<in> set default_profiles \<Longrightarrow> is_profile_file (prof_id p @ ''.json'') \<and> smap_ok (prof_settings p)"
  by (auto simp: default_profiles_def is_profile_file_def extension_def)

text \<open>
  On an empty healthy disk \<open>EnsureDefaults\<close> seeds the three built-in profiles and
  makes \<open>balanced\<close> active; a later call changes nothing.
\<close>

theorem ensure_defaults_seeds:
  assumes "json_library_ok lib" and "fs_healthy fs" and "entries fs = []"
    and "distinct (map (canon fs) [''balanced.json'', ''performance.json'', ''powersaver.json'', ''active.json''])"
    and "store_EnsureDefaults lib no_bytes fs = (r, fs')"
  shows "r = Inr () \<and> store_List lib fs' = Inr default_profiles \<and>
    store_ActiveId lib fs' = ''balanced'' \<and>
    store_EnsureDefaults lib no_bytes fs' = (Inr (), fs')"
proof -
  have empty: "store_List lib fs = Inr []" by (simp add: store_List_healthy [OF assms(2)] dir_files_def assms(3))
  have dumps: "\<exists>b. dump lib (json_of_profile p) = Some b" if "p \<in> set default_profiles" for p
    using dump_utf8 [OF assms(1), of "json_of_profile p"] default_profiles_utf8 [OF that] by (metis json_of_profile_utf8)
  have names: "map (\<lambda>p. prof_id p @ ''.json'') default_profiles =
      [''balanced.json'', ''performance.json'', ''powersaver.json'']"
    by (simp add: default_profiles_def)
  have d: "distinct (map (\<lambda>p. canon fs (prof_id p @ ''.json'')) default_profiles)"
    using assms(4) by (simp add: default_profiles_def)
  obtain fs1 where sv: "save_all lib no_bytes fs default_profiles = (Inr (), fs1)"
    and h1: "fs_healthy fs1" and c1: "canon fs1 = canon fs"
    and e1: "entries fs1 = map (saved_entry lib) default_profiles"
    using save_all_fresh [OF assms(2) _ _ d, of lib no_bytes] dumps assms(3) by (fastforce simp: lookup_None)
  have noact: "lookup fs1 ''active.json'' = None"
    using assms(4) by (auto simp: lookup_None c1 e1 default_profiles_def saved_entry_def)
  have notmp: "lookup fs1 ''active.json.tmp'' = None"
  proof -
    have "canon fs (prof_id p @ ''.json'') \<noteq> canon fs (''active'' @ ''.json.tmp'')" for p
      using assms(2) unfolding fs_healthy_def by metis
    then have "canon fs (prof_id p @ ''.json'') \<noteq> canon fs ''active.json.tmp''" for p by simp
    then show ?thesis by (auto simp: lookup_None c1 e1 saved_entry_def)
  qed
  have act1: "store_ActiveId lib fs1 = ''''" by (simp add: store_ActiveId_def read_file_def noact)
  obtain b where b: "dump lib (JObject [(''active'', JString ''balanced'')]) = Some b"
    using dump_utf8 [OF assms(1), of "JObject [(''active'', JString ''balanced'')]"] by (auto simp: utf8_balanced)
  have r: "r = Inr ()" and fs': "store_SetActiveId lib no_bytes fs1 ''balanced'' = (Inr (), fs')"
    using assms(5) empty sv act1 b h1
    by (auto simp: store_EnsureDefaults_def store_SetActiveId_def fs_healthy_def)
  have fs'_def: "fs' = snd (rename_file (write_file fs1 ''active.json.tmp'' b) ''active.json.tmp'' ''active.json'')"
    using fs' b h1 by (auto simp: store_SetActiveId_def fs_healthy_def)
  have e': "entries fs' = entries fs1 @ [(''active.json'', b)]"
    using entries_replace_fresh [OF h1, of "''active''" b] noact notmp by (simp add: fs'_def)
  have h': "fs_healthy fs'" using h1 by (simp add: fs'_def)
  have c': "canon fs' = canon fs" by (simp add: fs'_def c1)
  have active: "store_ActiveId lib fs' = ''balanced''"
    using parse_dumped [OF assms(1) active_regular b] h' by (simp add: store_ActiveId_def read_file_def fs_healthy_def
        fs'_def replace_file(3) [OF h1, of "''active''", simplified])
  have ok': "fs_ok fs'"
    using assms(4) by (auto simp: fs_ok_def c' e' e1 default_profiles_def saved_entry_def)
  have "ParseProfileFile lib fs' (prof_id p @ ''.json'') = Inr (Some p)" if p: "p \<in> set default_profiles" for p
  proof -
    obtain bp where bp: "dump lib (json_of_profile p) = Some bp" using dumps [OF p] by blast
    have "lookup fs' (prof_id p @ ''.json'') = Some bp"
      using p bp by (intro lookup_entry [OF ok']) (force simp: e' e1 saved_entry_def)
    then show ?thesis
      using ParseProfileFile_saved [OF assms(1) h' _ bp] default_profiles_facts [OF p] by blast
  qed
  then have "parse_files lib fs' (map (\<lambda>p. prof_id p @ ''.json'') default_profiles) = Inr default_profiles"
    using default_profiles_facts by (intro parse_files_saved) blast
  moreover have "filter is_profile_file (dir_files fs') = map (\<lambda>p. prof_id p @ ''.json'') default_profiles"
    unfolding names by (simp add: dir_files_def in_directory_def e' e1 default_profiles_def saved_entry_def is_profile_file_def extension_def)
  ultimately have "parse_files lib fs' (dir_files fs') = Inr default_profiles"
    using parse_files_filter by metis
  then have list: "store_List lib fs' = Inr default_profiles"
    by (simp add: store_List_healthy [OF h']) (simp add: default_profiles_def)
  then have "store_EnsureDefaults lib no_bytes fs' = (Inr (), fs')"
    by (simp add: store_EnsureDefaults_def) (simp add: default_profiles_def)
  with r list active show ?thesis by blast
qed

theorem ensure_defaults_seeds_witness:
  "store_List identity_json (snd (store_EnsureDefaults identity_json JNull (plain_disk []))) = Inr default_profiles"
  using ensure_defaults_seeds [OF identity_json_ok plain_disk_healthy, of "[]" JNull]
  by (simp add: plain_disk_def prod_eq_iff)

theorem list_sorted_and_complete_witness:
  "\<exists>ps. store_List identity_json (plain_disk [(''b.json'', json_of_profile (hd default_profiles))]) = Inr ps \<and>
     sorted (map prof_id ps)"
proof -
  have "store_List identity_json (plain_disk [(''b.json'', json_of_profile (hd default_profiles))]) =
      Inr [hd default_profiles]"
    by (simp add: store_List_def dir_files_def in_directory_def plain_disk_def is_profile_file_def extension_def ParseProfileFile_def
        read_file_def lookup_def identity_json_def)
      (simp add: default_profiles_def profile_of_json_def json_of_profile_def read_settings_def)
  moreover have "can_list (plain_disk es)" for es :: "(string \<times> json) list" by (simp add: plain_disk_def)
  ultimately show ?thesis using list_sorted_and_complete by blast
qed

end
