(* ===== verification/Executor.thy ===== *)
theory Executor
  imports Prelude
begin

text \<open>
  \<open>plugins/executors/executor.h\<close>: the executor plugin interface, as the record of its
  virtual functions over a state \<open>'e\<close> of the operating system, and the contract the
  snapshot/rollback transaction of the profile manager needs of a plugin.
\<close>

record apply_result =
  ar_ok :: bool
  ar_message :: string

record 'e executor =
  Key :: string
  Available :: "'e \<Rightarrow> bool"
  CurrentValue :: "'e \<Rightarrow> string"
  Apply :: "string \<Rightarrow> 'e \<Rightarrow> apply_result \<times> 'e"

abbreviation applied_ok :: "'e executor \<Rightarrow> string \<Rightarrow> 'e \<Rightarrow> bool" where
  "applied_ok ex d e \<equiv> ar_ok (fst (Apply ex d e))"

abbreviation after_apply :: "'e executor \<Rightarrow> string \<Rightarrow> 'e \<Rightarrow> 'e" where
  "after_apply ex d e \<equiv> snd (Apply ex d e)"

text \<open>
  On the states \<open>P\<close>, which it does not leave, a plugin is transactional if a refused value
  changes nothing and the value read before a successful change undoes the change.
\<close>

definition transactional :: "('e \<Rightarrow> bool) \<Rightarrow> 'e executor \<Rightarrow> bool" where
  "transactional P ex \<longleftrightarrow> (\<forall>d e. P e \<longrightarrow>
     P (after_apply ex d e) \<and>
     (\<not> applied_ok ex d e \<longrightarrow> after_apply ex d e = e) \<and>
     (Available ex e \<and> applied_ok ex d e \<longrightarrow>
        after_apply ex (CurrentValue ex e) (after_apply ex d e) = e))"

lemma transactionalD:
  assumes "transactional P ex" and "P e"
  shows "P (after_apply ex d e)"
    and "\<not> applied_ok ex d e \<Longrightarrow> after_apply ex d e = e"
    and "Available ex e \<Longrightarrow> applied_ok ex d e \<Longrightarrow>
      after_apply ex (CurrentValue ex e) (after_apply ex d e) = e"
  using assms by (simp_all add: transactional_def)

text \<open>
  What a plugin over an operating system interface \<open>'api\<close> provides: under its assumption
  \<open>api_ok\<close> on that interface it is transactional.
\<close>

locale executor_plugin =
  fixes make :: "'api \<Rightarrow> 'e executor"
    and key :: string
    and api_ok :: "'api \<Rightarrow> ('e \<Rightarrow> bool) \<Rightarrow> bool"
  assumes key_make: "Key (make api) = key"
    and refused_unchanged: "api_ok api P \<Longrightarrow> P e \<Longrightarrow> \<not> applied_ok (make api) d e \<Longrightarrow>
      after_apply (make api) d e = e"
    and keeps: "api_ok api P \<Longrightarrow> P e \<Longrightarrow> P (after_apply (make api) d e)"
    and undo: "api_ok api P \<Longrightarrow> P e \<Longrightarrow> Available (make api) e \<Longrightarrow> applied_ok (make api) d e \<Longrightarrow>
      after_apply (make api) (CurrentValue (make api) e) (after_apply (make api) d e) = e"
begin

lemma transactional_make: "api_ok api P \<Longrightarrow> transactional P (make api)"
  by (simp add: transactional_def refused_unchanged keeps undo)

end

end
