(* ===== verification/Power_Plan.thy ===== *)
theory Power_Plan
  imports Executor Text
begin

text \<open>
  \<open>plugins/executors/power_plan_executor.cpp\<close>: the Windows power plan as a profile
  setting, by alias or by scheme GUID. The calls \<open>PowerGetActiveScheme\<close> and
  \<open>PowerSetActiveScheme\<close> of powrprof are parameters.
\<close>

section \<open>GUIDs\<close>

record guid =
  Data1 :: u32
  Data2 :: u16
  Data3 :: u16
  Data4 :: "u8 list"

text \<open>\<open>Data4\<close> is an array of eight bytes.\<close>

definition guid_ok :: "guid \<Rightarrow> bool" where
  "guid_ok g \<longleftrightarrow> length (Data4 g) = 8"

definition kBalanced :: guid where
  "kBalanced = \<lparr>Data1 = 0x381b4222, Data2 = 0xf694, Data3 = 0x41f0,
     Data4 = [0x96, 0x85, 0xff, 0x5b, 0xb2, 0x60, 0xdf, 0x2e]\<rparr>"

definition kHighPerformance :: guid where
  "kHighPerformance = \<lparr>Data1 = 0x8c5e7fda, Data2 = 0xe8bf, Data3 = 0x4a96,
     Data4 = [0x9a, 0x85, 0xa6, 0xe2, 0x3a, 0x8c, 0x63, 0x5c]\<rparr>"

definition kPowerSaver :: guid where
  "kPowerSaver = \<lparr>Data1 = 0xa1841308, Data2 = 0x3541, Data3 = 0x4fab,
     Data4 = [0xbc, 0x81, 0xf7, 0x15, 0x56, 0xf2, 0x0b, 0x4a]\<rparr>"

definition GuidToString :: "guid \<Rightarrow> string" where
  "GuidToString g =
     print_hex 8 (unat (Data1 g)) @ ''-'' @ print_hex 4 (unat (Data2 g)) @ ''-'' @
     print_hex 4 (unat (Data3 g)) @ ''-'' @
     print_hex 2 (unat (Data4 g ! 0)) @ print_hex 2 (unat (Data4 g ! 1)) @ ''-'' @
     print_hex 2 (unat (Data4 g ! 2)) @ print_hex 2 (unat (Data4 g ! 3)) @
     print_hex 2 (unat (Data4 g ! 4)) @ print_hex 2 (unat (Data4 g ! 5)) @
     print_hex 2 (unat (Data4 g ! 6)) @ print_hex 2 (unat (Data4 g ! 7))"

definition guid_format :: "directive list" where
  "guid_format = [Hex 8, Lit CHR ''-'', Hex 4, Lit CHR ''-'', Hex 4, Lit CHR ''-'', Hex 2, Hex 2,
     Lit CHR ''-'', Hex 2, Hex 2, Hex 2, Hex 2, Hex 2, Hex 2]"

definition ParseGuid :: "string \<Rightarrow> guid option" where
  "ParseGuid text =
     (let vs = sscanf guid_format text
      in if length vs \<noteq> 11 then None
         else Some \<lparr>Data1 = vs ! 0, Data2 = ucast (vs ! 1), Data3 = ucast (vs ! 2),
                    Data4 = map ucast (drop 3 vs)\<rparr>)"

definition AliasToGuid :: "string \<Rightarrow> guid option" where
  "AliasToGuid alias =
     (if alias = ''balanced'' then Some kBalanced
      else if alias = ''high'' then Some kHighPerformance
      else if alias = ''saver'' then Some kPowerSaver
      else None)"

definition GuidToAlias :: "guid \<Rightarrow> string" where
  "GuidToAlias g =
     (if g = kBalanced then ''balanced''
      else if g = kHighPerformance then ''high''
      else if g = kPowerSaver then ''saver''
      else GuidToString g)"

section \<open>The executor\<close>

record 'e power_api =
  PowerGetActiveScheme :: "'e \<Rightarrow> guid option"   \<comment> \<open>\<open>None\<close>: an error code or a null pointer\<close>
  PowerSetActiveScheme :: "guid \<Rightarrow> 'e \<Rightarrow> u32 \<times> 'e"

definition power_CurrentValue :: "'e power_api \<Rightarrow> 'e \<Rightarrow> string" where
  "power_CurrentValue api e =
     (case PowerGetActiveScheme api e of None \<Rightarrow> '''' | Some active \<Rightarrow> GuidToAlias active)"

definition power_Apply :: "'e power_api \<Rightarrow> string \<Rightarrow> 'e \<Rightarrow> apply_result \<times> 'e" where
  "power_Apply api desired e =
     (case (case AliasToGuid desired of Some g \<Rightarrow> Some g | None \<Rightarrow> ParseGuid desired) of
        None \<Rightarrow> (\<lparr>ar_ok = False, ar_message = ''unknown power plan: '' @ desired\<rparr>, e)
      | Some g \<Rightarrow>
          (let (rc, e') = PowerSetActiveScheme api g e
           in if rc \<noteq> 0
              then (\<lparr>ar_ok = False, ar_message = ''PowerSetActiveScheme failed rc='' @ to_string (uint rc)\<rparr>, e')
              else (\<lparr>ar_ok = True, ar_message = ''power plan -> '' @ desired\<rparr>, e')))"

definition PowerPlanExecutor :: "'e power_api \<Rightarrow> 'e executor" where
  "PowerPlanExecutor api =
     \<lparr>Key = ''power.plan'', Available = (\<lambda>_. True),
      CurrentValue = power_CurrentValue api, Apply = power_Apply api\<rparr>"

section \<open>Round trips\<close>

lemma scan_print_word8:
  fixes b :: u8
  shows "scan_hex 2 (print_hex 2 (unat b) @ rest) = Some (word_of_nat (unat b), rest)"
  using scan_hex_print [of "unat b" 2 rest] unsigned_less [where ?'a = nat, of b] by simp

lemma scan_print_word16:
  fixes w :: u16
  shows "scan_hex 4 (print_hex 4 (unat w) @ rest) = Some (word_of_nat (unat w), rest)"
  using scan_hex_print [of "unat w" 4 rest] unsigned_less [where ?'a = nat, of w] by simp

lemma scan_print_word32:
  fixes w :: u32
  shows "scan_hex 8 (print_hex 8 (unat w) @ rest) = Some (w, rest)"
  using scan_hex_print [of "unat w" 8 rest] unsigned_less [where ?'a = nat, of w] by simp

lemma ucast_ucast8: "ucast (ucast (b::u8) :: u32) = b"
  by transfer simp

lemma ucast_ucast16: "ucast (ucast (b::u16) :: u32) = b"
  by transfer simp

lemma list8: "length xs = 8 \<Longrightarrow> xs = [xs ! 0, xs ! 1, xs ! 2, xs ! 3, xs ! 4, xs ! 5, xs ! 6, xs ! 7]"
  by (rule nth_equalityI) (auto simp: less_Suc_eq numeral_eq_Suc)

lemma sscanf_GuidToString:
  "sscanf guid_format (GuidToString g @ rest) =
     [Data1 g, word_of_nat (unat (Data2 g)), word_of_nat (unat (Data3 g)),
      word_of_nat (unat (Data4 g ! 0)), word_of_nat (unat (Data4 g ! 1)),
      word_of_nat (unat (Data4 g ! 2)), word_of_nat (unat (Data4 g ! 3)),
      word_of_nat (unat (Data4 g ! 4)), word_of_nat (unat (Data4 g ! 5)),
      word_of_nat (unat (Data4 g ! 6)), word_of_nat (unat (Data4 g ! 7))]"
  by (simp add: guid_format_def GuidToString_def scan_print_word8 scan_print_word16 scan_print_word32)

lemma ParseGuid_GuidToString:
  assumes "guid_ok g"
  shows "ParseGuid (GuidToString g @ rest) = Some g"
proof -
  have "Data4 g = [Data4 g ! 0, Data4 g ! 1, Data4 g ! 2, Data4 g ! 3,
      Data4 g ! 4, Data4 g ! 5, Data4 g ! 6, Data4 g ! 7]"
    using assms by (intro list8) (simp add: guid_ok_def)
  then obtain b0 b1 b2 b3 b4 b5 b6 b7 where "Data4 g = [b0, b1, b2, b3, b4, b5, b6, b7]" by blast
  then show ?thesis
    by (cases g) (simp add: ParseGuid_def sscanf_GuidToString ucast_ucast8 ucast_ucast16)
qed

text \<open>
  C37: every GUID is recovered from its printed form by the scanner, even when other text
  follows it (the scanner does not look past the last field).
\<close>

theorem parse_printed_guid:
  assumes "guid_ok g"
  shows "ParseGuid (GuidToString g @ rest) = Some g"
  by (rule ParseGuid_GuidToString [OF assms])

theorem parse_printed_guid_witness:
  "ParseGuid (GuidToString kPowerSaver @ ''}'') = Some kPowerSaver"
  by (rule parse_printed_guid) (simp add: guid_ok_def kPowerSaver_def)

lemma length_GuidToString: "length (GuidToString g) = 36"
proof -
  have "length (print_hex 2 (unat b)) = 2" for b :: u8
    using unsigned_less [where ?'a = nat, of b] by (intro length_print_hex) simp_all
  moreover have "length (print_hex 4 (unat w)) = 4" for w :: u16
    using unsigned_less [where ?'a = nat, of w] by (intro length_print_hex) simp_all
  moreover have "length (print_hex 8 (unat w)) = 8" for w :: u32
    using unsigned_less [where ?'a = nat, of w] by (intro length_print_hex) simp_all
  ultimately show ?thesis by (simp add: GuidToString_def)
qed

text \<open>The value \<open>CurrentValue\<close> reports denotes the active scheme when it is applied.\<close>

definition desired_guid :: "string \<Rightarrow> guid option" where
  "desired_guid desired = (case AliasToGuid desired of Some g \<Rightarrow> Some g | None \<Rightarrow> ParseGuid desired)"

lemma desired_guid_alias:
  assumes "guid_ok g"
  shows "desired_guid (GuidToAlias g) = Some g"
proof (cases "g \<in> {kBalanced, kHighPerformance, kPowerSaver}")
  case True
  then show ?thesis
    by (auto simp: desired_guid_def GuidToAlias_def AliasToGuid_def)
next
  case False
  have "GuidToString g \<noteq> ''balanced''" "GuidToString g \<noteq> ''high''" "GuidToString g \<noteq> ''saver''"
    using length_GuidToString [of g] by auto
  with False show ?thesis
    using ParseGuid_GuidToString [OF assms, of "[]"]
    by (simp add: desired_guid_def GuidToAlias_def AliasToGuid_def)
qed

lemma power_Apply_eq:
  "power_Apply api desired e =
     (case desired_guid desired of
        None \<Rightarrow> (\<lparr>ar_ok = False, ar_message = ''unknown power plan: '' @ desired\<rparr>, e)
      | Some g \<Rightarrow>
          (let (rc, e') = PowerSetActiveScheme api g e
           in if rc \<noteq> 0
              then (\<lparr>ar_ok = False, ar_message = ''PowerSetActiveScheme failed rc='' @ to_string (uint rc)\<rparr>, e')
              else (\<lparr>ar_ok = True, ar_message = ''power plan -> '' @ desired\<rparr>, e')))"
  by (simp add: power_Apply_def desired_guid_def)

section \<open>The plugin contract\<close>

text \<open>
  The documented behaviour of powrprof on the states \<open>P\<close>: there is an active scheme, a
  refused change leaves everything as it was, and activating the scheme that was active
  before a successful change succeeds and brings the previous state back.
\<close>

definition power_api_ok :: "'e power_api \<Rightarrow> ('e \<Rightarrow> bool) \<Rightarrow> bool" where
  "power_api_ok api P \<longleftrightarrow>
     (\<forall>e. P e \<longrightarrow> (\<exists>g. PowerGetActiveScheme api e = Some g \<and> guid_ok g)) \<and>
     (\<forall>e g. P e \<longrightarrow> P (snd (PowerSetActiveScheme api g e))) \<and>
     (\<forall>e g. P e \<longrightarrow> fst (PowerSetActiveScheme api g e) \<noteq> 0 \<longrightarrow> snd (PowerSetActiveScheme api g e) = e) \<and>
     (\<forall>e g g'. P e \<longrightarrow> PowerGetActiveScheme api e = Some g' \<longrightarrow> fst (PowerSetActiveScheme api g e) = 0 \<longrightarrow>
        PowerSetActiveScheme api g' (snd (PowerSetActiveScheme api g e)) = (0, e))"

interpretation power: executor_plugin PowerPlanExecutor "''power.plan''" power_api_ok
proof
  fix api :: "'e power_api" and P e d
  assume ok: "power_api_ok api P" and P: "P e"
  show "P (after_apply (PowerPlanExecutor api) d e)"
    using ok P by (auto simp: PowerPlanExecutor_def power_Apply_eq power_api_ok_def split_beta Let_def
        split: option.splits)
  show "after_apply (PowerPlanExecutor api) d e = e"
    if "\<not> applied_ok (PowerPlanExecutor api) d e"
    using ok P that by (auto simp: PowerPlanExecutor_def power_Apply_eq power_api_ok_def split_beta Let_def
        split: option.splits if_splits)
  show "after_apply (PowerPlanExecutor api) (CurrentValue (PowerPlanExecutor api) e)
      (after_apply (PowerPlanExecutor api) d e) = e"
    if applied: "applied_ok (PowerPlanExecutor api) d e"
  proof -
    obtain g' where g': "PowerGetActiveScheme api e = Some g'" "guid_ok g'"
      using ok P by (auto simp: power_api_ok_def)
    obtain g where g: "desired_guid d = Some g" "fst (PowerSetActiveScheme api g e) = 0"
      using applied by (auto simp: PowerPlanExecutor_def power_Apply_eq split_beta Let_def
          split: option.splits if_splits)
    have "PowerSetActiveScheme api g' (snd (PowerSetActiveScheme api g e)) = (0, e)"
      using ok P g' g by (simp add: power_api_ok_def)
    then show ?thesis
      using g g' by (simp add: PowerPlanExecutor_def power_Apply_eq power_CurrentValue_def
          desired_guid_alias split_beta Let_def)
  qed
qed (simp add: PowerPlanExecutor_def)

end
