(* ===== verification/Handles.thy ===== *)
theory Handles
  imports Prelude
begin

text \<open>
  The discipline of system handles and COM references: what a call opens, uses and closes,
  as the sequence of these actions in program order. The model of a call gives its trace;
  an action on a handle that is not open has no result, like closing one twice. The locale
  states the contract of an operation with several exits (whatever happens, it closes
  exactly what it opened) and concludes that any sequence of its calls leaves nothing open.
\<close>

section \<open>Traces\<close>

datatype 'h handle_action = Acquire 'h | Use 'h | Release 'h

fun handles_run :: "'h handle_action list \<Rightarrow> 'h set \<Rightarrow> 'h set option" where
  "handles_run [] opened = Some opened"
| "handles_run (Acquire h # tr) opened = (if h \<in> opened then None else handles_run tr (insert h opened))"
| "handles_run (Use h # tr) opened = (if h \<in> opened then handles_run tr opened else None)"
| "handles_run (Release h # tr) opened = (if h \<in> opened then handles_run tr (opened - {h}) else None)"

text \<open>Started with nothing open, the trace runs through and ends with nothing open.\<close>

definition leak_free :: "'h handle_action list \<Rightarrow> bool" where
  "leak_free tr \<longleftrightarrow> handles_run tr {} = Some {}"

lemma handles_run_append: "handles_run (a @ b) opened = Option.bind (handles_run a opened) (handles_run b)"
  by (induction a opened rule: handles_run.induct) simp_all

lemma handles_run_acquire_all:
  "distinct hs \<Longrightarrow> set hs \<inter> opened = {} \<Longrightarrow> handles_run (map Acquire hs @ tr) opened = handles_run tr (set hs \<union> opened)"
  by (induction hs arbitrary: opened) (simp_all add: insert_commute)

lemma handles_run_use_all: "set us \<subseteq> opened \<Longrightarrow> handles_run (map Use us @ tr) opened = handles_run tr opened"
  by (induction us) simp_all

lemma handles_run_release_all:
  "distinct hs \<Longrightarrow> set hs \<subseteq> opened \<Longrightarrow> handles_run (map Release hs @ tr) opened = handles_run tr (opened - set hs)"
proof (induction hs arbitrary: opened)
  case (Cons h hs)
  then have "set hs \<subseteq> opened - {h}" by auto
  moreover have "opened - {h} - set hs = opened - set (h # hs)" by auto
  ultimately show ?case using Cons by simp
qed simp

text \<open>A bracketed sequence that uses a handle and opens and closes another one in every round.\<close>

lemma handles_run_rounds:
  assumes "\<And>x. x \<in> set xs \<Longrightarrow> handles_run (f x) opened = Some opened"
  shows "handles_run (concat (map f xs) @ tr) opened = handles_run tr opened"
  using assms by (induction xs) (simp_all add: handles_run_append)

section \<open>Scopes\<close>

text \<open>The trace of an object that opens \<open>hs\<close>, is used and closes them when it is destroyed.\<close>

definition scope :: "'h list \<Rightarrow> 'h list \<Rightarrow> 'h handle_action list" where
  "scope hs us = map Acquire hs @ map Use us @ map Release hs"

lemma leak_free_scope:
  assumes "distinct hs" and "set us \<subseteq> set hs"
  shows "leak_free (scope hs us)"
  using handles_run_acquire_all [OF assms(1), of "{}"] handles_run_use_all [of us "set hs"]
    handles_run_release_all [OF assms(1), of "set hs" "[]"] assms(2)
  by (simp add: leak_free_def scope_def)

section \<open>The contract\<close>

locale closes_what_it_opens =
  fixes trace :: "'a \<Rightarrow> 'h handle_action list"
    and answers_ok :: "'a \<Rightarrow> bool"
  assumes trace_leak_free: "answers_ok a \<Longrightarrow> leak_free (trace a)"
begin

lemma calls_leak_free: "\<forall>a \<in> set as. answers_ok a \<Longrightarrow> leak_free (concat (map trace as))"
proof -
  assume ok: "\<forall>a \<in> set as. answers_ok a"
  have "handles_run (concat (map trace as) @ []) {} = handles_run [] {}"
    using ok trace_leak_free by (intro handles_run_rounds) (simp add: leak_free_def)
  then show ?thesis by (simp add: leak_free_def)
qed

end

end
