(* ===== verification/Brightness.thy ===== *)
theory Brightness
  imports Executor Text Handles
begin

text \<open>
  \<open>plugins/executors/brightness_executor.cpp\<close>: monitor brightness over DDC/CI. Display and
  physical monitor enumeration and the brightness calls of dxva2 are parameters; a call
  that changes the state of a monitor returns the new state of the system. Opening and
  closing the monitor handles is a trace of its own.
\<close>

section \<open>Model\<close>

record ('h, 'm, 'e) monitor_api =
  EnumDisplayMonitors :: "'e \<Rightarrow> 'h list"
  GetNumberOfPhysicalMonitors :: "'h \<Rightarrow> 'e \<Rightarrow> nat option"  \<comment> \<open>\<open>None\<close>: the call failed\<close>
  GetPhysicalMonitors :: "'h \<Rightarrow> nat \<Rightarrow> 'e \<Rightarrow> 'm list option"
  GetMonitorBrightness :: "'m \<Rightarrow> 'e \<Rightarrow> (u32 \<times> u32 \<times> u32) option"  \<comment> \<open>minimum, current, maximum\<close>
  SetMonitorBrightness :: "'m \<Rightarrow> u32 \<Rightarrow> 'e \<Rightarrow> bool \<times> 'e"

definition EnumMonitorCallback :: "('h, 'm, 'e) monitor_api \<Rightarrow> 'e \<Rightarrow> 'h \<Rightarrow> 'm list" where
  "EnumMonitorCallback api e h =
     (case GetNumberOfPhysicalMonitors api h e of
        None \<Rightarrow> []
      | Some c \<Rightarrow>
          if c = 0 then []
          else (case GetPhysicalMonitors api h c e of None \<Rightarrow> [] | Some batch \<Rightarrow> batch))"

definition Enumerate :: "('h, 'm, 'e) monitor_api \<Rightarrow> 'e \<Rightarrow> 'm list" where
  "Enumerate api e = concat (map (EnumMonitorCallback api e) (EnumDisplayMonitors api e))"

definition brightness_Available :: "('h, 'm, 'e) monitor_api \<Rightarrow> 'e \<Rightarrow> bool" where
  "brightness_Available api e \<longleftrightarrow> list_ex (\<lambda>m. GetMonitorBrightness api m e \<noteq> None) (Enumerate api e)"

fun first_brightness :: "('h, 'm, 'e) monitor_api \<Rightarrow> 'e \<Rightarrow> 'm list \<Rightarrow> string" where
  "first_brightness api e [] = ''''"
| "first_brightness api e (m # ms) =
     (case GetMonitorBrightness api m e of
        Some (mn, cur, mx) \<Rightarrow> to_string (uint cur)
      | None \<Rightarrow> first_brightness api e ms)"

definition brightness_CurrentValue :: "('h, 'm, 'e) monitor_api \<Rightarrow> 'e \<Rightarrow> string" where
  "brightness_CurrentValue api e = first_brightness api e (Enumerate api e)"

text \<open>The loop over the monitors: how many accepted the value, and the resulting state.\<close>

fun set_brightness :: "('h, 'm, 'e) monitor_api \<Rightarrow> u32 \<Rightarrow> 'm list \<Rightarrow> 'e \<Rightarrow> nat \<times> 'e" where
  "set_brightness api v [] e = (0, e)"
| "set_brightness api v (m # ms) e =
     (let (ok, e1) = SetMonitorBrightness api m v e;
          (n, e2) = set_brightness api v ms e1
      in ((if ok then Suc n else n), e2))"

definition brightness_Apply :: "('h, 'm, 'e) monitor_api \<Rightarrow> string \<Rightarrow> 'e \<Rightarrow> apply_result \<times> 'e" where
  "brightness_Apply api desired e =
     (let v = atoi desired
      in if v < 0 \<or> 100 < v then (\<lparr>ar_ok = False, ar_message = ''brightness out of range: '' @ desired\<rparr>, e)
         else
           (let (applied, e') = set_brightness api (as_u32 v) (Enumerate api e) e
            in if applied = 0
               then (\<lparr>ar_ok = False, ar_message = ''no monitor accepted DDC/CI brightness''\<rparr>, e')
               else (\<lparr>ar_ok = True, ar_message = ''brightness -> '' @ desired @ '' on '' @
                        to_string (int applied) @ '' monitor(s)''\<rparr>, e')))"

definition BrightnessExecutor :: "('h, 'm, 'e) monitor_api \<Rightarrow> 'e executor" where
  "BrightnessExecutor api =
     \<lparr>Key = ''display.brightness'', Available = brightness_Available api,
      CurrentValue = brightness_CurrentValue api, Apply = brightness_Apply api\<rparr>"

section \<open>The monitor handles\<close>

text \<open>
  \<open>Enumerate\<close> returns its local \<open>PhysicalMonitors\<close> by value. If the compiler elides the copy
  (which it may but need not do for a named object) there is one object, destroyed by the
  caller; otherwise the caller has a copy, since a class with a destructor has no implicit
  move constructor, and the local's destructor has closed the handles before it is used.
\<close>

definition monitors_scope :: "bool \<Rightarrow> 'm list \<Rightarrow> 'm list \<Rightarrow> 'm handle_action list" where
  "monitors_scope elided hs us =
     map Acquire hs @ (if elided then [] else map Release hs) @ map Use us @ map Release hs"

text \<open>The monitors the two queries ask, up to the first that answers.\<close>

fun asked :: "('h, 'm, 'e) monitor_api \<Rightarrow> 'e \<Rightarrow> 'm list \<Rightarrow> 'm list" where
  "asked api e [] = []"
| "asked api e (m # ms) = m # (if GetMonitorBrightness api m e \<noteq> None then [] else asked api e ms)"

datatype brightness_call = Call_Available | Call_CurrentValue | Call_Apply string

definition brightness_trace :: "bool \<Rightarrow> ('h, 'm, 'e) monitor_api \<times> 'e \<times> brightness_call \<Rightarrow> 'm handle_action list" where
  "brightness_trace elided = (\<lambda>(api, e, call).
     let monitors = Enumerate api e
     in case call of
          Call_Apply desired \<Rightarrow>
            if atoi desired < 0 \<or> 100 < atoi desired then [] else monitors_scope elided monitors monitors
        | _ \<Rightarrow> monitors_scope elided monitors (asked api e monitors))"

lemma set_asked: "set (asked api e ms) \<subseteq> set ms"
  by (induction ms) auto

lemma monitors_scope_elided: "monitors_scope True hs us = scope hs us"
  by (simp add: monitors_scope_def scope_def)

interpretation brightness_handles: closes_what_it_opens "brightness_trace True" "\<lambda>(api, e, call). distinct (Enumerate api e)"
proof
  fix x :: "('h, 'm, 'e) monitor_api \<times> 'e \<times> brightness_call"
  assume ok: "case x of (api, e, call) \<Rightarrow> distinct (Enumerate api e)"
  obtain api e call where x: "x = (api, e, call)" by (cases x)
  have "leak_free (scope (Enumerate api e) us)" if "set us \<subseteq> set (Enumerate api e)" for us
    by (rule leak_free_scope [OF _ that]) (use ok x in simp)
  then show "leak_free (brightness_trace True x)"
    using set_asked [of api e "Enumerate api e"]
    by (cases call) (simp_all add: x brightness_trace_def monitors_scope_elided leak_free_def [of "[]"] Let_def)
qed

text \<open>Without the elision the first handle is used, or closed again, after it was closed.\<close>

lemma brightness_trace_copied:
  assumes "distinct (Enumerate api e)" and "Enumerate api e = m # ms"
  shows "handles_run (brightness_trace False (api, e, Call_CurrentValue)) {} = None"
proof -
  let ?hs = "m # ms" and ?rest = "map Use (asked api e (m # ms)) @ map Release (m # ms)"
  have "handles_run (map Acquire ?hs @ map Release ?hs @ ?rest) {} = handles_run ?rest {}"
    using assms handles_run_acquire_all [of ?hs "{}" "map Release ?hs @ ?rest"]
      handles_run_release_all [of ?hs "set ?hs" ?rest] by (simp del: list.map)
  then show ?thesis by (simp add: brightness_trace_def monitors_scope_def assms(2))
qed

section \<open>The plugin contract\<close>

text \<open>
  The states on which the plugin can keep its promise have exactly one controllable
  monitor, whose brightness is a percentage; a refused call changes nothing, and setting
  the brightness read before a successful change succeeds and brings the state back.
\<close>

definition monitor_api_ok :: "('h, 'm, 'e) monitor_api \<Rightarrow> ('e \<Rightarrow> bool) \<Rightarrow> bool" where
  "monitor_api_ok api P \<longleftrightarrow>
     (\<forall>e. P e \<longrightarrow> (\<exists>m mn cur mx. Enumerate api e = [m] \<and>
        GetMonitorBrightness api m e = Some (mn, cur, mx) \<and> cur \<le> 100)) \<and>
     (\<forall>e m v. P e \<longrightarrow> P (snd (SetMonitorBrightness api m v e)) \<and>
        Enumerate api (snd (SetMonitorBrightness api m v e)) = Enumerate api e) \<and>
     (\<forall>e m v. P e \<longrightarrow> \<not> fst (SetMonitorBrightness api m v e) \<longrightarrow> snd (SetMonitorBrightness api m v e) = e) \<and>
     (\<forall>e m v mn cur mx. P e \<longrightarrow> GetMonitorBrightness api m e = Some (mn, cur, mx) \<longrightarrow>
        fst (SetMonitorBrightness api m v e) \<longrightarrow>
        SetMonitorBrightness api m cur (snd (SetMonitorBrightness api m v e)) = (True, e))"

lemma atoi_to_string_u32:
  assumes "cur \<le> (100 :: u32)"
  shows "atoi (to_string (uint cur)) = uint cur" and "uint cur \<le> 100"
proof -
  show le: "uint cur \<le> 100" using assms by (simp add: word_le_def)
  have "0 \<le> uint cur" by simp
  with le have "int32_range (uint cur)" by (auto simp: int32_range_def intro: order.trans [of _ 0])
  then show "atoi (to_string (uint cur)) = uint cur" by (rule atoi_to_string)
qed

interpretation brightness: executor_plugin BrightnessExecutor "''display.brightness''" monitor_api_ok
proof
  fix api :: "('h, 'm, 'e) monitor_api" and P e d
  assume ok: "monitor_api_ok api P" and P: "P e"
  obtain m mn cur mx where en: "Enumerate api e = [m]"
    and br: "GetMonitorBrightness api m e = Some (mn, cur, mx)" and le: "cur \<le> 100"
    using ok P unfolding monitor_api_ok_def by meson
  have keep: "P (snd (SetMonitorBrightness api m v e))"
    and en': "Enumerate api (snd (SetMonitorBrightness api m v e)) = [m]"
    and refused: "\<not> fst (SetMonitorBrightness api m v e) \<Longrightarrow> snd (SetMonitorBrightness api m v e) = e"
    and undo: "fst (SetMonitorBrightness api m v e) \<Longrightarrow>
      SetMonitorBrightness api m cur (snd (SetMonitorBrightness api m v e)) = (True, e)" for v
    using ok P en br unfolding monitor_api_ok_def by metis+
  show "P (after_apply (BrightnessExecutor api) d e)"
    using P en keep by (simp add: BrightnessExecutor_def brightness_Apply_def Let_def split_beta)
  show "after_apply (BrightnessExecutor api) d e = e"
    if "\<not> applied_ok (BrightnessExecutor api) d e"
    using that en refused
    by (auto simp: BrightnessExecutor_def brightness_Apply_def Let_def split_beta split: if_splits)
  show "after_apply (BrightnessExecutor api) (CurrentValue (BrightnessExecutor api) e)
      (after_apply (BrightnessExecutor api) d e) = e"
    if "applied_ok (BrightnessExecutor api) d e"
  proof -
    have d: "after_apply (BrightnessExecutor api) d e = snd (SetMonitorBrightness api m (as_u32 (atoi d)) e)"
      and set: "fst (SetMonitorBrightness api m (as_u32 (atoi d)) e)"
      using that en
      by (auto simp: BrightnessExecutor_def brightness_Apply_def Let_def split_beta split: if_splits)
    have cv: "CurrentValue (BrightnessExecutor api) e = to_string (uint cur)"
      using en br by (simp add: BrightnessExecutor_def brightness_CurrentValue_def)
    have "as_u32 (uint cur) = cur" by (simp add: as_u32_def)
    then have "after_apply (BrightnessExecutor api) (to_string (uint cur))
        (snd (SetMonitorBrightness api m (as_u32 (atoi d)) e)) = e"
      using undo [OF set] en' atoi_to_string_u32 [OF le]
      by (simp add: BrightnessExecutor_def brightness_Apply_def Let_def split_beta)
    with d cv show ?thesis by simp
  qed
qed (simp add: BrightnessExecutor_def)

section \<open>Several monitors\<close>

text \<open>
  An ideal system: display \<open>h\<close> has the monitors listed under it, every call succeeds, and
  the state is the brightness of each monitor.
\<close>

definition ideal_monitors :: "nat list \<Rightarrow> (unit, nat, nat \<Rightarrow> u32) monitor_api" where
  "ideal_monitors ms =
     \<lparr>EnumDisplayMonitors = (\<lambda>_. [()]),
      GetNumberOfPhysicalMonitors = (\<lambda>_ _. Some (length ms)),
      GetPhysicalMonitors = (\<lambda>_ _ _. Some ms),
      GetMonitorBrightness = (\<lambda>m e. Some (0, e m, 100)),
      SetMonitorBrightness = (\<lambda>m v e. (True, e(m := v)))\<rparr>"

lemma Enumerate_ideal [simp]: "Enumerate (ideal_monitors ms) e = ms"
  by (simp add: Enumerate_def EnumMonitorCallback_def ideal_monitors_def)

lemma set_brightness_ideal:
  "set_brightness (ideal_monitors all) v ms e = (length ms, (\<lambda>m. if m \<in> set ms then v else e m))"
  by (induction ms arbitrary: e) (auto simp: ideal_monitors_def fun_eq_iff)

lemma brightness_Apply_ideal:
  "ms \<noteq> [] \<Longrightarrow> 0 \<le> atoi d \<Longrightarrow> atoi d \<le> 100 \<Longrightarrow>
     applied_ok (BrightnessExecutor (ideal_monitors ms)) d e \<and>
     after_apply (BrightnessExecutor (ideal_monitors ms)) d e =
       (\<lambda>m. if m \<in> set ms then as_u32 (atoi d) else e m)"
  by (simp add: BrightnessExecutor_def brightness_Apply_def set_brightness_ideal Let_def)

lemma brightness_CurrentValue_ideal:
  "CurrentValue (BrightnessExecutor (ideal_monitors (m # ms))) e = to_string (uint (e m))"
  by (simp add: BrightnessExecutor_def brightness_CurrentValue_def)
    (simp add: ideal_monitors_def)

text \<open>
  The snapshot of the brightness plugin is the value of the first monitor only, so
  undoing an accepted change leaves every monitor at that value: with several monitors
  the earlier state comes back exactly when they all had the same brightness.
\<close>

theorem brightness_undo_equalises_monitors:
  fixes m :: nat and ms :: "nat list" and e :: "nat \<Rightarrow> u32" and d :: string
  assumes "e m \<le> 100" and "0 \<le> atoi d" and "atoi d \<le> 100"
  defines "ex \<equiv> BrightnessExecutor (ideal_monitors (m # ms))"
  shows "applied_ok ex d e \<and>
    after_apply ex (CurrentValue ex e) (after_apply ex d e) =
      (\<lambda>i. if i \<in> set (m # ms) then e m else e i) \<and>
    (after_apply ex (CurrentValue ex e) (after_apply ex d e) = e \<longleftrightarrow> (\<forall>i \<in> set ms. e i = e m))"
proof -
  have u: "as_u32 (uint (e m)) = e m" by (simp add: as_u32_def)
  have "applied_ok ex d e"
    and "after_apply ex (CurrentValue ex e) (after_apply ex d e) =
      (\<lambda>i. if i \<in> set (m # ms) then e m else e i)"
    unfolding ex_def brightness_CurrentValue_ideal
    using assms(2,3) atoi_to_string_u32 [OF assms(1)]
    by (simp_all add: brightness_Apply_ideal u fun_eq_iff)
  then show ?thesis by (auto simp: fun_eq_iff)
qed

theorem brightness_undo_equalises_monitors_witness:
  "after_apply (BrightnessExecutor (ideal_monitors [0, 1])) ''30''
     (after_apply (BrightnessExecutor (ideal_monitors [0, 1])) ''50'' ((\<lambda>_. 0)(0 := 30, 1 := 80))) 1 = 30"
proof -
  have a: "atoi ''50'' = 50" by code_simp
  have b: "to_string 30 = ''30''" by code_simp
  show ?thesis
    using brightness_undo_equalises_monitors [of "(\<lambda>_. 0)(0 := 30, 1 := 80)" 0 "''50''" "[1]"]
    by (simp add: a b brightness_CurrentValue_ideal)
qed

end
