(* ===== verification/Worker_Thread.thy ===== *)
theory Worker_Thread
  imports Prelude
begin

text \<open>
  The start/stop protocol of every class of the program that owns a background thread
  (\<open>CollectorPipeline\<close>, \<open>ChannelManager\<close>, the directory watcher of \<open>ProfileManager\<close>): an
  atomic flag decides whether \<open>Start\<close> spawns and whether \<open>Stop\<close> joins. Assigning to a
  \<open>std::thread\<close> that is still joinable, or destroying it, ends the process through
  \<open>std::terminate\<close>; the models return \<open>None\<close> there. The locale states what a class
  promises of one call and concludes that no sequence of calls followed by the
  destructor terminates the process.
\<close>

section \<open>Threads\<close>

text \<open>\<open>thread_ = std::thread(...)\<close> on the joinable flag of \<open>thread_\<close>.\<close>

definition assign_thread :: "bool \<Rightarrow> bool option" where
  "assign_thread joinable = (if joinable then None else Some True)"

text \<open>The destructor of \<open>std::thread\<close>.\<close>

definition destroy_thread :: "bool \<Rightarrow> unit option" where
  "destroy_thread joinable = (if joinable then None else Some ())"

text \<open>
  A call of the owner; \<open>'a\<close> is what the environment answers during a start (for
  instance whether a handle could be opened).
\<close>

datatype 'a life_op = StartCall 'a | StopCall

fun life_step :: "('a \<Rightarrow> 's \<Rightarrow> 's option) \<Rightarrow> ('s \<Rightarrow> 's) \<Rightarrow> 's \<Rightarrow> 'a life_op \<Rightarrow> 's option" where
  "life_step start stop s (StartCall a) = start a s"
| "life_step start stop s StopCall = Some (stop s)"

fun life_run :: "('a \<Rightarrow> 's \<Rightarrow> 's option) \<Rightarrow> ('s \<Rightarrow> 's) \<Rightarrow> 's \<Rightarrow> 'a life_op list \<Rightarrow> 's option" where
  "life_run start stop s [] = Some s"
| "life_run start stop s (op # ops) =
     (case life_step start stop s op of None \<Rightarrow> None | Some s' \<Rightarrow> life_run start stop s' ops)"

lemma life_run_append:
  "life_run start stop s (a @ b) =
     (case life_run start stop s a of None \<Rightarrow> None | Some s' \<Rightarrow> life_run start stop s' b)"
  by (induction a arbitrary: s) (auto split: option.splits)

section \<open>The contract\<close>

locale thread_owner =
  fixes start :: "'a \<Rightarrow> 's \<Rightarrow> 's option"
    and stop :: "'s \<Rightarrow> 's"
    and running :: "'s \<Rightarrow> bool"
    and joinable :: "'s \<Rightarrow> bool"
  assumes start_running: "running s \<Longrightarrow> start a s = Some s"
    and start_stopped: "\<not> running s \<Longrightarrow> \<not> joinable s \<Longrightarrow>
      \<exists>s'. start a s = Some s' \<and> running s' = joinable s'"
    and stop_stopped: "\<not> running s \<Longrightarrow> stop s = s"
    and stop_running: "running s \<Longrightarrow> \<not> running (stop s) \<and> \<not> joinable (stop s)"
begin

definition life_ok :: "'s \<Rightarrow> bool" where
  "life_ok s \<longleftrightarrow> running s = joinable s"

lemma life_ok_start: "life_ok s \<Longrightarrow> \<exists>s'. start a s = Some s' \<and> life_ok s'"
  using start_running [of s a] start_stopped [of s a] by (cases "running s") (auto simp: life_ok_def)

lemma life_ok_stop: "life_ok s \<Longrightarrow> life_ok (stop s)"
  using stop_stopped [of s] stop_running [of s] by (cases "running s") (auto simp: life_ok_def)

lemma life_ok_step: "life_ok s \<Longrightarrow> \<exists>s'. life_step start stop s op = Some s' \<and> life_ok s'"
  by (cases op) (simp_all add: life_ok_start life_ok_stop)

lemma life_run_ok: "life_ok s \<Longrightarrow> \<exists>s'. life_run start stop s ops = Some s' \<and> life_ok s'"
proof (induction ops arbitrary: s)
  case (Cons op ops)
  then obtain s1 where "life_step start stop s op = Some s1" "life_ok s1"
    using life_ok_step by blast
  then show ?case using Cons.IH by simp
qed simp

lemma stop_not_joinable: "life_ok s \<Longrightarrow> \<not> running (stop s) \<and> \<not> joinable (stop s)"
  using stop_stopped [of s] stop_running [of s] by (cases "running s") (auto simp: life_ok_def)

text \<open>Any calls, then the destructor (which stops first): the process is never terminated.\<close>

lemma life_safe:
  assumes "life_ok s"
  shows "\<exists>s'. life_run start stop s ops = Some s' \<and> destroy_thread (joinable (stop s')) = Some ()"
  using life_run_ok [OF assms, of ops] stop_not_joinable by (auto simp: destroy_thread_def)

lemma stop_idempotent: "life_ok s \<Longrightarrow> stop (stop s) = stop s"
  using stop_not_joinable stop_stopped by blast

end

end
