(* ===== verification/Profile_Manager.thy ===== *)
theory Profile_Manager
  imports Profile_Store Event_Bus Power_Plan Brightness Worker_Thread
begin

text \<open>
  \<open>libs/config/src/profile_manager.cpp\<close> and its header: applying a profile through the
  executor plugins as a transaction (snapshot each value, apply it, on the first failure
  restore the snapshots in reverse order), and the watcher of the profile directory.
  \<open>List\<close>, \<open>ActiveId\<close> and \<open>SwitchTo\<close> hold the manager's mutex for their whole body, so
  each is one step on the state below.
\<close>

section \<open>State\<close>

text \<open>
  What the manager works on: the store's directory, the event bus it was given, the state
  of the operating system its executors act on. Its fixed parts are arguments: the JSON
  library, the executors, whether it was given a bus at all (\<open>events_\<close> may be null).
\<close>

record ('b, 'e) manager_state =
  pm_fs :: "'b file_system"
  pm_bus :: event_bus
  pm_env :: 'e

record 'e manager_config =
  executors :: "'e executor list"
  has_events :: bool

record switch_result =
  sr_ok :: bool
  sr_message :: string
  sr_rolled_back_keys :: "string list"

definition pm_List :: "'b json_library \<Rightarrow> ('b, 'e) manager_state \<Rightarrow> json_error + profile list" where
  "pm_List lib st = store_List lib (pm_fs st)"

definition pm_ActiveId :: "'b json_library \<Rightarrow> ('b, 'e) manager_state \<Rightarrow> string" where
  "pm_ActiveId lib st = store_ActiveId lib (pm_fs st)"

definition FindExecutor :: "'e executor list \<Rightarrow> string \<Rightarrow> 'e executor option" where
  "FindExecutor exs key = find (\<lambda>ex. Key ex = key) exs"

section \<open>The transaction\<close>

text \<open>
  The rollback loop over \<open>applied\<close> from its end: the keys it reports and the state it
  leaves. The result of each restoring \<open>Apply\<close> is discarded by the code.
\<close>

fun rollback :: "('e executor \<times> string) list \<Rightarrow> 'e \<Rightarrow> string list \<times> 'e" where
  "rollback [] e = ([], e)"
| "rollback ((ex, previous) # its) e =
     (let (keys, e') = rollback its (after_apply ex previous e) in (Key ex # keys, e'))"

text \<open>A failure carries the message of the result, the text of the event, the rolled-back keys.\<close>

datatype 'e switch_run = Failed string string "string list" 'e | Completed 'e

fun apply_settings :: "'e executor list \<Rightarrow> ('e executor \<times> string) list \<Rightarrow>
    (string \<times> string) list \<Rightarrow> 'e \<Rightarrow> 'e switch_run" where
  "apply_settings exs applied [] e = Completed e"
| "apply_settings exs applied ((key, desired) # rest) e =
     (case FindExecutor exs key of
        None \<Rightarrow>
          (let reason = ''no executor for key '' @ key; (rolled, e') = rollback (rev applied) e
           in Failed reason reason rolled e')
      | Some ex \<Rightarrow>
          if \<not> Available ex e
          then (let reason = ''executor unavailable: '' @ key; (rolled, e') = rollback (rev applied) e
                in Failed reason reason rolled e')
          else
            (let previous = CurrentValue ex e; (result, e1) = Apply ex desired e
             in if \<not> ar_ok result
                then (let (rolled, e2) = rollback (rev applied) e1
                      in Failed (ar_message result)
                           (key @ '': '' @ ar_message result @ '' (rolled back)'') rolled e2)
                else apply_settings exs (applied @ [(ex, previous)]) rest e1))"

definition publish_if :: "bool \<Rightarrow> int \<Rightarrow> string \<Rightarrow> string \<Rightarrow> string \<Rightarrow> event_bus \<Rightarrow> event_bus" where
  "publish_if has now level title message b =
     (if has then PublishNow now level title message b else b)"

definition SwitchTo :: "'b json_library \<Rightarrow> 'b \<Rightarrow> 'e manager_config \<Rightarrow> int \<Rightarrow> string \<Rightarrow>
    ('b, 'e) manager_state \<Rightarrow> (json_error + switch_result) \<times> ('b, 'e) manager_state" where
  "SwitchTo lib no_bytes cfg now profile_id st =
     (case store_Get lib (pm_fs st) profile_id of
        Inl e \<Rightarrow> (Inl e, st)
      | Inr None \<Rightarrow>
          (Inr \<lparr>sr_ok = False, sr_message = ''profile not found: '' @ profile_id,
                sr_rolled_back_keys = []\<rparr>, st)
      | Inr (Some p) \<Rightarrow>
          (case apply_settings (executors cfg) [] (prof_settings p) (pm_env st) of
             Failed message text rolled e \<Rightarrow>
               (Inr \<lparr>sr_ok = False, sr_message = message, sr_rolled_back_keys = rolled\<rparr>,
                st\<lparr>pm_env := e,
                   pm_bus := publish_if (has_events cfg) now ''error'' ''Profile switch failed'' text (pm_bus st)\<rparr>)
           | Completed e \<Rightarrow>
               (case store_SetActiveId lib no_bytes (pm_fs st) profile_id of
                  (Inl err, fs) \<Rightarrow> (Inl err, st\<lparr>pm_env := e, pm_fs := fs\<rparr>)
                | (Inr _, fs) \<Rightarrow>
                    (Inr \<lparr>sr_ok = True, sr_message = ''ok'', sr_rolled_back_keys = []\<rparr>,
                     st\<lparr>pm_env := e, pm_fs := fs,
                        pm_bus := publish_if (has_events cfg) now ''info'' ''Profile applied'' (prof_name p) (pm_bus st)\<rparr>))))"

section \<open>The abstract transaction\<close>

text \<open>
  What a switch promises: apply every setting in order, or nothing at all. \<open>None\<close> is the
  refusal.
\<close>

fun apply_all :: "'e executor list \<Rightarrow> (string \<times> string) list \<Rightarrow> 'e \<Rightarrow> 'e option" where
  "apply_all exs [] e = Some e"
| "apply_all exs ((key, desired) # rest) e =
     (case FindExecutor exs key of
        None \<Rightarrow> None
      | Some ex \<Rightarrow>
          if Available ex e \<and> applied_ok ex desired e
          then apply_all exs rest (after_apply ex desired e) else None)"

lemma FindExecutor_Some: "FindExecutor exs key = Some ex \<Longrightarrow> ex \<in> set exs \<and> Key ex = key"
  by (auto simp: FindExecutor_def find_Some_iff)

text \<open>
  \<open>undoes applied e0 e\<close>: rolling back what was applied so far from state \<open>e\<close> ends in
  \<open>e0\<close>. This is what the loop keeps true from one setting to the next.
\<close>

definition undoes :: "('e executor \<times> string) list \<Rightarrow> 'e \<Rightarrow> 'e \<Rightarrow> bool" where
  "undoes applied e0 e \<longleftrightarrow> snd (rollback (rev applied) e) = e0"

lemma undoes_snoc:
  assumes "undoes applied e0 e" and "after_apply ex previous e1 = e"
  shows "undoes (applied @ [(ex, previous)]) e0 e1"
  using assms by (simp add: undoes_def split_beta Let_def)

lemma fst_rollback: "fst (rollback its e) = map (Key \<circ> fst) its"
  by (induction its e rule: rollback.induct) (simp_all add: split_beta Let_def)

lemma apply_settings_refines:
  assumes "\<forall>ex \<in> set exs. transactional P ex" and "P e" and "undoes applied e0 e"
  shows "(case apply_settings exs applied settings e of
            Completed e' \<Rightarrow> apply_all exs settings e = Some e'
          | Failed _ _ _ e' \<Rightarrow> apply_all exs settings e = None \<and> e' = e0)"
  using assms
proof (induction exs applied settings e rule: apply_settings.induct)
  case (1 exs applied e)
  then show ?case by simp
next
  case (2 exs applied key desired rest e)
  show ?case
  proof (cases "FindExecutor exs key")
    case None
    with 2 show ?thesis by (simp add: undoes_def split_beta Let_def)
  next
    case (Some ex)
    then have t: "transactional P ex" using 2 FindExecutor_Some by blast
    note tr = transactionalD [OF t \<open>P e\<close>]
    consider (unavailable) "\<not> Available ex e" | (refused) "Available ex e" "\<not> applied_ok ex desired e"
      | (accepted) "Available ex e" "applied_ok ex desired e" by blast
    then show ?thesis
    proof cases
      case unavailable
      with Some 2 show ?thesis by (simp add: undoes_def split_beta Let_def)
    next
      case refused
      with Some 2 tr(2) [of desired] show ?thesis by (simp add: undoes_def split_beta Let_def)
    next
      case accepted
      let ?e1 = "after_apply ex desired e"
      have "undoes (applied @ [(ex, CurrentValue ex e)]) e0 ?e1"
        using undoes_snoc [OF 2(4)] tr(3) [OF accepted] by blast
      then show ?thesis
        using 2(1) [OF Some _ refl refl prod.collapse] 2(2) tr(1) accepted Some
        by (auto simp: split_beta Let_def split: switch_run.splits)
    qed
  qed
qed

text \<open>
  What is said of a setting that cannot be applied in state \<open>e\<close>: the message of the result and
  the text of the event.
\<close>

definition refusal :: "'e executor list \<Rightarrow> string \<Rightarrow> string \<Rightarrow> 'e \<Rightarrow> string \<times> string" where
  "refusal exs key desired e =
     (case FindExecutor exs key of
        None \<Rightarrow> (''no executor for key '' @ key, ''no executor for key '' @ key)
      | Some ex \<Rightarrow>
          if \<not> Available ex e then (''executor unavailable: '' @ key, ''executor unavailable: '' @ key)
          else let why = ar_message (fst (Apply ex desired e))
               in (why, key @ '': '' @ why @ '' (rolled back)''))"

text \<open>The keys reported are those of the settings applied before the failing one, reversed.\<close>

lemma apply_settings_rolled:
  assumes "apply_settings exs applied settings e = Failed msg text rolled e'"
  shows "\<exists>don key desired rest e1. settings = don @ (key, desired) # rest \<and>
    apply_all exs don e = Some e1 \<and> apply_all exs [(key, desired)] e1 = None \<and>
    rolled = rev (map fst don) @ rev (map (Key \<circ> fst) applied) \<and> (msg, text) = refusal exs key desired e1"
  using assms
proof (induction exs applied settings e rule: apply_settings.induct)
  case (1 exs applied e)
  then show ?case by simp
next
  case (2 exs applied key desired rest e)
  show ?case
  proof (cases "\<exists>ex. FindExecutor exs key = Some ex \<and> Available ex e \<and> applied_ok ex desired e")
    case False
    with 2(2) have "rolled = rev (map (Key \<circ> fst) applied) \<and> (msg, text) = refusal exs key desired e"
      using fst_rollback [of "rev applied"]
      by (auto simp: refusal_def split_beta Let_def rev_map split: option.splits if_splits)
    moreover have "apply_all exs [(key, desired)] e = None"
      using False by (auto split: option.splits)
    ultimately show ?thesis
      by (intro exI [of _ "[]"] exI [of _ key] exI [of _ desired] exI [of _ rest] exI [of _ e]) simp
  next
    case True
    then obtain ex where ex: "FindExecutor exs key = Some ex" "Available ex e" "applied_ok ex desired e"
      by blast
    with 2(2) have run: "apply_settings exs (applied @ [(ex, CurrentValue ex e)]) rest (after_apply ex desired e)
        = Failed msg text rolled e'"
      by (simp add: split_beta Let_def)
    have "\<not> \<not> Available ex e" "\<not> \<not> ar_ok (fst (Apply ex desired e))" using ex by simp_all
    note IH = 2(1) [OF ex(1) this(1) refl refl prod.collapse this(2) run]
    then obtain don k d rs e1 where IH: "rest = don @ (k, d) # rs" "apply_all exs don (after_apply ex desired e) = Some e1"
      "apply_all exs [(k, d)] e1 = None"
      "rolled = rev (map fst don) @ rev (map (Key \<circ> fst) (applied @ [(ex, CurrentValue ex e)]))"
      "(msg, text) = refusal exs k d e1" by (elim exE conjE) (rule that)
    have "apply_all exs ((key, desired) # don) e = Some e1" using ex IH(2) by simp
    moreover have "rolled = rev (map fst ((key, desired) # don)) @ rev (map (Key \<circ> fst) applied)"
      using IH(4) FindExecutor_Some [OF ex(1)] by simp
    ultimately show ?thesis
      using IH(1,3,5)
      by (intro exI [of _ "(key, desired) # don"] exI [of _ k] exI [of _ d] exI [of _ rs] exI [of _ e1]) simp
  qed
qed

section \<open>Properties of a switch\<close>

lemma switch_refines:
  assumes "\<forall>ex \<in> set (executors cfg). transactional P ex" and "P (pm_env st)"
    and "store_Get lib (pm_fs st) i = Inr (Some p)"
    and "SwitchTo lib no_bytes cfg now i st = (Inr r, st')"
  shows "case apply_all (executors cfg) (prof_settings p) (pm_env st) of
      Some e \<Rightarrow> sr_ok r \<and> pm_env st' = e
    | None \<Rightarrow> \<not> sr_ok r \<and> pm_env st' = pm_env st \<and> pm_fs st' = pm_fs st"
proof -
  have "undoes [] (pm_env st) (pm_env st)" by (simp add: undoes_def)
  note refines = apply_settings_refines [OF assms(1,2) this, of "prof_settings p"]
  show ?thesis
    using refines assms(3,4)
    by (auto simp: SwitchTo_def split: switch_run.splits sum.splits prod.splits)
qed

text \<open>
  C1: with transactional executors a switch is all or nothing: if every setting of the
  profile can be applied in order the system ends in exactly the state that gives, and
  otherwise it is left in the state it had before the switch, the store untouched.
\<close>

theorem switch_all_or_nothing:
  assumes "\<forall>ex \<in> set (executors cfg). transactional P ex" and "P (pm_env st)"
    and "store_Get lib (pm_fs st) i = Inr (Some p)"
    and "SwitchTo lib no_bytes cfg now i st = (Inr r, st')"
  shows "case apply_all (executors cfg) (prof_settings p) (pm_env st) of
      Some e \<Rightarrow> sr_ok r \<and> pm_env st' = e
    | None \<Rightarrow> \<not> sr_ok r \<and> pm_env st' = pm_env st \<and> pm_fs st' = pm_fs st"
  by (rule switch_refines [OF assms])

text \<open>
  C33: a failed switch of an existing profile names its failing setting: there is one whose
  predecessors could all be applied in order and which itself could not be applied in the
  state they gave. The keys reported as rolled back are exactly those of the predecessors, in
  reverse order; the message says what was wrong with the failing one (no executor, executor
  unavailable, or what its executor answered); the active profile and the profile files
  are kept; and, given a bus, exactly one error event is published, with that text.
\<close>

theorem switch_failure_report:
  assumes "store_Get lib (pm_fs st) i = Inr (Some p)"
    and "SwitchTo lib no_bytes cfg now i st = (Inr r, st')" and "\<not> sr_ok r"
  shows "\<exists>don key desired rest e text.
    prof_settings p = don @ (key, desired) # rest \<and>
    apply_all (executors cfg) don (pm_env st) = Some e \<and>
    apply_all (executors cfg) [(key, desired)] e = None \<and>
    sr_rolled_back_keys r = rev (map fst don) \<and>
    (sr_message r, text) = refusal (executors cfg) key desired e \<and>
    pm_fs st' = pm_fs st \<and>
    pm_bus st' = (if has_events cfg
      then PublishNow now ''error'' ''Profile switch failed'' text (pm_bus st) else pm_bus st)"
proof -
  obtain msg evt rolled e where run:
      "apply_settings (executors cfg) [] (prof_settings p) (pm_env st) = Failed msg evt rolled e"
    and st': "st' = st\<lparr>pm_env := e,
        pm_bus := publish_if (has_events cfg) now ''error'' ''Profile switch failed'' evt (pm_bus st)\<rparr>"
    and r: "sr_rolled_back_keys r = rolled" "sr_message r = msg"
    using assms by (auto simp: SwitchTo_def split: switch_run.splits sum.splits prod.splits)
  obtain don key desired rest e1 where "prof_settings p = don @ (key, desired) # rest"
    "apply_all (executors cfg) don (pm_env st) = Some e1" "apply_all (executors cfg) [(key, desired)] e1 = None"
    "rolled = rev (map fst don)" "(msg, evt) = refusal (executors cfg) key desired e1"
    using apply_settings_rolled [OF run] by (simp only: list.map rev.simps append_Nil2) (elim exE conjE, rule that)
  then show ?thesis
    by (intro exI [of _ don] exI [of _ key] exI [of _ desired] exI [of _ rest] exI [of _ e1] exI [of _ evt])
      (simp add: st' r publish_if_def)
qed

lemma switch_success:
  assumes "json_library_ok lib" and "fs_healthy (pm_fs st)"
    and "store_Get lib (pm_fs st) i = Inr (Some p)"
    and "SwitchTo lib no_bytes cfg now i st = (Inr r, st')" and "sr_ok r"
  shows "pm_ActiveId lib st' = i \<and> sr_rolled_back_keys r = [] \<and>
    (\<forall>j. canon (pm_fs st) (j @ ''.json'') \<noteq> canon (pm_fs st) ''active.json'' \<longrightarrow>
       store_Get lib (pm_fs st') j = store_Get lib (pm_fs st) j) \<and>
    pm_bus st' = (if has_events cfg
       then PublishNow now ''info'' ''Profile applied'' (prof_name p) (pm_bus st) else pm_bus st)"
proof -
  obtain u where set: "store_SetActiveId lib no_bytes (pm_fs st) i = (Inr u, pm_fs st')"
    and rest: "sr_rolled_back_keys r = []" "pm_bus st' = publish_if (has_events cfg) now ''info''
        ''Profile applied'' (prof_name p) (pm_bus st)"
    using assms(3-5) by (auto simp: SwitchTo_def split: switch_run.splits sum.splits prod.splits)
  have "dump lib (JObject [(''active'', JString i)]) \<noteq> None"
    using set assms(2) by (auto simp: store_SetActiveId_def fs_healthy_def split: option.splits)
  from SetActiveId_roundtrip [OF assms(1,2) this set] rest show ?thesis
    by (simp add: pm_ActiveId_def publish_if_def)
qed

text \<open>
  On a healthy disk a successful switch makes the profile the active one, keeps
  every profile file except one named \<open>active.json\<close>, reports no rolled-back key and
  announces the profile's name.
\<close>

theorem switch_success_report:
  assumes "json_library_ok lib" and "fs_healthy (pm_fs st)"
    and "store_Get lib (pm_fs st) i = Inr (Some p)"
    and "SwitchTo lib no_bytes cfg now i st = (Inr r, st')" and "sr_ok r"
  shows "pm_ActiveId lib st' = i \<and> sr_rolled_back_keys r = [] \<and>
    (\<forall>j. canon (pm_fs st) (j @ ''.json'') \<noteq> canon (pm_fs st) ''active.json'' \<longrightarrow>
       store_Get lib (pm_fs st') j = store_Get lib (pm_fs st) j) \<and>
    pm_bus st' = (if has_events cfg
       then PublishNow now ''info'' ''Profile applied'' (prof_name p) (pm_bus st) else pm_bus st)"
  by (rule switch_success [OF assms])

section \<open>The service's executors\<close>

text \<open>
  The list \<open>ServiceHost::Start\<close> builds, over one system state and interfaces that keep
  their documented promises on the states \<open>P\<close>.
\<close>

definition MakePowerPlanExecutor :: "'e power_api \<Rightarrow> 'e executor" where
  "MakePowerPlanExecutor papi = PowerPlanExecutor papi"

definition MakeBrightnessExecutor :: "('h, 'm, 'e) monitor_api \<Rightarrow> 'e executor" where
  "MakeBrightnessExecutor mapi = BrightnessExecutor mapi"

declare MakePowerPlanExecutor_def [simp] MakeBrightnessExecutor_def [simp]

definition service_executors :: "'e power_api \<Rightarrow> ('h, 'm, 'e) monitor_api \<Rightarrow> 'e executor list" where
  "service_executors papi mapi = [MakePowerPlanExecutor papi, MakeBrightnessExecutor mapi]"

lemma service_executors_transactional:
  "power_api_ok papi P \<Longrightarrow> monitor_api_ok mapi P \<Longrightarrow>
     \<forall>ex \<in> set (service_executors papi mapi). transactional P ex"
  by (simp add: service_executors_def power.transactional_make brightness.transactional_make)

text \<open>
  With the two plugins the service registers, over a single controllable monitor
  and power and display interfaces that behave as documented, a failed switch leaves the
  power plan, the brightness and everything else of the system as it found them.
\<close>

theorem service_switch_restores_system:
  assumes "power_api_ok papi P" and "monitor_api_ok mapi P" and "P (pm_env st)"
    and "store_Get lib (pm_fs st) i = Inr (Some p)"
    and "SwitchTo lib no_bytes \<lparr>executors = service_executors papi mapi, has_events = True\<rparr> now i st = (Inr r, st')"
    and "\<not> sr_ok r"
  shows "pm_env st' = pm_env st \<and> pm_fs st' = pm_fs st \<and>
    apply_all (service_executors papi mapi) (prof_settings p) (pm_env st) = None"
  using switch_refines [where cfg = "\<lparr>executors = service_executors papi mapi, has_events = True\<rparr>" and P = P,
      OF _ assms(3,4,5)] service_executors_transactional [OF assms(1,2)] assms(6)
  by (auto split: option.splits)

section \<open>A concrete system\<close>

text \<open>
  One power plan and one monitor whose brightness is a percentage; both interfaces refuse
  what they cannot represent.
\<close>

definition demo_power :: "(guid \<times> u32) power_api" where
  "demo_power = \<lparr>PowerGetActiveScheme = (\<lambda>e. Some (fst e)),
     PowerSetActiveScheme = (\<lambda>g e. if guid_ok g then (0, (g, snd e)) else (87, e))\<rparr>"

definition demo_monitor :: "(unit, unit, guid \<times> u32) monitor_api" where
  "demo_monitor = \<lparr>EnumDisplayMonitors = (\<lambda>_. [()]),
     GetNumberOfPhysicalMonitors = (\<lambda>_ _. Some 1), GetPhysicalMonitors = (\<lambda>_ _ _. Some [()]),
     GetMonitorBrightness = (\<lambda>_ e. Some (0, snd e, 100)),
     SetMonitorBrightness = (\<lambda>_ v e. if v \<le> 100 then (True, (fst e, v)) else (False, e))\<rparr>"

definition demo_states :: "guid \<times> u32 \<Rightarrow> bool" where
  "demo_states e \<longleftrightarrow> guid_ok (fst e) \<and> snd e \<le> 100"

lemma demo_power_ok: "power_api_ok demo_power demo_states"
  by (auto simp: power_api_ok_def demo_power_def demo_states_def)

lemma demo_monitor_ok: "monitor_api_ok demo_monitor demo_states"
  by (auto simp: monitor_api_ok_def demo_monitor_def demo_states_def Enumerate_def EnumMonitorCallback_def)

definition demo_profile :: profile where
  "demo_profile = \<lparr>prof_id = ''p'', prof_name = ''P'', prof_description = '''',
     prof_settings = [(''display.brightness'', ''50''), (''power.plan'', ''nonsense'')]\<rparr>"

definition demo_disk :: "json file_system" where
  "demo_disk = plain_disk [(''p.json'', json_of_profile demo_profile)]"

lemma demo_utf8 [simp]: "json_utf8 (json_of_profile demo_profile)"
  by code_simp

lemma demo_Get: "store_Get identity_json demo_disk ''p'' = Inr (Some demo_profile)"
proof -
  have "smap_ok (prof_settings demo_profile)" by (simp add: demo_profile_def)
  moreover have "lookup demo_disk ''p.json'' = Some (json_of_profile demo_profile)"
    by (simp add: lookup_def demo_disk_def plain_disk_def)
  ultimately show ?thesis
    using ParseProfileFile_saved [OF identity_json_ok, of demo_disk demo_profile]
    by (simp add: store_Get_def demo_utf8) (simp add: demo_disk_def)
qed

definition demo_state :: "'e \<Rightarrow> (json, 'e) manager_state" where
  "demo_state e = \<lparr>pm_fs = demo_disk, pm_bus = registry_empty, pm_env = e\<rparr>"

abbreviation demo_config :: "(guid \<times> u32) manager_config" where
  "demo_config \<equiv> \<lparr>executors = service_executors demo_power demo_monitor, has_events = True\<rparr>"

lemma atoi_50 [simp]: "atoi ''50'' = 50"
  by code_simp

lemma ParseGuid_nonsense [simp]: "ParseGuid ''nonsense'' = None"
  by code_simp

text \<open>The second setting is refused, so the switch fails after the first was applied.\<close>

lemma demo_switch:
  "\<exists>r st'. SwitchTo identity_json JNull demo_config now ''p'' (demo_state (kBalanced, 30)) = (Inr r, st') \<and>
     \<not> sr_ok r"
proof -
  have "apply_all (service_executors demo_power demo_monitor) (prof_settings demo_profile) (kBalanced, 30) = None"
    by (simp add: demo_profile_def service_executors_def FindExecutor_def PowerPlanExecutor_def
        BrightnessExecutor_def power_Apply_def AliasToGuid_def)
  moreover have u: "undoes [] (kBalanced, 30 :: u32) (kBalanced, 30)" by (simp add: undoes_def)
  have d: "demo_states (kBalanced, 30)" by (simp add: demo_states_def guid_ok_def kBalanced_def)
  note refines = apply_settings_refines [OF service_executors_transactional [OF demo_power_ok demo_monitor_ok] d u,
      of "prof_settings demo_profile"]
  ultimately obtain m t ks e where
    "apply_settings (service_executors demo_power demo_monitor) [] (prof_settings demo_profile) (kBalanced, 30)
       = Failed m t ks e"
    by (cases "apply_settings (service_executors demo_power demo_monitor) []
          (prof_settings demo_profile) (kBalanced, 30)") auto
  then show ?thesis by (simp add: SwitchTo_def demo_state_def demo_Get)
qed

theorem service_switch_restores_system_witness:
  "\<exists>r st'. SwitchTo identity_json JNull demo_config 0 ''p'' (demo_state (kBalanced, 30)) = (Inr r, st') \<and>
     pm_env st' = (kBalanced, 30)"
proof -
  obtain r st' where sw: "SwitchTo identity_json JNull demo_config 0 ''p'' (demo_state (kBalanced, 30)) = (Inr r, st')"
    and f: "\<not> sr_ok r" using demo_switch by blast
  have P: "demo_states (pm_env (demo_state (kBalanced, 30)))"
    by (simp add: demo_state_def demo_states_def guid_ok_def kBalanced_def)
  have get: "store_Get identity_json (pm_fs (demo_state (kBalanced, 30 :: u32))) ''p'' = Inr (Some demo_profile)"
    by (simp add: demo_state_def demo_Get)
  from service_switch_restores_system [OF demo_power_ok demo_monitor_ok P get sw f] sw
  show ?thesis by (simp add: demo_state_def)
qed

theorem switch_all_or_nothing_witness:
  "\<exists>r st'. SwitchTo identity_json JNull demo_config 0 ''p'' (demo_state (kBalanced, 30)) = (Inr r, st') \<and>
     \<not> sr_ok r \<and> pm_env st' = (kBalanced, 30)"
proof -
  obtain r st' where sw: "SwitchTo identity_json JNull demo_config 0 ''p'' (demo_state (kBalanced, 30)) = (Inr r, st')"
    and f: "\<not> sr_ok r" using demo_switch by blast
  have P: "demo_states (pm_env (demo_state (kBalanced, 30)))"
    by (simp add: demo_state_def demo_states_def guid_ok_def kBalanced_def)
  have get: "store_Get identity_json (pm_fs (demo_state (kBalanced, 30 :: u32))) ''p'' = Inr (Some demo_profile)"
    by (simp add: demo_state_def demo_Get)
  have t: "\<forall>ex \<in> set (executors demo_config). transactional demo_states ex"
    using service_executors_transactional [OF demo_power_ok demo_monitor_ok] by simp
  from switch_all_or_nothing [OF t P get sw] sw f
  show ?thesis by (auto simp: demo_state_def split: option.splits)
qed

theorem switch_failure_report_witness:
  "\<exists>r st' don key desired rest e. SwitchTo identity_json JNull demo_config 0 ''p'' (demo_state (kBalanced, 30)) = (Inr r, st') \<and>
     prof_settings demo_profile = don @ (key, desired) # rest \<and>
     apply_all (executors demo_config) don (kBalanced, 30) = Some e \<and> apply_all (executors demo_config) [(key, desired)] e = None \<and>
     sr_rolled_back_keys r = rev (map fst don)"
proof -
  obtain r st' where sw: "SwitchTo identity_json JNull demo_config 0 ''p'' (demo_state (kBalanced, 30)) = (Inr r, st')"
    and f: "\<not> sr_ok r" using demo_switch by blast
  have get: "store_Get identity_json (pm_fs (demo_state (kBalanced, 30 :: u32))) ''p'' = Inr (Some demo_profile)"
    by (simp add: demo_state_def demo_Get)
  have env: "pm_env (demo_state (kBalanced, 30)) = (kBalanced, 30)" by (simp add: demo_state_def)
  from switch_failure_report [OF get sw f] sw show ?thesis unfolding env by blast
qed

definition quiet_profile :: profile where
  "quiet_profile = \<lparr>prof_id = ''q'', prof_name = ''Quiet'', prof_description = '''',
     prof_settings = [(''power.plan'', ''saver'')]\<rparr>"

definition quiet_state :: "(json, guid \<times> u32) manager_state" where
  "quiet_state = \<lparr>pm_fs = plain_disk [(''q.json'', json_of_profile quiet_profile)],
     pm_bus = registry_empty, pm_env = (kBalanced, 30)\<rparr>"

lemma quiet_utf8 [simp]: "json_utf8 (json_of_profile quiet_profile)" "utf8 ''q''" "utf8 ''z''"
  by code_simp+

lemma quiet_Get: "store_Get identity_json (pm_fs quiet_state) ''q'' = Inr (Some quiet_profile)"
proof -
  have "smap_ok (prof_settings quiet_profile)" by (simp add: quiet_profile_def)
  moreover have "lookup (pm_fs quiet_state) ''q.json'' = Some (json_of_profile quiet_profile)"
    by (simp add: lookup_def quiet_state_def plain_disk_def)
  ultimately show ?thesis
    using ParseProfileFile_saved [OF identity_json_ok, of "pm_fs quiet_state" quiet_profile]
    by (simp add: store_Get_def) (simp add: quiet_state_def)
qed

lemma quiet_applies:
  "apply_settings (executors demo_config) [] (prof_settings quiet_profile) (pm_env quiet_state) = Completed (kPowerSaver, 30)"
  by (simp add: quiet_profile_def quiet_state_def service_executors_def FindExecutor_def
      PowerPlanExecutor_def power_Apply_def AliasToGuid_def demo_power_def)
    (simp add: guid_ok_def kPowerSaver_def)

lemma quiet_SetActiveId:
  "store_SetActiveId identity_json JNull (pm_fs quiet_state) ''q'' =
     (Inr (), plain_disk [(''q.json'', json_of_profile quiet_profile), (''active.json'', JObject [(''active'', JString ''q'')])])"
  by (simp add: store_SetActiveId_def quiet_state_def plain_disk_def write_file_def rename_file_def lookup_def del_entry_def)

lemma quiet_switch:
  "\<exists>r st'. SwitchTo identity_json JNull demo_config 7 ''q'' quiet_state = (Inr r, st') \<and> sr_ok r"
  using quiet_applies quiet_SetActiveId by (simp add: SwitchTo_def quiet_Get)

theorem switch_success_report_witness:
  "\<exists>r st'. SwitchTo identity_json JNull demo_config 7 ''q'' quiet_state = (Inr r, st') \<and>
     pm_ActiveId identity_json st' = ''q''"
proof -
  obtain r st' where sw: "SwitchTo identity_json JNull demo_config 7 ''q'' quiet_state = (Inr r, st')"
    and ok: "sr_ok r" using quiet_switch by blast
  have h: "fs_healthy (pm_fs quiet_state)" by (simp add: quiet_state_def)
  from switch_success_report [OF identity_json_ok h quiet_Get sw ok] sw show ?thesis by blast
qed

section \<open>Limits of the rollback\<close>

text \<open>
  A key the result reports as rolled back need not be restored: with two monitors at
  30 and 80, a switch that sets the brightness and then fails reports
  \<open>display.brightness\<close> as rolled back and leaves the second monitor at 30.
\<close>

theorem rolled_back_key_not_restored:
  "\<exists>r st'. SwitchTo identity_json JNull
       \<lparr>executors = [BrightnessExecutor (ideal_monitors [2, 3])], has_events = True\<rparr> 0 ''p''
       (demo_state ((\<lambda>_. 0)(2 := 30, 3 := 80))) = (Inr r, st') \<and>
     sr_rolled_back_keys r = [''display.brightness''] \<and>
     pm_env st' 2 = 30 \<and> pm_env st' 3 = 30"
proof -
  let ?ex = "BrightnessExecutor (ideal_monitors [2, 3])"
  let ?e = "(\<lambda>_. 0 :: u32)(2 := 30, 3 := 80)"
  have key: "Key ?ex = ''display.brightness''" by (simp add: BrightnessExecutor_def)
  have avail: "Available ?ex e" for e
    by (simp add: BrightnessExecutor_def brightness_Available_def) (simp add: ideal_monitors_def)
  have cur: "CurrentValue ?ex ?e = to_string 30" by (simp add: brightness_CurrentValue_ideal)
  have thirty: "atoi (to_string 30) = 30" by (simp add: atoi_to_string int32_range_def)
  have set: "applied_ok ?ex ''50'' ?e" "after_apply ?ex ''50'' ?e = (\<lambda>m. if m \<in> {2, 3} then 50 else ?e m)"
    using brightness_Apply_ideal [of "[2, 3]" "''50''" ?e] by (simp_all add: as_u32_def fun_eq_iff)
  have restored: "after_apply ?ex (to_string 30) e = (\<lambda>m. if m \<in> {2, 3} then 30 else e m)" for e
    using brightness_Apply_ideal [of "[2, 3]" "to_string 30" e] thirty by (simp add: as_u32_def fun_eq_iff)
  have "apply_settings [?ex] [] (prof_settings demo_profile) ?e =
      Failed (''no executor for key '' @ ''power.plan'') (''no executor for key '' @ ''power.plan'')
        [''display.brightness''] (after_apply ?ex (to_string 30) (after_apply ?ex ''50'' ?e))"
    by (simp add: demo_profile_def FindExecutor_def key avail cur set(1) Let_def split_beta)
  then show ?thesis
    by (simp add: SwitchTo_def demo_state_def demo_Get restored)
qed

text \<open>
  \<open>List\<close> shows the id inside a profile file, \<open>SwitchTo\<close> looks the id up as a file
  name: for every profile kept in a file of another name, the id the list offers is
  refused as not found although the profile exists.
\<close>

theorem listed_id_not_switchable:
  assumes "json_library_ok lib" and "fs_healthy (pm_fs st)" and "entries (pm_fs st) = [(f, bytes)]"
    and "is_profile_file f \<and> in_directory f" and "smap_ok (prof_settings p)" and "dump lib (json_of_profile p) = Some bytes"
    and "canon (pm_fs st) f \<noteq> canon (pm_fs st) (prof_id p @ ''.json'')"
  shows "pm_List lib st = Inr [p] \<and>
    SwitchTo lib no_bytes cfg now (prof_id p) st =
      (Inr \<lparr>sr_ok = False, sr_message = ''profile not found: '' @ prof_id p, sr_rolled_back_keys = []\<rparr>, st)"
proof -
  have "lookup (pm_fs st) f = Some bytes" by (simp add: lookup_def assms(3))
  then have "ParseProfileFile lib (pm_fs st) f = Inr (Some p)"
    by (rule ParseProfileFile_saved [OF assms(1,2,5,6)])
  then have "pm_List lib st = Inr [p]" using assms(3,4) by (simp add: pm_List_def store_List_healthy [OF assms(2)] dir_files_def)
  moreover have "lookup (pm_fs st) (prof_id p @ ''.json'') = None"
    using assms(3,7) by (simp add: lookup_def)
  then have "store_Get lib (pm_fs st) (prof_id p) = Inr None"
    by (simp add: store_Get_def ParseProfileFile_def read_file_def)
  ultimately show ?thesis by (simp add: SwitchTo_def)
qed

theorem listed_id_not_switchable_witness:
  "SwitchTo identity_json JNull demo_config 0 ''q''
     (quiet_state\<lparr>pm_fs := plain_disk [(''copy.json'', json_of_profile quiet_profile)]\<rparr>) =
   (Inr \<lparr>sr_ok = False, sr_message = ''profile not found: q'', sr_rolled_back_keys = []\<rparr>,
    quiet_state\<lparr>pm_fs := plain_disk [(''copy.json'', json_of_profile quiet_profile)]\<rparr>)"
proof -
  let ?st = "quiet_state\<lparr>pm_fs := plain_disk [(''copy.json'', json_of_profile quiet_profile)]\<rparr>"
  have 1: "fs_healthy (pm_fs ?st)" "entries (pm_fs ?st) = [(''copy.json'', json_of_profile quiet_profile)]"
    by (simp, simp add: plain_disk_def)
  have 2: "is_profile_file ''copy.json'' \<and> in_directory ''copy.json''" by code_simp
  have 3: "smap_ok (prof_settings quiet_profile)" by (simp add: quiet_profile_def)
  have 4: "dump identity_json (json_of_profile quiet_profile) = Some (json_of_profile quiet_profile)"
    by simp
  have 5: "canon (pm_fs ?st) ''copy.json'' \<noteq> canon (pm_fs ?st) (prof_id quiet_profile @ ''.json'')"
    by (simp add: plain_disk_def quiet_profile_def)
  from listed_id_not_switchable [OF identity_json_ok 1 2 3 4 5, of JNull demo_config 0]
  show ?thesis by (simp add: quiet_profile_def)
qed

section \<open>The directory watcher\<close>

text \<open>
  \<open>StartFileWatch\<close> and \<open>StopFileWatch\<close> over the flag, the two handles and the thread; the
  arguments say whether \<open>CreateFileW\<close> and \<open>CreateEventW\<close> succeed.
\<close>

record watch_state =
  watching :: bool
  dir_open :: bool
  event_open :: bool
  watch_joinable :: bool

definition watch_init :: watch_state where
  "watch_init = \<lparr>watching = False, dir_open = False, event_open = False, watch_joinable = False\<rparr>"

definition StartFileWatch :: "bool \<times> bool \<Rightarrow> watch_state \<Rightarrow> watch_state option" where
  "StartFileWatch answers w =
     (let (dir_ok, event_ok) = answers
      in if watching w then Some w
         else if \<not> dir_ok then Some (w\<lparr>watching := False, dir_open := False\<rparr>)
         else case assign_thread (watch_joinable w) of
           None \<Rightarrow> None
         | Some j \<Rightarrow> Some (w\<lparr>watching := True, dir_open := True, event_open := event_ok, watch_joinable := j\<rparr>))"

definition StopFileWatch :: "watch_state \<Rightarrow> watch_state" where
  "StopFileWatch w =
     (if \<not> watching w then w
      else w\<lparr>watching := False, dir_open := False, event_open := False, watch_joinable := False\<rparr>)"

text \<open>
  One round of \<open>WatchLoop\<close> as its environment decides it: the two reads of \<open>watching_\<close>,
  whether the wait was signalled (or timed out), how many bytes of change records the
  completed call left, whether the next call could be armed, and the clock.
\<close>

record watch_round =
  wr_running :: bool
  wr_still_running :: bool
  wr_signalled :: bool
  wr_bytes :: nat
  wr_rearmed :: bool
  wr_now :: int

fun watch_rounds :: "bool \<Rightarrow> watch_round list \<Rightarrow> event_bus \<Rightarrow> event_bus" where
  "watch_rounds has [] b = b"
| "watch_rounds has (w # ws) b =
     (if \<not> wr_running w \<or> \<not> wr_still_running w then b
      else if wr_signalled w
      then (let b' = (if 0 < wr_bytes w
                      then publish_if has (wr_now w) ''info'' ''Profiles changed'' ''profile directory updated'' b
                      else b)
            in if wr_rearmed w then watch_rounds has ws b' else b')
      else watch_rounds has ws b)"

text \<open>\<open>armed\<close>: whether the call before the loop could be armed.\<close>

definition WatchLoop :: "bool \<Rightarrow> bool \<Rightarrow> watch_round list \<Rightarrow> event_bus \<Rightarrow> event_bus" where
  "WatchLoop has armed ws b = (if armed then watch_rounds has ws b else b)"

text \<open>\<open>~ProfileManager\<close> stops the watch, then destroys the thread member.\<close>

definition watch_destroy :: "watch_state \<Rightarrow> unit option" where
  "watch_destroy w = destroy_thread (watch_joinable (StopFileWatch w))"

interpretation watcher_thread: thread_owner StartFileWatch StopFileWatch watching watch_joinable
  by unfold_locales (auto simp: StartFileWatch_def StopFileWatch_def assign_thread_def Let_def split: prod.splits)

text \<open>The directory handle is open exactly while the flag is set, the event at most then.\<close>

definition watch_inv :: "watch_state \<Rightarrow> bool" where
  "watch_inv w \<longleftrightarrow> dir_open w = watching w \<and> (event_open w \<longrightarrow> watching w)"

lemma watch_inv_ops [inv_rules]:
  "watch_inv watch_init"
  "watch_inv w \<Longrightarrow> StartFileWatch a w = Some w' \<Longrightarrow> watch_inv w'"
  "watch_inv w \<Longrightarrow> watch_inv (StopFileWatch w)"
  by (auto simp: watch_inv_def watch_init_def StartFileWatch_def StopFileWatch_def assign_thread_def Let_def
      split: prod.splits if_splits)

lemma watch_inv_run:
  "watch_inv w \<Longrightarrow> life_run StartFileWatch StopFileWatch w ops = Some w' \<Longrightarrow> watch_inv w'"
proof (induction ops arbitrary: w)
  case (Cons op ops)
  then obtain w1 where "life_step StartFileWatch StopFileWatch w op = Some w1"
    and rest: "life_run StartFileWatch StopFileWatch w1 ops = Some w'"
    by (auto split: option.splits)
  then have "watch_inv w1" using Cons.prems(1) by (cases op) (auto dest: watch_inv_ops(2) intro: watch_inv_ops(3))
  then show ?case using rest by (rule Cons.IH)
qed simp

lemma bus_inv_watch_rounds: "bus_inv b \<Longrightarrow> bus_inv (watch_rounds has ws b)"
  by (induction has ws b rule: watch_rounds.induct) (auto simp: publish_if_def bus_inv_PublishNow Let_def)

lemma bus_inv_WatchLoop [inv_rules]: "bus_inv b \<Longrightarrow> bus_inv (WatchLoop has armed ws b)"
  by (simp add: WatchLoop_def bus_inv_watch_rounds)

end
