(* ===== verification/Channel_Manager.thy ===== *)
theory Channel_Manager
  imports Worker_Thread
begin

text \<open>
  \<open>libs/core/src/channel_manager.cpp\<close> and its header: the client's connection watchdog.
  The states gRPC reports are the input of the monitor loop, one per turn; what the state
  callback does is a function on a state \<open>'w\<close> of its own.
\<close>

section \<open>Model\<close>

datatype connection_state = kDisconnected | kConnecting | kConnected

fun ToString :: "connection_state \<Rightarrow> string" where
  "ToString kDisconnected = ''disconnected''"
| "ToString kConnecting = ''connecting''"
| "ToString kConnected = ''connected''"

text \<open>\<open>grpc_connectivity_state\<close>, as gRPC documents it.\<close>

datatype grpc_state = IDLE | CONNECTING | READY | TRANSIENT_FAILURE | SHUTDOWN

record ('c, 'w) channel_manager =
  cm_address :: string
  cm_channel :: "'c option"
  cm_state :: connection_state
  cm_callback :: "(connection_state \<Rightarrow> 'w \<Rightarrow> 'w) option"
  cm_running :: bool
  cm_joinable :: bool

definition ChannelManager :: "string \<Rightarrow> ('c, 'w) channel_manager" where
  "ChannelManager addr = \<lparr>cm_address = addr, cm_channel = None, cm_state = kDisconnected,
     cm_callback = None, cm_running = False, cm_joinable = False\<rparr>"

definition cm_Start :: "unit \<Rightarrow> ('c, 'w) channel_manager \<Rightarrow> ('c, 'w) channel_manager option" where
  "cm_Start _ m =
     (if cm_running m then Some m
      else case assign_thread (cm_joinable m) of
        None \<Rightarrow> None
      | Some j \<Rightarrow> Some (m\<lparr>cm_running := True, cm_joinable := j\<rparr>))"

definition cm_Stop :: "('c, 'w) channel_manager \<Rightarrow> ('c, 'w) channel_manager" where
  "cm_Stop m = (if \<not> cm_running m then m else m\<lparr>cm_running := False, cm_joinable := False\<rparr>)"

definition channel_state_now :: "('c, 'w) channel_manager \<Rightarrow> connection_state" where
  "channel_state_now m = cm_state m"

definition channel_now :: "('c, 'w) channel_manager \<Rightarrow> 'c option" where
  "channel_now m = cm_channel m"

definition SetStateCallback ::
    "(connection_state \<Rightarrow> 'w \<Rightarrow> 'w) option \<Rightarrow> ('c, 'w) channel_manager \<Rightarrow> ('c, 'w) channel_manager" where
  "SetStateCallback f m = m\<lparr>cm_callback := f\<rparr>"

definition SetState ::
    "connection_state \<Rightarrow> ('c, 'w) channel_manager \<times> 'w \<Rightarrow> ('c, 'w) channel_manager \<times> 'w" where
  "SetState st = (\<lambda>(m, w).
     if cm_state m = st then (m, w)
     else (m\<lparr>cm_state := st\<rparr>, case cm_callback m of Some f \<Rightarrow> f st w | None \<Rightarrow> w))"

definition failed_state :: "grpc_state \<Rightarrow> bool" where
  "failed_state g \<longleftrightarrow> g = TRANSIENT_FAILURE \<or> g = SHUTDOWN"

text \<open>
  One turn of the loop: the new backoff, the longest time the turn waits (milliseconds),
  the state of the manager and of the callback's world.
\<close>

definition monitor_turn :: "grpc_state \<Rightarrow> int \<Rightarrow> ('c, 'w) channel_manager \<times> 'w \<Rightarrow>
    int \<times> int \<times> ('c, 'w) channel_manager \<times> 'w" where
  "monitor_turn g backoff_s mw =
     (let (backoff_s, mw) =
        (case g of
           READY \<Rightarrow> (1, SetState kConnected mw)
         | CONNECTING \<Rightarrow> (backoff_s, SetState kConnecting mw)
         | TRANSIENT_FAILURE \<Rightarrow> (backoff_s, SetState kDisconnected mw)
         | SHUTDOWN \<Rightarrow> (backoff_s, SetState kDisconnected mw)
         | IDLE \<Rightarrow> (backoff_s, mw));
        (wait, backoff_s) =
          (if g = TRANSIENT_FAILURE \<or> g = SHUTDOWN
           then (1000 * backoff_s, min (backoff_s * 2) 15) else (500, backoff_s))
      in (wait, backoff_s, mw))"

fun monitor_turns :: "grpc_state list \<Rightarrow> int \<Rightarrow> ('c, 'w) channel_manager \<times> 'w \<Rightarrow>
    int list \<times> int \<times> ('c, 'w) channel_manager \<times> 'w" where
  "monitor_turns [] backoff_s mw = ([], backoff_s, mw)"
| "monitor_turns (g # gs) backoff_s mw =
     (let (wait, backoff_s, mw) = monitor_turn g backoff_s mw;
          (waits, backoff_s, mw) = monitor_turns gs backoff_s mw
      in (wait # waits, backoff_s, mw))"

text \<open>
  A whole run of the loop: \<open>gs\<close> are the states read in the turns for which \<open>running_\<close> was
  still set.
\<close>

definition MonitorLoop :: "'c \<Rightarrow> grpc_state list \<Rightarrow> ('c, 'w) channel_manager \<times> 'w \<Rightarrow>
    int list \<times> ('c, 'w) channel_manager \<times> 'w" where
  "MonitorLoop channel gs mw =
     (let (waits, _, mw) = monitor_turns gs 1 ((fst mw)\<lparr>cm_channel := Some channel\<rparr>, snd mw)
      in (waits, SetState kDisconnected mw))"

text \<open>The destructor stops, then destroys the thread member.\<close>

definition cm_destroy :: "('c, 'w) channel_manager \<Rightarrow> unit option" where
  "cm_destroy m = destroy_thread (cm_joinable (cm_Stop m))"

interpretation channel_thread: thread_owner cm_Start cm_Stop cm_running cm_joinable
  by unfold_locales (auto simp: cm_Start_def cm_Stop_def assign_thread_def)

section \<open>What the callback is told\<close>

text \<open>The connection state a gRPC state stands for; an idle channel changes nothing.\<close>

fun shown :: "grpc_state list \<Rightarrow> connection_state list" where
  "shown [] = []"
| "shown (READY # gs) = kConnected # shown gs"
| "shown (CONNECTING # gs) = kConnecting # shown gs"
| "shown (TRANSIENT_FAILURE # gs) = kDisconnected # shown gs"
| "shown (SHUTDOWN # gs) = kDisconnected # shown gs"
| "shown (IDLE # gs) = shown gs"

text \<open>The transitions between different states of a sequence that starts in \<open>s\<close>.\<close>

fun changes :: "connection_state \<Rightarrow> connection_state list \<Rightarrow> connection_state list" where
  "changes s [] = []"
| "changes s (t # ts) = (if s = t then changes s ts else t # changes t ts)"

lemma changes_remdups_adj: "changes s ts = tl (remdups_adj (s # ts))"
proof (induction s ts rule: changes.induct)
  case (2 s t ts)
  then show ?case by (cases ts) (auto simp: remdups_adj_Cons split: list.splits)
qed simp

lemma changes_append: "changes s (ts @ us) = changes s ts @ changes (last (s # ts)) us"
  by (induction s ts rule: changes.induct) simp_all

lemma SetState_changes:
  "cm_callback m = Some f \<Longrightarrow> SetState st (m, w) = (m\<lparr>cm_state := st\<rparr>, fold f (changes (cm_state m) [st]) w)"
  by (simp add: SetState_def)

lemma monitor_turns_changes:
  assumes "cm_callback m = Some f"
  shows "snd (snd (monitor_turns gs b (m, w))) =
    (m\<lparr>cm_state := last (cm_state m # shown gs)\<rparr>, fold f (changes (cm_state m) (shown gs)) w)"
  using assms
proof (induction gs arbitrary: b m w)
  case (Cons g gs)
  then show ?case
    by (cases g) (auto simp: monitor_turn_def SetState_def split_beta Let_def)
qed simp

section \<open>The backoff\<close>

text \<open>The failures since the last time the channel was ready, before turn \<open>i\<close>.\<close>

definition failures_since_ready :: "grpc_state list \<Rightarrow> nat" where
  "failures_since_ready gs = length (filter failed_state (takeWhile (\<lambda>g. g \<noteq> READY) (rev gs)))"

definition backoff_after :: "nat \<Rightarrow> int" where
  "backoff_after n = min (2 ^ n) 15"

lemma backoff_after_Suc: "min (backoff_after n * 2) 15 = backoff_after (Suc n)"
  by (simp add: backoff_after_def min_def)

lemma failures_since_ready_snoc:
  "failures_since_ready (gs @ [g]) =
     (if g = READY then 0 else if failed_state g then Suc (failures_since_ready gs) else failures_since_ready gs)"
  by (simp add: failures_since_ready_def)

lemma monitor_turns_waits:
  assumes "b = backoff_after (failures_since_ready before)"
  shows "length (fst (monitor_turns gs b mw)) = length gs \<and>
    (\<forall>i < length gs. fst (monitor_turns gs b mw) ! i =
      (if failed_state (gs ! i) then 1000 * backoff_after (failures_since_ready (before @ take i gs)) else 500))"
  using assms
proof (induction gs arbitrary: b before mw)
  case (Cons g gs)
  obtain w b' mw' where t: "monitor_turn g b mw = (w, b', mw')" by (cases "monitor_turn g b mw")
  have b': "b' = backoff_after (failures_since_ready (before @ [g]))"
    using t Cons.prems backoff_after_Suc
    by (auto simp: monitor_turn_def failures_since_ready_snoc failed_state_def backoff_after_def
        split: grpc_state.splits if_splits)
  have w: "w = (if failed_state g then 1000 * b else 500)"
    using t by (auto simp: monitor_turn_def failed_state_def split: grpc_state.splits if_splits)
  show ?case
    using Cons.IH [OF b', of mw'] t w Cons.prems
    by (auto simp: nth_Cons split_beta Let_def split: nat.splits)
qed simp

section \<open>Properties\<close>

text \<open>
  C27: whatever connectivity states gRPC reports, the state callback is told exactly the
  changes of the shown state: never the same state twice in a row, nothing for an idle
  channel, and kDisconnected last, the state the manager is left in.
\<close>

theorem channel_state_changes_reported:
  assumes "cm_callback m = Some f"
  shows "MonitorLoop c gs (m, w) =
    (fst (MonitorLoop c gs (m, w)), m\<lparr>cm_channel := Some c, cm_state := kDisconnected\<rparr>,
     fold f (tl (remdups_adj (cm_state m # shown gs @ [kDisconnected]))) w)"
proof -
  let ?m = "m\<lparr>cm_channel := Some c\<rparr>"
  have f: "cm_callback ?m = Some f" using assms by simp
  obtain ws b mw where t: "monitor_turns gs 1 (?m, w) = (ws, b, mw)"
    by (cases "monitor_turns gs 1 (?m, w)")
  have mw: "mw = (?m\<lparr>cm_state := last (cm_state m # shown gs)\<rparr>, fold f (changes (cm_state m) (shown gs)) w)"
    using monitor_turns_changes [OF f, of gs 1 w] t by simp
  show ?thesis
    using f by (simp add: MonitorLoop_def t mw SetState_changes changes_append
        flip: changes_remdups_adj del: last.simps changes.simps)
qed

theorem channel_state_changes_reported_witness:
  "snd (snd (MonitorLoop () [IDLE, CONNECTING, TRANSIENT_FAILURE, CONNECTING, READY, READY]
      (SetStateCallback (Some (\<lambda>s w. w @ [s])) (ChannelManager ''a''), []))) =
    [kConnecting, kDisconnected, kConnecting, kConnected, kDisconnected]"
proof -
  let ?m = "SetStateCallback (Some (\<lambda>s w. w @ [s])) (ChannelManager ''a'')
    :: (unit, connection_state list) channel_manager"
  have f: "cm_callback ?m = Some (\<lambda>s w. w @ [s])" by (simp add: SetStateCallback_def)
  show ?thesis
    using channel_state_changes_reported [OF f, of "()"
        "[IDLE, CONNECTING, TRANSIENT_FAILURE, CONNECTING, READY, READY]" "[]"]
    by (simp add: SetStateCallback_def ChannelManager_def prod_eq_iff)
qed

text \<open>
  The monitor waits half a second after a turn that did not fail and, after a failed
  one, min(2^n, 15) seconds, where n counts the failures since the channel was last ready;
  connecting and idle turns in between do not reset the count. No wait exceeds 15 seconds.
\<close>

theorem monitor_backoff:
  "length (fst (MonitorLoop c gs mw)) = length gs \<and>
   (\<forall>i < length gs. fst (MonitorLoop c gs mw) ! i =
      (if failed_state (gs ! i) then 1000 * min (2 ^ failures_since_ready (take i gs)) 15 else 500) \<and>
      fst (MonitorLoop c gs mw) ! i \<le> 15000)"
proof -
  have one: "(1 :: int) = backoff_after (failures_since_ready [])"
    by (simp add: backoff_after_def failures_since_ready_def)
  have "fst (MonitorLoop c gs mw) = fst (monitor_turns gs 1 ((fst mw)\<lparr>cm_channel := Some c\<rparr>, snd mw))"
    by (simp add: MonitorLoop_def split_beta Let_def)
  then show ?thesis
    using monitor_turns_waits [OF one, of gs "((fst mw)\<lparr>cm_channel := Some c\<rparr>, snd mw)"]
    by (auto simp: backoff_after_def)
qed

theorem monitor_backoff_witness:
  "fst (MonitorLoop () [TRANSIENT_FAILURE, CONNECTING, TRANSIENT_FAILURE, READY, TRANSIENT_FAILURE]
      (ChannelManager ''a'' :: (unit, unit) channel_manager, ())) ! 2 = 2000"
  using monitor_backoff [of "()" "[TRANSIENT_FAILURE, CONNECTING, TRANSIENT_FAILURE, READY, TRANSIENT_FAILURE]"
      "(ChannelManager ''a'' :: (unit, unit) channel_manager, ())"]
  by (auto simp: failed_state_def failures_since_ready_def numeral_2_eq_2)

end
