(* ===== verification/Pipeline.thy ===== *)
theory Pipeline
  imports Telemetry_Types Worker_Thread
begin

text \<open>
  \<open>plugins/collectors/collector.h\<close> and \<open>pipeline.cpp\<close>: the collector plugin interface and
  the tick loop that polls every registered collector once per interval and hands one
  aggregated sample to the callback.
\<close>

section \<open>The collector interface\<close>

text \<open>
  The virtual functions over a state \<open>'e\<close> of the system and of the plugins' own members.
  Either of them may throw: of what \<open>Collect\<close> throws the loop catches what derives from
  \<open>std::exception\<close> and nothing else; the call of \<open>Available\<close> stands outside the \<open>try\<close>, so
  nothing it throws is caught.
\<close>

datatype thrown = StdException string | OtherException

record 'e collector =
  collector_Id :: string
  collector_Available :: "'e \<Rightarrow> thrown + bool"
  Collect :: "'e \<Rightarrow> (thrown + metric_sample list) \<times> 'e"

text \<open>The state of \<open>CollectorPipeline\<close>; \<open>pl_loop\<close> is what the running thread captured.\<close>

type_synonym 'w tick_callback = "(telemetry_sample \<Rightarrow> 'w \<Rightarrow> 'w) option"

record ('e, 'w) pipeline =
  pl_collectors :: "'e collector list"
  pl_running :: bool
  pl_joinable :: bool
  pl_loop :: "(int \<times> 'w tick_callback) option"

definition empty_pipeline :: "('e, 'w) pipeline" where
  "empty_pipeline = \<lparr>pl_collectors = [], pl_running = False, pl_joinable = False, pl_loop = None\<rparr>"

definition pl_Register :: "'e collector \<Rightarrow> ('e, 'w) pipeline \<Rightarrow> ('e, 'w) pipeline" where
  "pl_Register c p = p\<lparr>pl_collectors := pl_collectors p @ [c]\<rparr>"

definition pl_Start :: "int \<times> 'w tick_callback \<Rightarrow> ('e, 'w) pipeline \<Rightarrow> ('e, 'w) pipeline option" where
  "pl_Start args p =
     (if pl_running p then Some p
      else case assign_thread (pl_joinable p) of
        None \<Rightarrow> None
      | Some j \<Rightarrow> Some (p\<lparr>pl_running := True, pl_joinable := j, pl_loop := Some args\<rparr>))"

definition pl_Stop :: "('e, 'w) pipeline \<Rightarrow> ('e, 'w) pipeline" where
  "pl_Stop p = (if \<not> pl_running p then p else p\<lparr>pl_running := False, pl_joinable := False, pl_loop := None\<rparr>)"

definition CollectorCount :: "('e, 'w) pipeline \<Rightarrow> nat" where
  "CollectorCount p = length (pl_collectors p)"

text \<open>The destructor stops, then destroys the thread member; \<open>None\<close>: the process is terminated.\<close>

definition pl_destroy :: "('e, 'w) pipeline \<Rightarrow> unit option" where
  "pl_destroy p = destroy_thread (pl_joinable (pl_Stop p))"

interpretation pipeline_thread: thread_owner pl_Start pl_Stop pl_running pl_joinable
  by unfold_locales (auto simp: pl_Start_def pl_Stop_def assign_thread_def)

section \<open>The tick loop\<close>

text \<open>\<open>None\<close>: an exception that is not caught leaves the thread and ends the process.\<close>

fun collect_all :: "'e collector list \<Rightarrow> metric_sample list \<Rightarrow> 'e \<Rightarrow> (metric_sample list \<times> 'e) option" where
  "collect_all [] acc e = Some (acc, e)"
| "collect_all (c # cs) acc e =
     (case collector_Available c e of
        Inl _ \<Rightarrow> None
      | Inr available \<Rightarrow>
          if \<not> available then collect_all cs acc e
          else case Collect c e of
            (Inr ms, e') \<Rightarrow> collect_all cs (acc @ ms) e'
          | (Inl (StdException _), e') \<Rightarrow> collect_all cs acc e'
          | (Inl OtherException, _) \<Rightarrow> None)"

text \<open>
  \<open>NowMs\<close>: the system clock counts ticks, \<open>per_ms\<close> of them in a millisecond, from the epoch;
  \<open>duration_cast\<close> truncates towards zero.
\<close>

definition NowMs :: "int \<Rightarrow> int \<Rightarrow> int" where
  "NowMs per_ms ticks = (if ticks < 0 then - (- ticks div per_ms) else ticks div per_ms)"

lemma NowMs_mono: "0 < per_ms \<Longrightarrow> t \<le> t' \<Longrightarrow> NowMs per_ms t \<le> NowMs per_ms t'"
  using zdiv_mono1 [of t t' per_ms] zdiv_mono1 [of "- t'" "- t" per_ms] pos_imp_zdiv_nonneg_iff [of per_ms]
  by (auto simp: NowMs_def intro: order_trans [of _ 0])

text \<open>A clock that does not go back gives readings that do not.\<close>

lemma NowMs_sorted: "0 < per_ms \<Longrightarrow> sorted clock \<Longrightarrow> sorted (map (NowMs per_ms) clock)"
  by (auto simp: sorted_map intro: sorted_wrt_mono_rel NowMs_mono)

definition tick :: "'e collector list \<Rightarrow> int \<Rightarrow> 'e \<Rightarrow> (telemetry_sample \<times> 'e) option" where
  "tick cs now e =
     (case collect_all cs [] e of
        None \<Rightarrow> None | Some (ms, e') \<Rightarrow> Some (\<lparr>timestamp_ms = now, metrics = ms\<rparr>, e'))"

text \<open>
  The loop over the clock readings of its turns: each turn finds \<open>running_\<close> set and hands
  its sample to the callback if there is one.
\<close>

fun Loop :: "'e collector list \<Rightarrow> 'w tick_callback \<Rightarrow> int list \<Rightarrow> 'e \<times> 'w \<Rightarrow> ('e \<times> 'w) option" where
  "Loop cs cb [] ew = Some ew"
| "Loop cs cb (now # nows) (e, w) =
     (case tick cs now e of
        None \<Rightarrow> None
      | Some (sample, e') \<Rightarrow>
          Loop cs cb nows (e', case cb of None \<Rightarrow> w | Some f \<Rightarrow> f sample w))"

text \<open>
  The end of a turn, in nanoseconds: whether it sleeps at all (the elapsed time counts in
  whole milliseconds), and the inner loop over its reads of \<open>running_\<close> and the clock. The
  result is the sleep each inner turn asks for, 0 for a yield.
\<close>

definition millis :: "int \<Rightarrow> int" where "millis i = i * 1000000"

definition has_remaining :: "int \<Rightarrow> int \<Rightarrow> int \<Rightarrow> bool" where
  "has_remaining interval tick_start now = (interval - (now - tick_start) div 1000000 > 0)"

fun sleep_slices :: "int \<Rightarrow> (bool \<times> int) list \<Rightarrow> (int \<times> int) list" where
  "sleep_slices deadline [] = []"
| "sleep_slices deadline ((running, now) # rest) =
     (if \<not> running then []
      else let rem = deadline - now
        in if rem \<le> 0 then []
           else (now, if rem > millis 30 then millis 20 else 0) # sleep_slices deadline rest)"

section \<open>Lemmas\<close>

lemma Available_cases [case_names throws unavailable available]:
  obtains x where "collector_Available c e = Inl x"
  | "collector_Available c e = Inr False" | "collector_Available c e = Inr True"
  by (cases "collector_Available c e") (metis (full_types))+

lemma collect_all_acc:
  "collect_all cs acc e = map_option (\<lambda>(ms, e'). (acc @ ms, e')) (collect_all cs [] e)"
proof (induction cs arbitrary: acc e)
  case (Cons c cs)
  show ?case
  proof (cases rule: Available_cases [of c e])
    case throws
    then show ?thesis by simp
  next
    case unavailable
    then show ?thesis using Cons.IH [of acc e] by simp
  next
    case avail: available
    obtain r e' where r: "Collect c e = (r, e')" by (cases "Collect c e")
    show ?thesis
    proof (cases r)
      case (Inl t)
      then show ?thesis using avail r Cons.IH [of acc e'] by (cases t) simp_all
    next
      case (Inr ms)
      then show ?thesis using avail r Cons.IH [of "acc @ ms" e'] Cons.IH [of ms e']
        by (simp add: option.map_comp comp_def case_prod_beta')
    qed
  qed
qed simp

text \<open>A collector that is unavailable or throws, without touching the state.\<close>

definition faulty :: "'e collector \<Rightarrow> bool" where
  "faulty c \<longleftrightarrow> (\<forall>e. collector_Available c e = Inr False \<or>
     collector_Available c e = Inr True \<and> (\<exists>what. Collect c e = (Inl (StdException what), e)))"

lemma collect_all_without_faulty:
  "\<forall>c \<in> set cs. F c \<longrightarrow> faulty c \<Longrightarrow>
     collect_all cs acc e = collect_all (filter (Not \<circ> F) cs) acc e"
proof (induction cs arbitrary: acc e)
  case (Cons c cs)
  have rest: "\<forall>c \<in> set cs. F c \<longrightarrow> faulty c" using Cons.prems by simp
  show ?case
  proof (cases rule: Available_cases [of c e])
    case throws
    moreover from this have "\<not> F c" using Cons.prems unfolding faulty_def by (metis Inl_Inr_False list.set_intros(1))
    ultimately show ?thesis by simp
  next
    case unavailable
    then show ?thesis using Cons.IH [OF rest] by simp
  next
    case avail: available
    obtain r e' where r: "Collect c e = (r, e')" by (cases "Collect c e")
    have F: "\<exists>what. r = Inl (StdException what) \<and> e' = e" if "F c"
    proof -
      have "faulty c" using Cons.prems that by simp
      then have "collector_Available c e = Inr False \<or> (\<exists>what. Collect c e = (Inl (StdException what), e))"
        unfolding faulty_def by blast
      with avail r show ?thesis by auto
    qed
    show ?thesis
    proof (cases r)
      case (Inr ms)
      then show ?thesis using avail r F Cons.IH [OF rest] by auto
    next
      case (Inl t)
      then show ?thesis using avail r F Cons.IH [OF rest] by (cases t) auto
    qed
  qed
qed simp

text \<open>The only exceptions are those the loop catches: standard ones, from \<open>Collect\<close>.\<close>

definition throws_caught_only :: "'e collector \<Rightarrow> bool" where
  "throws_caught_only c \<longleftrightarrow>
     (\<forall>e. (\<exists>available. collector_Available c e = Inr available) \<and> fst (Collect c e) \<noteq> Inl OtherException)"

lemma caught_Available: "throws_caught_only c \<Longrightarrow> collector_Available c e \<noteq> Inl x"
  unfolding throws_caught_only_def by (metis Inl_Inr_False)

definition produces :: "'e collector \<Rightarrow> metric_sample \<Rightarrow> bool" where
  "produces c m \<longleftrightarrow> (\<exists>e e' ms. collector_Available c e = Inr True \<and> Collect c e = (Inr ms, e') \<and> m \<in> set ms)"

lemma collect_all_total:
  "\<forall>c \<in> set cs. throws_caught_only c \<Longrightarrow>
     \<exists>ms e'. collect_all cs acc e = Some (acc @ ms, e') \<and> (\<forall>m \<in> set ms. \<exists>c \<in> set cs. produces c m)"
proof (induction cs arbitrary: acc e)
  case (Cons c cs)
  have std: "\<forall>c \<in> set cs. throws_caught_only c" using Cons.prems by simp
  have goal: ?case if "collect_all (c # cs) acc e = collect_all cs (acc @ ms) e'"
      and "\<forall>m \<in> set ms. produces c m" for ms e'
    using Cons.IH [OF std, of "acc @ ms" e'] that
    by (metis append_assoc list.set_intros(1) list.set_intros(2) set_append UnE)
  show ?case
  proof (cases rule: Available_cases [of c e])
    case throws
    then show ?thesis using Cons.prems caught_Available [of c e] by simp
  next
    case unavailable
    then show ?thesis using goal [of "[]" e] by simp
  next
    case avail: available
    obtain r e' where r: "Collect c e = (r, e')" by (cases "Collect c e")
    have "r \<noteq> Inl OtherException"
      using Cons.prems r unfolding throws_caught_only_def by (metis fst_conv list.set_intros(1))
    then consider what where "r = Inl (StdException what)" | ms where "r = Inr ms"
      by (cases r) (auto intro: thrown.exhaust)
    then show ?thesis
    proof cases
      case 1
      then show ?thesis using goal [of "[]" e'] avail r by simp
    next
      case (2 ms)
      then show ?thesis using goal [of ms e'] avail r by (auto simp: produces_def)
    qed
  qed
qed simp

lemma tick_total:
  assumes "\<forall>c \<in> set cs. throws_caught_only c"
  shows "\<exists>s e'. tick cs now e = Some (s, e') \<and> timestamp_ms s = now \<and>
    (\<forall>m \<in> set (metrics s). \<exists>c \<in> set cs. produces c m)"
  using collect_all_total [OF assms, of "[]" e] by (auto simp: tick_def)

text \<open>What \<open>Available\<close> throws is not caught, whatever it is: the tick never ends.\<close>

lemma throwing_Available_ends_process:
  assumes "\<forall>c \<in> set cs. throws_caught_only c" and "\<forall>e. collector_Available c e = Inl (x e)"
  shows "tick (cs @ c # ds) now e = None"
proof -
  have "collect_all (bs @ c # ds) acc e = None" if "\<forall>c \<in> set bs. throws_caught_only c" for bs acc e
    using that
  proof (induction bs arbitrary: acc e)
    case (Cons b bs)
    obtain a where "collector_Available b e = Inr a"
      using Cons.prems caught_Available [of b e] by (cases "collector_Available b e") auto
    moreover obtain r e' where "Collect b e = (r, e')" by (cases "Collect b e")
    ultimately show ?case using Cons by (cases r; cases a) (auto split: thrown.splits)
  qed (simp add: assms(2))
  then show ?thesis using assms(1) by (simp add: tick_def)
qed

lemma Loop_total:
  assumes "\<forall>c \<in> set cs. throws_caught_only c"
  shows "\<exists>e' samples. Loop cs (Some f) nows (e, w) = Some (e', fold f samples w) \<and>
    map timestamp_ms samples = nows \<and>
    (\<forall>s \<in> set samples. \<forall>m \<in> set (metrics s). \<exists>c \<in> set cs. produces c m)"
proof (induction nows arbitrary: e w)
  case (Cons now nows)
  obtain s e1 where t: "tick cs now e = Some (s, e1)" and ts: "timestamp_ms s = now"
    and p: "\<forall>m \<in> set (metrics s). \<exists>c \<in> set cs. produces c m"
    using tick_total [OF assms, of now e] by blast
  obtain e' samples where "Loop cs (Some f) nows (e1, f s w) = Some (e', fold f samples (f s w))"
    and "map timestamp_ms samples = nows"
    and "\<forall>s \<in> set samples. \<forall>m \<in> set (metrics s). \<exists>c \<in> set cs. produces c m"
    using Cons.IH [of e1 "f s w"] by blast
  then show ?case using t ts p
    by (intro exI [of _ e'] exI [of _ "s # samples"]) simp
qed simp

section \<open>Properties\<close>

text \<open>
  Collectors that are unavailable, or whose Collect throws a standard exception,
  never affect a tick: the sample is the one the other collectors alone produce, in their
  registration order.
\<close>

theorem faulty_collectors_do_not_matter:
  assumes "\<forall>c \<in> set cs. F c \<longrightarrow> faulty c"
  shows "tick cs now e = tick (filter (Not \<circ> F) cs) now e"
  using collect_all_without_faulty [OF assms, of "[]" e] by (simp add: tick_def)

definition broken_collector :: "unit collector" where
  "broken_collector = \<lparr>collector_Id = ''wmi'', collector_Available = (\<lambda>_. Inr True),
     Collect = (\<lambda>e. (Inl (StdException ''com''), e))\<rparr>"

definition constant_collector :: "unit collector" where
  "constant_collector = \<lparr>collector_Id = ''pdh'', collector_Available = (\<lambda>_. Inr True),
     Collect = (\<lambda>e. (Inr [metric ''cpu.usage_pct'' (Zero False) ''percent''], e))\<rparr>"

theorem faulty_collectors_do_not_matter_witness:
  "tick [broken_collector, constant_collector, broken_collector] 9 () =
     Some (\<lparr>timestamp_ms = 9, metrics = [metric ''cpu.usage_pct'' (Zero False) ''percent'']\<rparr>, ())"
proof -
  have "\<forall>c \<in> set [broken_collector, constant_collector, broken_collector].
      collector_Id c = ''wmi'' \<longrightarrow> faulty c"
    by (auto simp: faulty_def broken_collector_def constant_collector_def)
  from faulty_collectors_do_not_matter [OF this, of 9 "()"]
  show ?thesis by (simp add: broken_collector_def constant_collector_def tick_def)
qed

text \<open>
  C21: if no collector throws from Available, and none throws anything but standard
  exceptions from Collect, the loop survives every turn and hands the callback exactly one
  sample per turn, in order, each stamped with its turn's clock and containing only metrics
  some registered collector returned.
\<close>

theorem one_sample_per_tick:
  assumes "\<forall>c \<in> set cs. throws_caught_only c"
  shows "\<exists>e' samples. Loop cs (Some f) nows (e, w) = Some (e', fold f samples w) \<and>
    map timestamp_ms samples = nows \<and>
    (\<forall>s \<in> set samples. \<forall>m \<in> set (metrics s). \<exists>c \<in> set cs. produces c m)"
  by (rule Loop_total [OF assms])

theorem one_sample_per_tick_witness:
  "\<exists>samples. Loop [constant_collector, broken_collector] (Some (\<lambda>s w. w @ [s])) [1, 2] ((), []) =
     Some ((), fold (\<lambda>s w. w @ [s]) samples []) \<and> map timestamp_ms samples = [1, 2]"
proof -
  have "\<forall>c \<in> set [constant_collector, broken_collector]. throws_caught_only c"
    by (auto simp: throws_caught_only_def constant_collector_def broken_collector_def)
  from one_sample_per_tick [OF this, of "\<lambda>s w. w @ [s]" "[1, 2]" "()" "[]"] show ?thesis by auto
qed

section \<open>The sleep at the end of a tick\<close>

lemma sleep_never_overshoots:
  "\<forall>(now, nanoseconds) \<in> set (sleep_slices deadline turns).
     (True, now) \<in> set turns \<and> 0 \<le> nanoseconds \<and> nanoseconds \<le> millis 20 \<and> now + nanoseconds < deadline"
  by (induction deadline turns rule: sleep_slices.induct) (auto simp: Let_def millis_def)

text \<open>The clock advances over an inner turn, by no less than what it asked to sleep.\<close>

definition clock_advances :: "(int \<times> int) list \<Rightarrow> bool" where
  "clock_advances = sorted_wrt (\<lambda>(a, ns) (b, _). a < b \<and> a + ns \<le> b)"

lemma advancing_bounds:
  assumes "clock_advances xs" and "\<forall>(a, ns) \<in> set xs. lo \<le> a \<and> 0 \<le> ns \<and> ns \<in> {0, q} \<and> a + ns < hi" and "lo \<le> hi"
  shows "int (length xs) \<le> hi - lo" and "q * int (length (filter (\<lambda>(_, ns). ns \<noteq> 0) xs)) \<le> hi - lo"
  using assms
proof (induction xs arbitrary: lo)
  case Nil
  { case 1 then show ?case by simp next case 2 then show ?case by simp }
next
  case (Cons x xs)
  obtain a ns where x: "x = (a, ns)" by (cases x)
  { case 1
    have "\<forall>(b, m) \<in> set xs. a + 1 \<le> b \<and> 0 \<le> m \<and> m \<in> {0, q} \<and> b + m < hi"
      using 1 by (auto simp: x clock_advances_def)
    with Cons.IH(1) [of "a + 1"] 1 show ?case by (auto simp: x clock_advances_def)
  next
    case 2
    have "\<forall>(b, m) \<in> set xs. a + ns \<le> b \<and> 0 \<le> m \<and> m \<in> {0, q} \<and> b + m < hi"
      using 2 by (auto simp: x clock_advances_def)
    with Cons.IH(2) [of "a + ns"] 2 show ?case by (auto simp: x clock_advances_def algebra_simps) }
qed

lemma sleep_slices_from:
  "sorted (map snd turns) \<Longrightarrow> (now, ns) \<in> set (sleep_slices deadline turns) \<Longrightarrow> snd (hd turns) \<le> now \<and> ns \<in> {0, millis 20}"
proof (induction deadline turns rule: sleep_slices.induct)
  case (2 deadline running t rest)
  show ?case
  proof (cases "(now, ns) \<in> set (sleep_slices deadline rest)")
    case True
    then have "rest \<noteq> []" by auto
    then have "t \<le> snd (hd rest)" using 2(2) by (cases rest) auto
    then show ?thesis using 2 True by (auto simp: Let_def split: if_splits)
  next
    case False
    then show ?thesis using 2(3) by (auto simp: Let_def split: if_splits)
  qed
qed simp

text \<open>
  C30: the sleep at the end of a tick terminates: against a clock that advances over every
  inner turn the loop takes no more turns than there are nanoseconds to its deadline, at
  most one per 20 ms of them sleeping; each sleep is taken while the loop is running, lasts
  at most 20 ms and ends before the deadline.
\<close>

theorem tick_sleep_terminates:
  assumes "sorted (map snd turns)" and "clock_advances (sleep_slices deadline turns)" and "snd (hd turns) \<le> deadline"
  shows "int (length (sleep_slices deadline turns)) \<le> deadline - snd (hd turns) \<and>
    millis 20 * int (length (filter (\<lambda>(_, ns). ns \<noteq> 0) (sleep_slices deadline turns))) \<le> deadline - snd (hd turns) \<and>
    (\<forall>(now, ns) \<in> set (sleep_slices deadline turns).
       (True, now) \<in> set turns \<and> 0 \<le> ns \<and> ns \<le> millis 20 \<and> now + ns < deadline)"
proof -
  have "\<forall>(a, ns) \<in> set (sleep_slices deadline turns).
      snd (hd turns) \<le> a \<and> 0 \<le> ns \<and> ns \<in> {0, millis 20} \<and> a + ns < deadline"
    using sleep_slices_from [OF assms(1)] sleep_never_overshoots [of deadline turns] by fastforce
  from advancing_bounds [OF assms(2) this assms(3)] sleep_never_overshoots show ?thesis by blast
qed

text \<open>A tick with 100 ms left: four sleeps, then yields until the deadline.\<close>

definition demo_turns :: "(bool \<times> int) list" where
  "demo_turns = map (\<lambda>t. (True, millis t)) [0, 20, 40, 60, 80, 95, 100]"

theorem tick_sleep_terminates_witness:
  "length (sleep_slices (millis 100) demo_turns) = 6 \<and> int (length (sleep_slices (millis 100) demo_turns)) \<le> millis 100"
proof -
  have "sorted (map snd demo_turns)" "snd (hd demo_turns) = 0" "0 \<le> millis 100"
      "clock_advances (sleep_slices (millis 100) demo_turns)" "length (sleep_slices (millis 100) demo_turns) = 6"
    by (simp_all add: demo_turns_def millis_def clock_advances_def)
  with tick_sleep_terminates [of demo_turns "millis 100"] show ?thesis by simp
qed

section \<open>The pace of the ticks\<close>

text \<open>
  The readings of one tick: its start, the clock after collecting, the turns of the inner
  loop. The tick is over by itself (not stopped) when collecting used up the interval or
  the inner loop reads a time past the deadline.
\<close>

fun sleeps_until :: "int \<Rightarrow> (bool \<times> int) list \<Rightarrow> bool" where
  "sleeps_until deadline [] = False"
| "sleeps_until deadline ((running, now) # rest) =
     (running \<and> (if deadline - now \<le> 0 then rest = [] else sleeps_until deadline rest))"

definition tick_over :: "int \<Rightarrow> int \<Rightarrow> int \<Rightarrow> (bool \<times> int) list \<Rightarrow> bool" where
  "tick_over interval start after turns =
     (if has_remaining interval start after then sleeps_until (start + millis interval) turns else turns = [])"

text \<open>Each reading comes at most \<open>g\<close> after the previous one and the sleep in between.\<close>

fun prompt :: "int \<Rightarrow> int \<Rightarrow> int \<Rightarrow> (bool \<times> int) list \<Rightarrow> int \<Rightarrow> bool" where
  "prompt g deadline prev [] next_start = (next_start \<le> prev + g)"
| "prompt g deadline prev ((running, now) # rest) next_start =
     (now \<le> prev + g \<and> prompt g deadline (now + (if deadline - now > millis 30 then millis 20 else 0)) rest next_start)"

lemma has_remaining_iff: "has_remaining interval start now \<longleftrightarrow> now < start + millis interval"
proof -
  have "(now - start) div 1000000 < interval \<longleftrightarrow> now - start < interval * 1000000"
    using div_mult_mod_eq [of "now - start" 1000000] pos_mod_bound [of 1000000 "now - start"]
      pos_mod_sign [of 1000000 "now - start"] by linarith
  then show ?thesis by (auto simp: has_remaining_def millis_def)
qed

lemma sleeps_until_lower:
  "sleeps_until deadline turns \<Longrightarrow> sorted (map snd turns @ [next_start]) \<Longrightarrow> deadline \<le> next_start"
  by (induction deadline turns rule: sleeps_until.induct) (auto split: if_splits)

lemma sleeps_until_upper:
  "sleeps_until deadline turns \<Longrightarrow> prompt g deadline prev turns next_start \<Longrightarrow> prev < deadline \<Longrightarrow>
     next_start \<le> deadline + 2 * g"
  by (induction deadline turns arbitrary: prev rule: sleeps_until.induct) (auto simp: millis_def split: if_splits)

text \<open>
  C22: the collectors are polled at most once per interval, and about once per interval when
  they are fast enough: if a tick is not cut short by a stop, the next one starts no earlier
  than one interval after it; and if collecting took less than the interval and no step of
  the loop is delayed by more than \<open>g\<close>, no later than one interval and twice \<open>g\<close> after it.
\<close>

theorem tick_period:
  assumes "tick_over interval start after turns" and "sorted (start # after # map snd turns @ [next_start])"
  shows "start + millis interval \<le> next_start \<and>
    (after < start + millis interval \<and> prompt g (start + millis interval) after turns next_start \<longrightarrow>
      next_start \<le> start + millis interval + 2 * g)"
proof (cases "has_remaining interval start after")
  case True
  then have "sleeps_until (start + millis interval) turns" using assms(1) by (simp add: tick_over_def)
  moreover from this have "start + millis interval \<le> next_start"
    by (rule sleeps_until_lower) (use assms(2) in simp)
  ultimately show ?thesis using sleeps_until_upper by blast
next
  case False
  then show ?thesis using assms by (auto simp: tick_over_def has_remaining_iff)
qed

text \<open>Half a second of collecting, a coarse sleep, then yields; every step takes 1 ms more than asked.\<close>

definition paced_turns :: "(bool \<times> int) list" where
  "paced_turns = map (\<lambda>t. (True, millis t)) (56 # [77..100])"

theorem tick_period_witness:
  "tick_over 100 0 (millis 55) paced_turns \<and> millis 100 \<le> millis 101 \<and> millis 101 \<le> millis 100 + 2 * millis 1"
proof -
  have upt: "[77..100] = [77, 78, 79, 80, 81, 82, 83, 84, 85, 86, 87, 88, 89, 90, 91, 92, 93, 94, 95, 96, 97, 98, 99, 100]"
    by code_simp
  have "tick_over 100 0 (millis 55) paced_turns" "sorted (0 # millis 55 # map snd paced_turns @ [millis 101])"
    "millis 55 < 0 + millis 100" "prompt (millis 1) (0 + millis 100) (millis 55) paced_turns (millis 101)"
    by (simp_all add: tick_over_def has_remaining_def millis_def paced_turns_def upt)
  with tick_period [of 100 0 "millis 55" paced_turns "millis 101" "millis 1"] show ?thesis by simp
qed

end
