(* ===== verification/Service_Controller.thy ===== *)
theory Service_Controller
  imports Prelude
begin

text \<open>
  \<open>apps/hwpanel-service/service_controller.cpp\<close> and its header: the service's side of the
  Service Control Manager protocol. \<open>ServiceMain\<close> runs on one thread, the control handler
  on another; each takes \<open>state_mutex_\<close> for a whole report or control, so their
  interleavings are sequences of the steps below.
\<close>

section \<open>State\<close>

datatype service_state =
  SERVICE_STOPPED | SERVICE_START_PENDING | SERVICE_STOP_PENDING | SERVICE_RUNNING |
  SERVICE_CONTINUE_PENDING | SERVICE_PAUSE_PENDING | SERVICE_PAUSED

datatype control =
  CONTROL_STOP | CONTROL_PRESHUTDOWN | CONTROL_PAUSE | CONTROL_CONTINUE | CONTROL_INTERROGATE |
  CONTROL_OTHER

record service_status =
  dwServiceType :: u32
  dwCurrentState :: service_state
  dwControlsAccepted :: u32
  dwWin32ExitCode :: u32
  dwServiceSpecificExitCode :: u32
  dwCheckPoint :: u32
  dwWaitHint :: u32

text \<open>The callbacks the controller is given, each possibly empty, over the world \<open>'w\<close> of the host.\<close>

record 'w handlers =
  on_start :: "('w \<Rightarrow> 'w) option"
  on_stop :: "('w \<Rightarrow> 'w) option"
  on_pause :: "('w \<Rightarrow> 'w) option"
  on_continue :: "('w \<Rightarrow> 'w) option"

text \<open>Where \<open>ServiceMain\<close> is: what it will do next.\<close>

datatype main_pc =
  Register_handler | Report_start_pending | Call_on_start | Finalize | Wait_exit | Report_stopped | Returned

text \<open>\<open>reports\<close> is what \<open>SetServiceStatus\<close> has been given, oldest first.\<close>

record 'w controller =
  reports :: "service_status list"
  exit_event :: bool
  start_done :: bool
  pause_requested :: bool
  stop_requested :: bool
  main_at :: main_pc
  world :: 'w

definition controller_init :: "'w \<Rightarrow> 'w controller" where
  "controller_init w = \<lparr>reports = [], exit_event = False, start_done = False, pause_requested = False,
     stop_requested = False, main_at = Register_handler, world = w\<rparr>"

definition call :: "('w \<Rightarrow> 'w) option \<Rightarrow> 'w controller \<Rightarrow> 'w controller" where
  "call f c = (case f of None \<Rightarrow> c | Some g \<Rightarrow> c\<lparr>world := g (world c)\<rparr>)"

section \<open>Operations\<close>

definition status_of :: "service_state \<Rightarrow> u32 \<Rightarrow> service_status" where
  "status_of st wait_hint_ms = \<lparr>dwServiceType = 0x10, dwCurrentState = st,
     dwControlsAccepted = or (or 1 2) 0x100, dwWin32ExitCode = 0, dwServiceSpecificExitCode = 0,
     dwCheckPoint = 0, dwWaitHint = wait_hint_ms\<rparr>"

definition ReportState :: "service_state \<Rightarrow> u32 \<Rightarrow> 'w controller \<Rightarrow> 'w controller" where
  "ReportState st wait_hint_ms c = c\<lparr>reports := reports c @ [status_of st wait_hint_ms]\<rparr>"

fun HandlerThunk :: "'w handlers \<Rightarrow> control \<Rightarrow> 'w controller \<Rightarrow> u32 \<times> 'w controller" where
  "HandlerThunk h CONTROL_STOP c =
     (let c = c\<lparr>stop_requested := True\<rparr>;
          c = (if start_done c then call (on_stop h) (ReportState SERVICE_STOP_PENDING 5000 c) else c)
      in (0, c\<lparr>exit_event := True\<rparr>))"
| "HandlerThunk h CONTROL_PRESHUTDOWN c =
     (let c = c\<lparr>stop_requested := True\<rparr>;
          c = (if start_done c then call (on_stop h) (ReportState SERVICE_STOP_PENDING 5000 c) else c)
      in (0, c\<lparr>exit_event := True\<rparr>))"
| "HandlerThunk h CONTROL_PAUSE c =
     (let c = c\<lparr>pause_requested := True\<rparr>
      in if \<not> start_done c then (0, c)
         else (0, ReportState SERVICE_PAUSED 0 (call (on_pause h) (ReportState SERVICE_PAUSE_PENDING 5000 c))))"
| "HandlerThunk h CONTROL_CONTINUE c =
     (let c = c\<lparr>pause_requested := False\<rparr>
      in if \<not> start_done c then (0, c)
         else (0, ReportState SERVICE_RUNNING 0 (call (on_continue h) (ReportState SERVICE_CONTINUE_PENDING 5000 c))))"
| "HandlerThunk h CONTROL_INTERROGATE c = (0, c)"
| "HandlerThunk h CONTROL_OTHER c = (120, c)"

definition FinalizeStart :: "'w handlers \<Rightarrow> 'w controller \<Rightarrow> 'w controller" where
  "FinalizeStart h c =
     (let c = c\<lparr>start_done := True\<rparr>
      in if stop_requested c then call (on_stop h) (ReportState SERVICE_STOP_PENDING 5000 c)
         else if pause_requested c
         then ReportState SERVICE_PAUSED 0 (call (on_pause h) (ReportState SERVICE_PAUSE_PENDING 5000 c))
         else ReportState SERVICE_RUNNING 0 c)"

text \<open>
  The next step of \<open>ServiceMainThunk\<close>; \<open>registered\<close> is whether
  \<open>RegisterServiceCtrlHandlerExW\<close> gave a handle. \<open>None\<close>: it waits, or has returned.
\<close>

fun ServiceMain :: "bool \<Rightarrow> 'w handlers \<Rightarrow> 'w controller \<Rightarrow> 'w controller option" where
  "ServiceMain registered h c =
     (case main_at c of
        Register_handler \<Rightarrow>
          Some (c\<lparr>main_at := if registered then Report_start_pending else Returned\<rparr>)
      | Report_start_pending \<Rightarrow> Some ((ReportState SERVICE_START_PENDING 10000 c)\<lparr>main_at := Call_on_start\<rparr>)
      | Call_on_start \<Rightarrow> Some ((call (on_start h) c)\<lparr>main_at := Finalize\<rparr>)
      | Finalize \<Rightarrow> Some ((FinalizeStart h c)\<lparr>main_at := Wait_exit\<rparr>)
      | Wait_exit \<Rightarrow> if exit_event c then Some (c\<lparr>main_at := Report_stopped\<rparr>) else None
      | Report_stopped \<Rightarrow> Some ((ReportState SERVICE_STOPPED 0 c)\<lparr>main_at := Returned\<rparr>)
      | Returned \<Rightarrow> None)"

declare ServiceMain.simps [simp del]

text \<open>
  The state the SCM knows, and when it calls the handler: once it is registered, and by
  the documented rule of \<open>ControlService\<close> never for a service that reported that it is
  stopping or stopped.
\<close>

definition known_state :: "'w controller \<Rightarrow> service_state option" where
  "known_state c = (if reports c = [] then None else Some (dwCurrentState (last (reports c))))"

definition delivers :: "'w controller \<Rightarrow> bool" where
  "delivers c \<longleftrightarrow> main_at c \<notin> {Register_handler, Returned} \<and>
     known_state c \<notin> {Some SERVICE_STOP_PENDING, Some SERVICE_STOPPED}"

inductive svc_step :: "'w handlers \<Rightarrow> 'w controller \<Rightarrow> 'w controller \<Rightarrow> bool" for h where
  main_step: "ServiceMain registered h c = Some c' \<Longrightarrow> svc_step h c c'"
| control_step: "delivers c \<Longrightarrow> svc_step h c (snd (HandlerThunk h ctl c))"

inductive svc_reachable :: "'w handlers \<Rightarrow> 'w \<Rightarrow> 'w controller \<Rightarrow> bool" for h w where
  svc_init: "svc_reachable h w (controller_init w)"
| svc_next: "svc_reachable h w c \<Longrightarrow> svc_step h c c' \<Longrightarrow> svc_reachable h w c'"

inductive_cases svc_stepE: "svc_step h c c'"

text \<open>The same runs with the controls the SCM has delivered, oldest first.\<close>

inductive svc_run :: "'w handlers \<Rightarrow> 'w \<Rightarrow> control list \<Rightarrow> 'w controller \<Rightarrow> bool" for h w where
  run_init: "svc_run h w [] (controller_init w)"
| run_main: "svc_run h w ctls c \<Longrightarrow> ServiceMain registered h c = Some c' \<Longrightarrow> svc_run h w ctls c'"
| run_control: "svc_run h w ctls c \<Longrightarrow> delivers c \<Longrightarrow> svc_run h w (ctls @ [ctl]) (snd (HandlerThunk h ctl c))"

lemma svc_run_reachable: "svc_run h w ctls c \<Longrightarrow> svc_reachable h w c"
  by (induction rule: svc_run.induct) (auto intro: svc_reachable.intros svc_step.intros)

lemma svc_reachable_run: "svc_reachable h w c \<Longrightarrow> \<exists>ctls. svc_run h w ctls c"
  by (induction rule: svc_reachable.induct) (auto elim!: svc_stepE intro: svc_run.intros)

section \<open>The protocol\<close>

text \<open>The transitions the SCM allows a service to report.\<close>

fun scm_next :: "service_state \<Rightarrow> service_state set" where
  "scm_next SERVICE_START_PENDING = {SERVICE_RUNNING, SERVICE_PAUSE_PENDING, SERVICE_STOP_PENDING}"
| "scm_next SERVICE_RUNNING = {SERVICE_PAUSE_PENDING, SERVICE_CONTINUE_PENDING, SERVICE_STOP_PENDING}"
| "scm_next SERVICE_PAUSE_PENDING = {SERVICE_PAUSED}"
| "scm_next SERVICE_PAUSED = {SERVICE_PAUSE_PENDING, SERVICE_CONTINUE_PENDING, SERVICE_STOP_PENDING}"
| "scm_next SERVICE_CONTINUE_PENDING = {SERVICE_RUNNING}"
| "scm_next SERVICE_STOP_PENDING = {SERVICE_STOPPED}"
| "scm_next SERVICE_STOPPED = {}"

definition scm_path :: "service_state list \<Rightarrow> bool" where
  "scm_path ss \<longleftrightarrow> successively (\<lambda>a b. b \<in> scm_next a) ss \<and> (ss = [] \<or> hd ss = SERVICE_START_PENDING)"

lemma stopped_is_last:
  assumes "scm_path ss" and "SERVICE_STOPPED \<in> set ss"
  shows "last ss = SERVICE_STOPPED"
proof -
  obtain us vs where ss: "ss = us @ SERVICE_STOPPED # vs" using assms(2) by (meson split_list)
  with assms(1) have "vs = []"
    by (cases vs) (auto simp: scm_path_def successively_append_iff)
  with ss show ?thesis by simp
qed

text \<open>What the host's callbacks have been asked so far.\<close>

datatype host_call = Starting | Stopping | Pausing | Continuing

fun run_call :: "'w handlers \<Rightarrow> host_call \<Rightarrow> 'w \<Rightarrow> 'w" where
  "run_call h Starting w = (case on_start h of None \<Rightarrow> w | Some g \<Rightarrow> g w)"
| "run_call h Stopping w = (case on_stop h of None \<Rightarrow> w | Some g \<Rightarrow> g w)"
| "run_call h Pausing w = (case on_pause h of None \<Rightarrow> w | Some g \<Rightarrow> g w)"
| "run_call h Continuing w = (case on_continue h of None \<Rightarrow> w | Some g \<Rightarrow> g w)"

text \<open>
  The calls a controller in state \<open>c\<close> has made: nothing before \<open>on_start\<close> ran, then one
  start, any pauses and continues, and one stop exactly if a stop was handled. Until a
  stop, the last of the pauses and continues is the one the controller remembers.
\<close>

definition calls_ok :: "'w controller \<Rightarrow> host_call list \<Rightarrow> bool" where
  "calls_ok c ks \<longleftrightarrow>
     (if main_at c \<in> {Register_handler, Report_start_pending, Call_on_start} \<or> main_at c = Returned \<and> reports c = []
      then ks = []
      else \<exists>mid. set mid \<subseteq> {Pausing, Continuing} \<and> (\<not> start_done c \<longrightarrow> mid = []) \<and>
        (start_done c \<and> \<not> stop_requested c \<longrightarrow> (last (Starting # mid) = Pausing) = pause_requested c) \<and>
        ks = Starting # mid @ (if start_done c \<and> stop_requested c then [Stopping] else []))"

text \<open>
  What the SCM should know of a started service that has not returned, from the controls it
  was sent: a stop or preshutdown prevails over everything, otherwise the last of the
  pauses and continues decides.
\<close>

definition settled_state :: "control list \<Rightarrow> service_state" where
  "settled_state ctls =
     (if CONTROL_STOP \<in> set ctls \<or> CONTROL_PRESHUTDOWN \<in> set ctls then SERVICE_STOP_PENDING
      else case filter (\<lambda>ctl. ctl \<in> {CONTROL_PAUSE, CONTROL_CONTINUE}) (rev ctls) of
        CONTROL_PAUSE # _ \<Rightarrow> SERVICE_PAUSED
      | _ \<Rightarrow> SERVICE_RUNNING)"

text \<open>What the handler remembers of them in its two flags.\<close>

definition flag_state :: "'w controller \<Rightarrow> service_state" where
  "flag_state c = (if stop_requested c then SERVICE_STOP_PENDING
     else if pause_requested c then SERVICE_PAUSED else SERVICE_RUNNING)"

abbreviation reported :: "'w controller \<Rightarrow> service_state list" where
  "reported c \<equiv> map dwCurrentState (reports c)"

definition svc_inv :: "'w controller \<Rightarrow> bool" where
  "svc_inv c \<longleftrightarrow> scm_path (reported c) \<and> exit_event c = stop_requested c \<and>
     (case main_at c of
        Register_handler \<Rightarrow> reports c = [] \<and> \<not> start_done c \<and> \<not> stop_requested c
      | Report_start_pending \<Rightarrow> reports c = [] \<and> \<not> start_done c
      | Call_on_start \<Rightarrow> reported c = [SERVICE_START_PENDING] \<and> \<not> start_done c
      | Finalize \<Rightarrow> reported c = [SERVICE_START_PENDING] \<and> \<not> start_done c
      | Wait_exit \<Rightarrow> start_done c \<and> known_state c = Some (flag_state c)
      | Report_stopped \<Rightarrow> start_done c \<and> stop_requested c \<and> known_state c = Some SERVICE_STOP_PENDING
      | Returned \<Rightarrow> reports c = [] \<and> \<not> start_done c \<and> \<not> stop_requested c \<or>
          start_done c \<and> stop_requested c \<and> known_state c = Some SERVICE_STOPPED)"

lemma call_simps [simp]:
  "reports (call f c) = reports c" "exit_event (call f c) = exit_event c" "start_done (call f c) = start_done c"
  "pause_requested (call f c) = pause_requested c" "stop_requested (call f c) = stop_requested c"
  "main_at (call f c) = main_at c" "world (call f c) = (case f of None \<Rightarrow> world c | Some g \<Rightarrow> g (world c))"
  by (simp_all add: call_def split: option.splits)

lemma ReportState_simps [simp]:
  "reports (ReportState st hint c) = reports c @ [status_of st hint]"
  "exit_event (ReportState st hint c) = exit_event c" "start_done (ReportState st hint c) = start_done c"
  "pause_requested (ReportState st hint c) = pause_requested c" "stop_requested (ReportState st hint c) = stop_requested c"
  "main_at (ReportState st hint c) = main_at c" "world (ReportState st hint c) = world c"
  by (simp_all add: ReportState_def)

lemma FinalizeStart_simps [simp]:
  "exit_event (FinalizeStart h c) = exit_event c" "start_done (FinalizeStart h c)"
  "pause_requested (FinalizeStart h c) = pause_requested c" "stop_requested (FinalizeStart h c) = stop_requested c"
  by (simp_all add: FinalizeStart_def Let_def)

lemma dwCurrentState_status_of [simp]: "dwCurrentState (status_of st hint) = st"
  by (simp add: status_of_def)

lemma known_state_last: "known_state c = (if reported c = [] then None else Some (last (reported c)))"
  by (simp add: known_state_def last_map)

lemmas svc_defs = svc_inv_def known_state_def flag_state_def FinalizeStart_def Let_def last_map
  scm_path_def successively_append_iff

lemma svc_inv_main:
  assumes "svc_inv c" and "ServiceMain registered h c = Some c'"
  shows "svc_inv c'"
  using assms
  by (cases "main_at c") (auto simp: ServiceMain.simps svc_defs split: if_splits)

lemma svc_inv_control:
  assumes "svc_inv c" and "delivers c"
  shows "svc_inv (snd (HandlerThunk h ctl c))"
  using assms
  by (cases ctl; cases "main_at c") (auto simp: svc_defs delivers_def split: if_splits)

lemma svc_inv_reachable: "svc_reachable h w c \<Longrightarrow> svc_inv c"
proof (induction rule: svc_reachable.induct)
  case svc_init
  show ?case by (simp add: svc_inv_def controller_init_def scm_path_def)
next
  case (svc_next c c')
  from svc_next(2,3) show ?case by (auto elim!: svc_stepE simp: svc_inv_main svc_inv_control)
qed


text \<open>The flags are the controls received, before, during and after startup.\<close>

lemma flags_main:
  "ServiceMain registered h c = Some c' \<Longrightarrow>
     stop_requested c' = stop_requested c \<and> pause_requested c' = pause_requested c"
  by (cases "main_at c") (auto simp: ServiceMain.simps split: if_splits)

lemma flags_recorded:
  assumes "svc_run h w ctls c"
  shows "stop_requested c \<longleftrightarrow> CONTROL_STOP \<in> set ctls \<or> CONTROL_PRESHUTDOWN \<in> set ctls" (is "?stop c ctls")
    and "pause_requested c \<longleftrightarrow>
      (\<exists>cs. filter (\<lambda>ctl. ctl \<in> {CONTROL_PAUSE, CONTROL_CONTINUE}) (rev ctls) = CONTROL_PAUSE # cs)" (is "?pause c ctls")
proof -
  have "?stop c ctls \<and> ?pause c ctls"
    using assms
  proof (induction rule: svc_run.induct)
    case (run_main ctls c registered c')
    then show ?case using flags_main by metis
  next
    case (run_control ctls c ctl)
    then show ?case by (cases ctl) (auto simp: Let_def)
  qed (simp add: controller_init_def)
  then show "?stop c ctls" and "?pause c ctls" by simp_all
qed

lemma flag_state_settled: "svc_run h w ctls c \<Longrightarrow> flag_state c = settled_state ctls"
  by (auto simp: flag_state_def settled_state_def flags_recorded split: list.splits control.splits)

text \<open>The calls made so far, after one more step.\<close>

lemma calls_main:
  assumes "svc_inv c" and "calls_ok c ks" and "world c = fold (run_call h) ks w"
    and "ServiceMain registered h c = Some c'"
  shows "\<exists>ks'. calls_ok c' ks' \<and> world c' = fold (run_call h) ks' w"
proof (cases "main_at c")
  case Call_on_start
  with assms have "calls_ok c' (ks @ [Starting]) \<and> world c' = fold (run_call h) (ks @ [Starting]) w"
    by (auto simp: ServiceMain.simps calls_ok_def svc_inv_def)
  then show ?thesis by blast
next
  case Finalize
  then have mid: "ks = [Starting]"
    using assms by (auto simp: calls_ok_def svc_inv_def)
  have c': "main_at c' = Wait_exit" "start_done c'" "stop_requested c' = stop_requested c"
      "pause_requested c' = pause_requested c"
    using assms(4) Finalize by (auto simp: ServiceMain.simps)
  let ?k = "if stop_requested c then [Stopping] else if pause_requested c then [Pausing] else []"
  have "world c' = fold (run_call h) (ks @ ?k) w"
    using assms(3,4) Finalize by (auto simp: ServiceMain.simps FinalizeStart_def Let_def split: option.splits)
  moreover have "calls_ok c' (ks @ ?k)"
    using mid c' by (simp add: calls_ok_def)
  ultimately show ?thesis by blast
next
  case Report_stopped
  then have "start_done c" "stop_requested c" using assms(1) by (simp_all add: svc_inv_def)
  moreover have "c' = (ReportState SERVICE_STOPPED 0 c)\<lparr>main_at := Returned\<rparr>"
    using assms(4) Report_stopped by (simp add: ServiceMain.simps)
  ultimately have "calls_ok c' ks \<and> world c' = fold (run_call h) ks w"
    using assms(2,3) Report_stopped by (simp add: calls_ok_def)
  then show ?thesis by blast
next
  case Register_handler
  with assms have "calls_ok c' ks \<and> world c' = fold (run_call h) ks w"
    by (simp add: ServiceMain.simps calls_ok_def svc_inv_def) auto
  then show ?thesis by blast
next
  case Report_start_pending
  with assms have "calls_ok c' ks \<and> world c' = fold (run_call h) ks w"
    by (simp add: ServiceMain.simps calls_ok_def) auto
  then show ?thesis by blast
next
  case Wait_exit
  with assms have "calls_ok c' ks \<and> world c' = fold (run_call h) ks w"
    by (simp add: ServiceMain.simps calls_ok_def split: if_splits) auto
  then show ?thesis by blast
qed (use assms in \<open>simp add: ServiceMain.simps\<close>)

lemma calls_control:
  assumes "svc_inv c" and "delivers c" and "calls_ok c ks" and "world c = fold (run_call h) ks w"
  shows "\<exists>ks'. calls_ok (snd (HandlerThunk h ctl c)) ks' \<and>
    world (snd (HandlerThunk h ctl c)) = fold (run_call h) ks' w"
proof (cases "start_done c")
  case False
  then have "main_at (snd (HandlerThunk h ctl c)) = main_at c"
    and "reports (snd (HandlerThunk h ctl c)) = reports c" and "\<not> start_done (snd (HandlerThunk h ctl c))"
    by (cases ctl; simp add: Let_def)+
  then have "calls_ok (snd (HandlerThunk h ctl c)) ks" using assms(3) False by (auto simp: calls_ok_def split: if_splits)
  moreover have "world (snd (HandlerThunk h ctl c)) = fold (run_call h) ks w"
    using assms(4) False by (cases ctl) (simp_all add: Let_def split: option.splits)
  ultimately show ?thesis by blast
next
  case True
  then have at: "main_at c = Wait_exit" "\<not> stop_requested c"
    using assms(1,2) by (cases "main_at c"; auto simp: svc_inv_def delivers_def known_state_def flag_state_def)+
  then obtain mid where mid: "set mid \<subseteq> {Pausing, Continuing}" "ks = Starting # mid"
      "(last (Starting # mid) = Pausing) = pause_requested c"
    using assms(3) True by (auto simp: calls_ok_def)
  let ?k = "case ctl of CONTROL_STOP \<Rightarrow> [Stopping] | CONTROL_PRESHUTDOWN \<Rightarrow> [Stopping]
    | CONTROL_PAUSE \<Rightarrow> [Pausing] | CONTROL_CONTINUE \<Rightarrow> [Continuing] | _ \<Rightarrow> []"
  have "world (snd (HandlerThunk h ctl c)) = fold (run_call h) (ks @ ?k) w"
    using assms(4) True by (cases ctl) (simp_all add: Let_def split: option.splits)
  moreover have "calls_ok (snd (HandlerThunk h ctl c)) (ks @ ?k)"
    using mid at True by (cases ctl) (auto simp: calls_ok_def Let_def intro: exI [of _ "mid @ [x]" for x])
  ultimately show ?thesis by blast
qed

lemma calls_reachable:
  "svc_reachable h w c \<Longrightarrow> \<exists>ks. calls_ok c ks \<and> world c = fold (run_call h) ks w"
proof (induction rule: svc_reachable.induct)
  case svc_init
  show ?case by (rule exI [of _ "[]"]) (simp add: calls_ok_def controller_init_def)
next
  case (svc_next c c')
  note inv = svc_inv_reachable [OF svc_next(1)]
  from svc_next(2,3) show ?case
    using calls_main [OF inv] calls_control [OF inv] by (auto elim!: svc_stepE)
qed

text \<open>\<open>ServiceMain\<close> alone, with the handler registered, for up to \<open>n\<close> steps.\<close>

fun main_steps :: "'w handlers \<Rightarrow> nat \<Rightarrow> 'w controller \<Rightarrow> 'w controller" where
  "main_steps h 0 c = c"
| "main_steps h (Suc n) c = (case ServiceMain True h c of None \<Rightarrow> c | Some c' \<Rightarrow> main_steps h n c')"

lemma main_steps_reachable: "svc_reachable h w c \<Longrightarrow> svc_reachable h w (main_steps h n c)"
proof (induction n arbitrary: c)
  case (Suc n)
  then show ?case using Suc.IH [OF svc_next [OF Suc.prems main_step]] by (auto split: option.splits)
qed simp

lemma main_steps_run: "svc_run h w ctls c \<Longrightarrow> svc_run h w ctls (main_steps h n c)"
proof (induction n arbitrary: c)
  case (Suc n)
  then show ?case using Suc.IH [OF run_main [OF Suc.prems]] by (auto split: option.splits)
qed simp

lemma stop_requested_main_steps [simp]: "stop_requested (main_steps h n c) = stop_requested c"
  by (induction n arbitrary: c) (auto dest: flags_main split: option.splits)

lemma main_steps_stop:
  assumes "svc_inv c" and "stop_requested c"
  shows "main_at (main_steps h 6 c) = Returned"
proof -
  have "exit_event c" using assms by (simp add: svc_inv_def)
  show ?thesis
    using \<open>exit_event c\<close> assms(2)
    by (cases "main_at c") (simp_all add: numeral_eq_Suc ServiceMain.simps)
qed

section \<open>Properties\<close>

text \<open>
  C6: whatever controls arrive and however they interleave with ServiceMain, what the
  service reports is a legal SCM sequence that starts with START_PENDING: nothing before
  ServiceMain reports it, nothing else until startup is over, and once ServiceMain waits the
  state the controls received settle: STOP_PENDING after a stop or preshutdown, otherwise
  PAUSED exactly if the last pause or continue received was a pause, otherwise RUNNING; the
  controls count from the first one on, so one that arrives during startup is not lost.
  STOPPED is reported only by a ServiceMain that returned.
\<close>

theorem reported_states_legal:
  assumes "svc_run h w ctls c"
  shows "scm_path (reported c) \<and>
    (main_at c \<in> {Register_handler, Report_start_pending} \<longrightarrow> reported c = []) \<and>
    (main_at c \<in> {Call_on_start, Finalize} \<longrightarrow> reported c = [SERVICE_START_PENDING]) \<and>
    (main_at c = Wait_exit \<longrightarrow> known_state c = Some (settled_state ctls)) \<and>
    (SERVICE_STOPPED \<in> set (reported c) \<longrightarrow> main_at c = Returned)"
proof -
  have inv: "svc_inv c" by (rule svc_inv_reachable [OF svc_run_reachable [OF assms]])
  have "known_state c = Some SERVICE_STOPPED" if "SERVICE_STOPPED \<in> set (reported c)"
    using inv stopped_is_last [OF _ that] that by (auto simp: svc_inv_def known_state_last)
  then show ?thesis
    using inv flag_state_settled [OF assms]
    by (cases "main_at c") (auto simp: svc_inv_def flag_state_def split: if_splits)
qed

definition no_handlers :: "unit handlers" where
  "no_handlers = \<lparr>on_start = None, on_stop = None, on_pause = None, on_continue = None\<rparr>"

lemma during_startup:
  "svc_run no_handlers () [] (main_steps no_handlers 2 (controller_init ()))"
  "delivers (main_steps no_handlers 2 (controller_init ()))"
  by (rule main_steps_run [OF run_init])
     (simp add: delivers_def known_state_def controller_init_def numeral_eq_Suc ServiceMain.simps)

theorem reported_states_legal_witness:
  "\<exists>c. svc_run no_handlers () [CONTROL_PAUSE] c \<and> known_state c = Some SERVICE_PAUSED"
proof -
  let ?c1 = "snd (HandlerThunk no_handlers CONTROL_PAUSE (main_steps no_handlers 2 (controller_init ())))"
  let ?c2 = "main_steps no_handlers 2 ?c1"
  have "svc_run no_handlers () [CONTROL_PAUSE] ?c1" using run_control [OF during_startup, of CONTROL_PAUSE] by (simp only: append_Nil)
  then have r: "svc_run no_handlers () [CONTROL_PAUSE] ?c2" by (rule main_steps_run)
  have "main_at ?c2 = Wait_exit"
    by (simp add: controller_init_def numeral_eq_Suc ServiceMain.simps Let_def FinalizeStart_def)
  moreover have "settled_state [CONTROL_PAUSE] = SERVICE_PAUSED" by (simp add: settled_state_def)
  moreover have "main_at ?c2 = Wait_exit \<longrightarrow> known_state ?c2 = Some (settled_state [CONTROL_PAUSE])"
    using reported_states_legal [OF r] by (elim conjE)
  ultimately have "known_state ?c2 = Some SERVICE_PAUSED" by (simp only: simp_thms)
  with r show ?thesis by (intro exI conjI)
qed

text \<open>
  The host is called in order: on_start exactly once and first, then pauses and
  continues, and on_stop exactly once, last, exactly when a stop was handled after
  startup; the world the callbacks act on is the effect of those calls.
\<close>

theorem host_calls_in_order:
  assumes "svc_reachable h w c" and "start_done c"
  shows "\<exists>mid. set mid \<subseteq> {Pausing, Continuing} \<and>
    world c = fold (run_call h) (Starting # mid @ (if stop_requested c then [Stopping] else [])) w"
proof -
  have inv: "svc_inv c" by (rule svc_inv_reachable [OF assms(1)])
  obtain ks where "calls_ok c ks" "world c = fold (run_call h) ks w"
    using calls_reachable [OF assms(1)] by blast
  moreover have "main_at c \<notin> {Register_handler, Report_start_pending, Call_on_start} \<and> reports c \<noteq> []"
    using inv assms(2) by (cases "main_at c") (auto simp: svc_inv_def known_state_def)
  ultimately show ?thesis using assms(2) by (auto simp: calls_ok_def)
qed

theorem host_calls_in_order_witness:
  "\<exists>mid. set mid \<subseteq> {Pausing, Continuing} \<and>
     world (main_steps no_handlers 4 (controller_init ())) = fold (run_call no_handlers) (Starting # mid @ []) ()"
proof -
  have r: "svc_reachable no_handlers () (main_steps no_handlers 4 (controller_init ()))"
    by (rule main_steps_reachable [OF svc_init])
  have "start_done (main_steps no_handlers 4 (controller_init ()))"
    "\<not> stop_requested (main_steps no_handlers 4 (controller_init ()))"
    by (simp_all add: controller_init_def numeral_eq_Suc ServiceMain.simps Let_def FinalizeStart_def)
  with host_calls_in_order [OF r] show ?thesis by simp
qed

text \<open>
  C29: a stop is never lost: once the handler has received a STOP or PRESHUTDOWN control, at
  any point of the run and also during startup, ServiceMain returns within six of its own
  steps, with SERVICE_STOPPED as the last report.
\<close>

theorem stop_always_completes:
  assumes "svc_run h w ctls c" and "CONTROL_STOP \<in> set ctls \<or> CONTROL_PRESHUTDOWN \<in> set ctls"
  shows "main_at (main_steps h 6 c) = Returned \<and> known_state (main_steps h 6 c) = Some SERVICE_STOPPED"
proof -
  note r = svc_run_reachable [OF assms(1)]
  have stop: "stop_requested c" using assms(2) by (simp add: flags_recorded [OF assms(1)])
  have ret: "main_at (main_steps h 6 c) = Returned" by (rule main_steps_stop [OF svc_inv_reachable [OF r] stop])
  have "svc_inv (main_steps h 6 c)" by (rule svc_inv_reachable [OF main_steps_reachable [OF r]])
  then show ?thesis using ret stop by (simp add: svc_inv_def)
qed

theorem stop_always_completes_witness:
  "known_state (main_steps no_handlers 6 (snd (HandlerThunk no_handlers CONTROL_STOP
     (main_steps no_handlers 2 (controller_init ()))))) = Some SERVICE_STOPPED"
  using stop_always_completes [OF run_control [OF during_startup, of CONTROL_STOP]] by simp

section \<open>The dispatcher\<close>

text \<open>
  \<open>Run\<close>: \<open>StartServiceCtrlDispatcherW\<close> fails when the process was not started by the SCM;
  otherwise it returns when the service's \<open>ServiceMain\<close> has, after whatever controls came
  in between. While it runs, \<open>instance_\<close> is this controller.
\<close>

inductive controller_Run :: "'w handlers \<Rightarrow> 'w controller \<Rightarrow> bool \<Rightarrow> 'w controller \<Rightarrow> bool" for h c where
  not_dispatched: "controller_Run h c False c"
| dispatched: "rtranclp (svc_step h) c c' \<Longrightarrow> main_at c' = Returned \<Longrightarrow> controller_Run h c True c'"

inductive_cases controller_Run_TrueE: "controller_Run h c True c'"

lemma steps_reachable: "rtranclp (svc_step h) c c' \<Longrightarrow> svc_reachable h w c \<Longrightarrow> svc_reachable h w c'"
  by (induction rule: rtranclp_induct) (auto intro: svc_next)

lemma main_steps_rtranclp: "rtranclp (svc_step h) c (main_steps h n c)"
  by (induction n arbitrary: c) (auto split: option.splits intro: converse_rtranclp_into_rtranclp main_step)

text \<open>
  When it returns true the service was stopped: the host was started once and stopped once,
  last, and the SCM knows it; unless the handler could not be registered.
\<close>

lemma Run_returns_stopped:
  assumes "controller_Run h (controller_init w) True c"
  shows "reports c = [] \<and> world c = w \<or>
    known_state c = Some SERVICE_STOPPED \<and>
    (\<exists>mid. set mid \<subseteq> {Pausing, Continuing} \<and> world c = fold (run_call h) (Starting # mid @ [Stopping]) w)"
proof -
  have r: "svc_reachable h w c" and ret: "main_at c = Returned"
    using assms steps_reachable [OF _ svc_init] by (auto elim!: controller_Run_TrueE)
  have inv: "svc_inv c" by (rule svc_inv_reachable [OF r])
  obtain ks where ks: "calls_ok c ks" "world c = fold (run_call h) ks w" using calls_reachable [OF r] by blast
  show ?thesis
  proof (cases "reports c = []")
    case True
    then show ?thesis using ks ret by (simp add: calls_ok_def)
  next
    case False
    then have "start_done c" "stop_requested c" "known_state c = Some SERVICE_STOPPED"
      using inv ret by (auto simp: svc_inv_def)
    then show ?thesis using ks ret False by (auto simp: calls_ok_def simp del: fold_append)
  qed
qed

end
