(* ===== verification/Service_Host.thy ===== *)
theory Service_Host
  imports Profile_Manager Telemetry_Hub Pipeline Paths Service_Controller
begin

text \<open>
  \<open>apps/hwpanel-service/service_host.cpp\<close> and its header: the composition root of the
  service. It owns the hub, the event bus, the profile manager, the collector pipeline
  and the gRPC server, and is what the SCM controller and the console mode drive.
\<close>

section \<open>State\<close>

record ('b, 'e) service_host =
  host_hub :: telemetry_hub
  host_manager :: "('e manager_config \<times> watch_state) option"
  host_store :: "('b, 'e) manager_state"
  host_pipeline :: "('e, telemetry_hub) pipeline"
  host_tick_callback :: "telemetry_hub tick_callback"
  host_server :: "string option"
  host_endpoint :: string
  host_started_at :: int
  host_running :: bool
  host_paused :: bool

definition ServiceHost :: "'b file_system \<Rightarrow> 'e \<Rightarrow> ('b, 'e) service_host" where
  "ServiceHost fs e = \<lparr>host_hub = TelemetryHub kDefaultHistoryCapacity, host_manager = None,
     host_store = \<lparr>pm_fs = fs, pm_bus = registry_empty, pm_env = e\<rparr>, host_pipeline = empty_pipeline,
     host_tick_callback = None, host_server = None, host_endpoint = [], host_started_at = 0,
     host_running = False, host_paused = False\<rparr>"

text \<open>
  What \<open>Start\<close> meets outside the program: the JSON library and what an aborted write
  leaves, the plugins the factories make, whether gRPC can listen on an address, whether
  the watcher's handles open, and the two clocks.
\<close>

record ('b, 'e) host_env =
  he_json :: "'b json_library"
  he_no_bytes :: 'b
  he_executors :: "'e executor list"
  he_collectors :: "'e collector list"
  he_binds :: "string \<Rightarrow> bool"
  he_watch :: "bool \<times> bool"
  he_steady_now :: int
  he_now :: int

datatype start_outcome = Returned_bool bool | Threw json_error | Terminated

definition kSampleInterval :: int where "kSampleInterval = 1000"

definition BuildServer :: "(string \<Rightarrow> bool) \<Rightarrow> string \<Rightarrow> string option" where
  "BuildServer binds address = (if binds address then Some address else None)"

section \<open>Operations\<close>

text \<open>The part of \<open>Start\<close> before the server: profiles, plugins, pipeline, watcher.\<close>

definition start_parts :: "('b, 'e) host_env \<Rightarrow> ('b, 'e) service_host \<Rightarrow>
    start_outcome option \<times> ('b, 'e) service_host" where
  "start_parts env h =
     (case store_EnsureDefaults (he_json env) (he_no_bytes env) (pm_fs (host_store h)) of
        (Inl err, fs) \<Rightarrow> (Some (Threw err), h\<lparr>host_store := (host_store h)\<lparr>pm_fs := fs\<rparr>\<rparr>)
      | (Inr _, fs) \<Rightarrow>
          (let h = h\<lparr>host_store := (host_store h)\<lparr>pm_fs := fs\<rparr>,
                     host_manager := Some (\<lparr>executors = he_executors env, has_events = True\<rparr>, watch_init),
                     host_pipeline := fold pl_Register (he_collectors env) (host_pipeline h),
                     host_tick_callback := Some hub_Publish\<rparr>
           in case pl_Start (kSampleInterval, host_tick_callback h) (host_pipeline h) of
                None \<Rightarrow> (Some Terminated, h)
              | Some p \<Rightarrow>
                  (case StartFileWatch (he_watch env) watch_init of
                     None \<Rightarrow> (Some Terminated, h\<lparr>host_pipeline := p\<rparr>)
                   | Some w \<Rightarrow> (None, h\<lparr>host_pipeline := p,
                       host_manager := Some (\<lparr>executors = he_executors env, has_events = True\<rparr>, w)\<rparr>))))"

definition host_Start :: "('b, 'e) host_env \<Rightarrow> string \<Rightarrow> ('b, 'e) service_host \<Rightarrow>
    start_outcome \<times> ('b, 'e) service_host" where
  "host_Start env endpoint h =
     (if host_running h then (Returned_bool True, h)
      else case start_parts env h of
        (Some out, h) \<Rightarrow> (out, h)
      | (None, h) \<Rightarrow>
          (let server = BuildServer (he_binds env) endpoint;
               (actual, server) =
                 (if server = None \<and> IsNamedPipeAddress endpoint
                  then (TcpAddress kDefaultTcpPort, BuildServer (he_binds env) (TcpAddress kDefaultTcpPort))
                  else (endpoint, server))
           in if server = None then (Returned_bool False, h\<lparr>host_server := None\<rparr>)
              else (Returned_bool True, h\<lparr>host_server := server, host_endpoint := actual,
                 host_started_at := he_steady_now env, host_running := True,
                 host_store := (host_store h)\<lparr>pm_bus :=
                   PublishNow (he_now env) ''info'' ''Service started'' actual (pm_bus (host_store h))\<rparr>\<rparr>)))"

definition host_Stop :: "('b, 'e) service_host \<Rightarrow> ('b, 'e) service_host" where
  "host_Stop h =
     (if \<not> host_running h then h
      else h\<lparr>host_running := False, host_pipeline := pl_Stop (host_pipeline h),
             host_manager := map_option (\<lambda>(cfg, w). (cfg, StopFileWatch w)) (host_manager h)\<rparr>)"

text \<open>
  The destructor stops, then destroys the members in reverse order: among them the pipeline
  and the manager with its watch. \<open>None\<close>: the process is terminated.
\<close>

definition host_destroy :: "('b, 'e) service_host \<Rightarrow> unit option" where
  "host_destroy h =
     (let h = host_Stop h
      in case pl_destroy (host_pipeline h) of
           None \<Rightarrow> None
         | Some _ \<Rightarrow> (case host_manager h of None \<Rightarrow> Some () | Some (_, w) \<Rightarrow> watch_destroy w))"

definition PauseCollectors :: "('b, 'e) service_host \<Rightarrow> ('b, 'e) service_host" where
  "PauseCollectors h =
     (if host_paused h then h else h\<lparr>host_paused := True, host_pipeline := pl_Stop (host_pipeline h)\<rparr>)"

text \<open>\<open>None\<close>: the process is terminated.\<close>

definition ResumeCollectors :: "('b, 'e) service_host \<Rightarrow> ('b, 'e) service_host option" where
  "ResumeCollectors h =
     (if \<not> host_paused h then Some h
      else map_option (\<lambda>p. h\<lparr>host_paused := False, host_pipeline := p\<rparr>)
             (pl_Start (kSampleInterval, host_tick_callback h) (host_pipeline h)))"

definition StateName :: "('b, 'e) service_host \<Rightarrow> string" where
  "StateName h = (if \<not> host_running h then ''STOPPED'' else if host_paused h then ''PAUSED'' else ''RUNNING'')"

definition UptimeMs :: "int \<Rightarrow> ('b, 'e) service_host \<Rightarrow> int" where
  "UptimeMs steady_now h =
     (if \<not> host_running h then 0 else (steady_now - host_started_at h) div 1000000)"

text \<open>\<open>ServiceStatus\<close> as the status provider fills it.\<close>

record service_status_message =
  st_version :: string
  st_state :: string
  st_uptime_ms :: int
  st_endpoint :: string

definition host_status :: "int \<Rightarrow> ('b, 'e) service_host \<Rightarrow> service_status_message" where
  "host_status steady_now h = \<lparr>st_version = ''0.1.0'', st_state = StateName h,
     st_uptime_ms = UptimeMs steady_now h, st_endpoint = host_endpoint h\<rparr>"

section \<open>Invariant\<close>

text \<open>
  The pipeline's thread follows its flag; while the host runs, collecting is the opposite
  of paused, and the callback that feeds the hub is installed.
\<close>

definition host_inv :: "('b, 'e) service_host \<Rightarrow> bool" where
  "host_inv h \<longleftrightarrow> pipeline_thread.life_ok (host_pipeline h) \<and>
     (host_running h \<longrightarrow> pl_running (host_pipeline h) = (\<not> host_paused h) \<and> host_tick_callback h = Some hub_Publish)"

lemma host_inv_init [inv_rules]: "host_inv (ServiceHost fs e)"
  by (simp add: host_inv_def ServiceHost_def pipeline_thread.life_ok_def empty_pipeline_def)

lemma pl_flags_Register [simp]:
  "pl_running (fold pl_Register cs p) = pl_running p" "pl_joinable (fold pl_Register cs p) = pl_joinable p"
  "pl_collectors (fold pl_Register cs p) = pl_collectors p @ cs"
  by (induction cs arbitrary: p) (simp_all add: pl_Register_def)

lemma pl_Start_ok:
  "pipeline_thread.life_ok p \<Longrightarrow> \<exists>q. pl_Start a p = Some q \<and> pipeline_thread.life_ok q \<and> pl_running q \<and>
     pl_collectors q = pl_collectors p"
  by (auto simp: pl_Start_def pipeline_thread.life_ok_def assign_thread_def)

lemma pl_Stop_ok:
  "pipeline_thread.life_ok p \<Longrightarrow> pipeline_thread.life_ok (pl_Stop p) \<and> \<not> pl_running (pl_Stop p)"
  using pipeline_thread.life_ok_stop pipeline_thread.stop_not_joinable by blast

lemma watch_start_init: "StartFileWatch a watch_init \<noteq> None"
  by (cases a) (simp add: StartFileWatch_def watch_init_def assign_thread_def)

lemma host_inv_Stop [inv_rules]: "host_inv h \<Longrightarrow> host_inv (host_Stop h)"
  by (auto simp: host_inv_def host_Stop_def pl_Stop_ok)

lemma host_inv_Pause [inv_rules]: "host_inv h \<Longrightarrow> host_inv (PauseCollectors h)"
  by (auto simp: host_inv_def PauseCollectors_def pl_Stop_ok)

lemma host_inv_Resume:
  assumes "host_inv h"
  obtains h' where "ResumeCollectors h = Some h'" and "host_inv h'" and "\<not> host_paused h'"
    and "host_running h' = host_running h"
proof -
  obtain q where "pl_Start (kSampleInterval, host_tick_callback h) (host_pipeline h) = Some q"
    and "pipeline_thread.life_ok q" "pl_running q"
    using pl_Start_ok assms unfolding host_inv_def by blast
  then have "host_paused h \<Longrightarrow> ?thesis"
    using assms by (intro that [of "h\<lparr>host_paused := False, host_pipeline := q\<rparr>"])
      (simp_all add: ResumeCollectors_def host_inv_def)
  moreover have "\<not> host_paused h \<Longrightarrow> ?thesis"
    using assms by (intro that [of h]) (simp_all add: ResumeCollectors_def)
  ultimately show thesis by blast
qed

text \<open>Starting a host that is neither running nor paused keeps the invariant and never terminates.\<close>

lemma start_parts_ok:
  assumes "host_inv h" and "\<not> host_running h"
  obtains e h' where "start_parts env h = (Some (Threw e), h')" and "host_inv h'"
      and "host_running h' = False" "host_paused h' = host_paused h"
  | h' where "start_parts env h = (None, h')" and "pipeline_thread.life_ok (host_pipeline h')"
      and "pl_running (host_pipeline h')" and "host_tick_callback h' = Some hub_Publish"
      and "host_running h' = False" "host_paused h' = host_paused h"
proof -
  let ?p = "fold pl_Register (he_collectors env) (host_pipeline h)"
  have "pipeline_thread.life_ok ?p" using assms(1) by (simp add: host_inv_def pipeline_thread.life_ok_def)
  then obtain q where q: "pl_Start (kSampleInterval, Some hub_Publish) ?p = Some q"
    "pipeline_thread.life_ok q" "pl_running q"
    using pl_Start_ok by blast
  obtain w where w: "StartFileWatch (he_watch env) watch_init = Some w"
    using watch_start_init by blast
  obtain r fs where r: "store_EnsureDefaults (he_json env) (he_no_bytes env) (pm_fs (host_store h)) = (r, fs)"
    by (cases "store_EnsureDefaults (he_json env) (he_no_bytes env) (pm_fs (host_store h))")
  show thesis
  proof (cases r)
    case (Inl e)
    then show ?thesis using that(1) [of e] r assms by (simp add: start_parts_def host_inv_def)
  next
    case (Inr u)
    then show ?thesis using that(2) r q w assms by (simp add: start_parts_def)
  qed
qed

section \<open>Starting\<close>

text \<open>The address the server ends up on, if any: the requested one, or TCP in place of a named pipe.\<close>

definition bound_address :: "(string \<Rightarrow> bool) \<Rightarrow> string \<Rightarrow> string option" where
  "bound_address binds ep =
     (if binds ep then Some ep
      else if IsNamedPipeAddress ep \<and> binds (TcpAddress kDefaultTcpPort) then Some (TcpAddress kDefaultTcpPort)
      else None)"

lemma host_Start_cases:
  assumes "host_inv h" and "\<not> host_running h" and "host_Start env ep h = (out, h')"
  shows "(\<exists>e. out = Threw e) \<and> \<not> host_running h' \<and> host_inv h' \<or>
    (case bound_address (he_binds env) ep of
       None \<Rightarrow> out = Returned_bool False \<and> \<not> host_running h' \<and> pl_running (host_pipeline h') \<and> host_inv h'
     | Some a \<Rightarrow> out = Returned_bool True \<and> host_running h' \<and> host_endpoint h' = a \<and> host_server h' = Some a \<and>
         pl_running (host_pipeline h') \<and> host_paused h' = host_paused h \<and>
         pipeline_thread.life_ok (host_pipeline h') \<and> host_tick_callback h' = Some hub_Publish)"
  using start_parts_ok [OF assms(1,2), of env]
proof cases
  case (1 e h1)
  then show ?thesis using assms(2,3) by (auto simp: host_Start_def)
next
  case (2 h1)
  have run: "host_Start env ep h = (out, h')" "start_parts env h = (None, h1)" by (rule assms(3), rule 2(1))
  show ?thesis
  proof (cases "bound_address (he_binds env) ep")
    case None
    then have "(out, h') = (Returned_bool False, h1\<lparr>host_server := None\<rparr>)"
      using run assms(2) by (simp add: host_Start_def bound_address_def BuildServer_def Let_def split: if_splits)
    then show ?thesis using None 2 by (simp add: host_inv_def)
  next
    case (Some a)
    then have "(out, h') = (Returned_bool True, h1\<lparr>host_server := Some a, host_endpoint := a,
        host_started_at := he_steady_now env, host_running := True,
        host_store := (host_store h1)\<lparr>pm_bus :=
          PublishNow (he_now env) ''info'' ''Service started'' a (pm_bus (host_store h1))\<rparr>\<rparr>)"
      using run assms(2) by (simp add: host_Start_def bound_address_def BuildServer_def Let_def split: if_splits)
    then show ?thesis using Some 2 by simp
  qed
qed

text \<open>What a fresh host that has started collects with.\<close>

lemma host_Start_collects:
  assumes "host_Start env ep (ServiceHost fs e) = (Returned_bool True, h)"
  shows "pl_collectors (host_pipeline h) = he_collectors env"
    and "pl_loop (host_pipeline h) = Some (kSampleInterval, Some hub_Publish)"
    and "host_hub h = TelemetryHub kDefaultHistoryCapacity" and "pm_env (host_store h) = e"
  using assms
  by (auto simp: host_Start_def start_parts_def ServiceHost_def pl_Start_def empty_pipeline_def assign_thread_def Let_def
      split: prod.splits sum.splits option.splits if_splits)

lemma start_parts_throws:
  "start_parts env h = (Some (Threw e), h') \<Longrightarrow>
     fst (store_EnsureDefaults (he_json env) (he_no_bytes env) (pm_fs (host_store h))) = Inl e"
  by (auto simp: start_parts_def Let_def split: prod.splits sum.splits option.splits)

section \<open>Under the service controller\<close>

text \<open>
  The callbacks \<open>RunService\<close> of \<open>apps/hwpanel-service/main.cpp\<close> gives the controller, the first
  of them from where the log is up (\<open>Service_Main\<close> adds that). The outcome of \<open>Start\<close> is only logged. The world is \<open>None\<close> once an exception or
  \<open>std::terminate\<close> has ended the process.
\<close>

definition host_handlers :: "('b, 'e) host_env \<Rightarrow> string \<Rightarrow> ('b, 'e) service_host option handlers" where
  "host_handlers env ep = \<lparr>
     on_start = Some (\<lambda>w. Option.bind w (\<lambda>h. case host_Start env ep h of
                          (Returned_bool _, h') \<Rightarrow> Some h' | _ \<Rightarrow> None)),
     on_stop = Some (map_option host_Stop),
     on_pause = Some (map_option PauseCollectors),
     on_continue = Some (\<lambda>w. Option.bind w ResumeCollectors)\<rparr>"

lemma host_pauses:
  assumes "host_inv h" and "host_running h" and "\<not> host_paused h" and "set mid \<subseteq> {Pausing, Continuing}"
  shows "\<exists>h'. fold (run_call (host_handlers env ep)) mid (Some h) = Some h' \<and> host_inv h' \<and> host_running h' \<and>
    host_paused h' = (last (Starting # mid) = Pausing)"
  using assms(4)
proof (induction mid rule: rev_induct)
  case Nil
  then show ?case using assms by simp
next
  case (snoc k mid)
  then obtain h' where h': "fold (run_call (host_handlers env ep)) mid (Some h) = Some h'"
    "host_inv h'" "host_running h'" by auto
  show ?case
  proof (cases "k = Pausing")
    case True
    then show ?thesis using h' host_inv_Pause [OF h'(2)]
      by (auto simp: host_handlers_def PauseCollectors_def)
  next
    case False
    then have "k = Continuing" using snoc(2) by auto
    then show ?thesis using h' host_inv_Resume [OF h'(2)] by (auto simp: host_handlers_def)
  qed
qed

lemma host_inv_running: "host_inv h \<Longrightarrow> host_running h \<Longrightarrow> pl_running (host_pipeline h) = (\<not> host_paused h)"
  by (simp add: host_inv_def)

text \<open>
  C5: if the host starts, the state reported to the SCM while ServiceMain waits is the
  state of the host, whatever controls have arrived: RUNNING while it collects, PAUSED
  while it serves without collecting, STOP_PENDING once it is stopped; its status answer
  names the same state and the process is alive.
\<close>

theorem scm_state_matches_host:
  assumes "svc_reachable (host_handlers env ep) (Some (ServiceHost fs e)) c" and "main_at c = Wait_exit"
    and "fst (host_Start env ep (ServiceHost fs e)) = Returned_bool True"
  shows "\<exists>h. world c = Some h \<and> host_inv h \<and>
    (known_state c, StateName h, pl_running (host_pipeline h)) \<in>
      {(Some SERVICE_RUNNING, ''RUNNING'', True), (Some SERVICE_PAUSED, ''PAUSED'', False),
       (Some SERVICE_STOP_PENDING, ''STOPPED'', False)}"
proof -
  let ?H = "host_handlers env ep"
  obtain h1 where h1: "host_Start env ep (ServiceHost fs e) = (Returned_bool True, h1)"
    using assms(3) by (metis prod.collapse)
  have up: "host_inv h1" "host_running h1" "\<not> host_paused h1"
    using host_Start_cases [OF host_inv_init _ h1]
    by (auto simp: ServiceHost_def host_inv_def split: option.splits)
  have inv: "svc_inv c" by (rule svc_inv_reachable [OF assms(1)])
  then have known: "known_state c = Some (flag_state c)" "start_done c"
    using assms(2) by (simp_all add: svc_inv_def)
  obtain ks where ks: "calls_ok c ks" "world c = fold (run_call ?H) ks (Some (ServiceHost fs e))"
    using calls_reachable [OF assms(1)] by blast
  then obtain mid where mid: "set mid \<subseteq> {Pausing, Continuing}"
      "\<not> stop_requested c \<Longrightarrow> (last (Starting # mid) = Pausing) = pause_requested c"
      "ks = Starting # mid @ (if stop_requested c then [Stopping] else [])"
    using known(2) assms(2) by (auto simp: calls_ok_def)
  obtain h2 where h2: "fold (run_call ?H) mid (Some h1) = Some h2" "host_inv h2" "host_running h2"
      "host_paused h2 = (last (Starting # mid) = Pausing)"
    using host_pauses [OF up mid(1), of env ep] by blast
  have start: "run_call ?H Starting (Some (ServiceHost fs e)) = Some h1"
    using h1 by (simp add: host_handlers_def)
  have w: "world c = (if stop_requested c then run_call ?H Stopping (Some h2) else Some h2)"
    using ks(2) start h2(1) by (simp add: mid(3) del: run_call.simps)
  show ?thesis
  proof (cases "stop_requested c")
    case True
    have "world c = Some (host_Stop h2)" using w True by (simp add: host_handlers_def)
    moreover have "host_inv (host_Stop h2)" by (rule host_inv_Stop [OF h2(2)])
    moreover have "\<not> pl_running (host_pipeline (host_Stop h2))" "\<not> host_running (host_Stop h2)"
      using h2(2,3) pl_Stop_ok by (auto simp: host_Stop_def host_inv_def)
    ultimately show ?thesis using known(1) True by (simp add: flag_state_def StateName_def)
  next
    case False
    then show ?thesis
      using w known(1) mid(2) h2(2,3,4) host_inv_running [OF h2(2,3)]
      by (simp add: flag_state_def StateName_def)
  qed
qed

text \<open>
  C38: when the host cannot bind, the service is reported RUNNING all the same, while its
  host answers that it is stopped; its collectors keep running and stopping the host does
  not stop them.
\<close>

theorem failed_start_reported_running:
  assumes "bound_address (he_binds env) ep = None"
    and "fst (store_EnsureDefaults (he_json env) (he_no_bytes env) fs) = Inr ()"
  shows "\<exists>c h. svc_reachable (host_handlers env ep) (Some (ServiceHost fs e)) c \<and>
    known_state c = Some SERVICE_RUNNING \<and> world c = Some h \<and> StateName h = ''STOPPED'' \<and>
    pl_running (host_pipeline h) \<and> host_Stop h = h"
proof -
  obtain out h where s: "host_Start env ep (ServiceHost fs e) = (out, h)"
    by (cases "host_Start env ep (ServiceHost fs e)")
  have nothrow: "out \<noteq> Threw x" for x
  proof
    assume "out = Threw x"
    with s have "start_parts env (ServiceHost fs e) = (Some (Threw x), h)"
      by (auto simp: host_Start_def ServiceHost_def Let_def split: prod.splits option.splits if_splits)
    from start_parts_throws [OF this] assms(2) show False by (simp add: ServiceHost_def)
  qed
  have h: "out = Returned_bool False" "\<not> host_running h" "pl_running (host_pipeline h)"
    using host_Start_cases [OF host_inv_init _ s] nothrow assms(1) by (auto simp: ServiceHost_def)
  let ?c = "main_steps (host_handlers env ep) 4 (controller_init (Some (ServiceHost fs e)))"
  have "svc_reachable (host_handlers env ep) (Some (ServiceHost fs e)) ?c"
    by (rule main_steps_reachable [OF svc_init])
  moreover have "world ?c = Some h"
    using s h(1) by (simp add: controller_init_def numeral_eq_Suc ServiceMain.simps FinalizeStart_def Let_def host_handlers_def)
  moreover have "known_state ?c = Some SERVICE_RUNNING"
    by (simp add: controller_init_def numeral_eq_Suc ServiceMain.simps FinalizeStart_def Let_def known_state_def)
  ultimately show ?thesis using h(2,3) by (auto simp: StateName_def host_Stop_def)
qed

section \<open>Destroying a host\<close>

text \<open>The watch of a manager has a thread exactly while it watches; the pauses leave it alone.\<close>

definition host_watch_ok :: "('b, 'e) service_host \<Rightarrow> bool" where
  "host_watch_ok h \<longleftrightarrow> (\<forall>cfg w. host_manager h = Some (cfg, w) \<longrightarrow> watcher_thread.life_ok w)"

lemma host_watch_Start:
  assumes "host_Start env ep (ServiceHost fs e) = (out, h)"
  shows "host_watch_ok h"
  using assms
  by (cases "he_watch env")
    (auto simp: host_watch_ok_def watcher_thread.life_ok_def host_Start_def start_parts_def ServiceHost_def
      StartFileWatch_def watch_init_def assign_thread_def Let_def split: prod.splits sum.splits option.splits if_splits)

lemma host_watch_Stop: "host_watch_ok h \<Longrightarrow> host_watch_ok (host_Stop h)"
  using watcher_thread.life_ok_stop by (auto simp: host_watch_ok_def host_Stop_def)

lemma host_watch_pauses:
  assumes "host_watch_ok h" and "set mid \<subseteq> {Pausing, Continuing}"
    and "fold (run_call (host_handlers env ep)) mid (Some h) = Some h'"
  shows "host_watch_ok h'"
  using assms
proof (induction mid arbitrary: h)
  case (Cons k mid)
  have dead: "fold (run_call (host_handlers env ep)) ks None = None" if "set ks \<subseteq> {Pausing, Continuing}" for ks
    using that by (induction ks) (auto simp: host_handlers_def)
  obtain h1 where one: "run_call (host_handlers env ep) k (Some h) = Some h1"
    using Cons.prems(2,3) dead [of mid] by (cases "run_call (host_handlers env ep) k (Some h)") auto
  moreover have "host_watch_ok h1"
    using one Cons.prems(1,2) by (auto simp: host_watch_ok_def host_handlers_def PauseCollectors_def ResumeCollectors_def split: if_splits)
  ultimately show ?case using Cons by simp
qed simp

lemma host_destroy_ok:
  assumes "host_inv h" and "host_watch_ok h"
  shows "host_destroy h = Some ()"
proof -
  have p: "pl_destroy (host_pipeline (host_Stop h)) = Some ()"
    using host_inv_Stop [OF assms(1)] pipeline_thread.stop_not_joinable
    by (auto simp: host_inv_def pl_destroy_def destroy_thread_def)
  have "watch_destroy w = Some ()" if "host_manager (host_Stop h) = Some (cfg, w)" for cfg w
    using host_watch_Stop [OF assms(2)] that watcher_thread.stop_not_joinable
    by (auto simp: host_watch_ok_def watch_destroy_def destroy_thread_def)
  then show ?thesis using p by (auto simp: host_destroy_def Let_def split: option.splits)
qed

text \<open>However its start ended, a host is destroyed without ending the process: a thread left running by a failed start is joined.\<close>

lemma destroy_after_start:
  assumes "host_Start env ep (ServiceHost fs e) = (out, h)"
  shows "host_destroy h = Some ()"
  using assms
  by (cases "he_watch env")
    (auto simp: host_destroy_def host_Start_def start_parts_def ServiceHost_def host_Stop_def pl_Start_def pl_Stop_def
      pl_destroy_def watch_destroy_def StartFileWatch_def StopFileWatch_def watch_init_def empty_pipeline_def
      assign_thread_def destroy_thread_def Let_def split: prod.splits sum.splits option.splits if_splits)

section \<open>Starting again, and calls during a start\<close>

text \<open>
  A host that was stopped and is started again registers the collectors a second time, so
  each reports twice per tick; and a pause survives the stop: the new run collects although
  it answers PAUSED, and a pause request does nothing.
\<close>

lemma restart_registers_twice:
  assumes "host_Start env ep (ServiceHost fs e) = (Returned_bool True, h)"
    and "host_Start env ep (host_Stop h) = (Returned_bool True, h')"
  shows "pl_collectors (host_pipeline h') = he_collectors env @ he_collectors env"
proof -
  have "pl_collectors (host_pipeline (host_Stop h)) = he_collectors env" "\<not> host_running (host_Stop h)"
    using host_Start_collects(1) [OF assms(1)] by (simp_all add: host_Stop_def pl_Stop_def)
  then show ?thesis
    using assms(2) by (auto simp: host_Start_def start_parts_def Let_def pl_Start_def assign_thread_def
        split: prod.splits sum.splits option.splits if_splits)
qed

lemma restart_keeps_pause:
  assumes "host_inv h" and "host_running h"
    and "host_Start env ep (host_Stop (PauseCollectors h)) = (Returned_bool True, h')"
  shows "StateName h' = ''PAUSED'' \<and> pl_running (host_pipeline h') \<and> PauseCollectors h' = h'"
proof -
  let ?g = "host_Stop (PauseCollectors h)"
  have "host_inv ?g" by (intro host_inv_Stop host_inv_Pause assms(1))
  moreover have "\<not> host_running ?g" "host_paused ?g"
    by (simp_all add: host_Stop_def PauseCollectors_def)
  ultimately show ?thesis
    using host_Start_cases [OF _ _ assms(3)]
    by (auto simp: StateName_def PauseCollectors_def split: option.splits)
qed

text \<open>
  The server answers as soon as it is built, before \<open>endpoint_\<close>, \<open>started_at_\<close> and \<open>running_\<close>
  are set: a status call in between reports a stopped service with no endpoint.
\<close>

lemma status_during_start:
  assumes "start_parts env (ServiceHost fs e) = (None, h)"
  shows "host_status now (h\<lparr>host_server := Some a\<rparr>) =
    \<lparr>st_version = ''0.1.0'', st_state = ''STOPPED'', st_uptime_ms = 0, st_endpoint = ''''\<rparr>"
  using assms
  by (auto simp: host_status_def StateName_def UptimeMs_def start_parts_def ServiceHost_def Let_def
      split: prod.splits sum.splits option.splits)

section \<open>Concrete runs\<close>

definition demo_host_env :: "(string \<Rightarrow> bool) \<Rightarrow> (json, unit) host_env" where
  "demo_host_env binds = \<lparr>he_json = identity_json, he_no_bytes = JNull, he_executors = [], he_collectors = [],
     he_binds = binds, he_watch = (True, True), he_steady_now = 0, he_now = 0\<rparr>"

lemma demo_EnsureDefaults: "fst (store_EnsureDefaults identity_json JNull demo_disk) = Inr ()"
  by code_simp

lemma demo_host_Start:
  "fst (host_Start (demo_host_env (\<lambda>_. True)) ''np:x'' (ServiceHost demo_disk ())) = Returned_bool True"
proof -
  obtain fs where "store_EnsureDefaults identity_json JNull demo_disk = (Inr (), fs)"
    using demo_EnsureDefaults by (metis prod.collapse)
  then show ?thesis
    by (simp add: host_Start_def start_parts_def ServiceHost_def demo_host_env_def BuildServer_def Let_def
        pl_Start_def empty_pipeline_def assign_thread_def StartFileWatch_def watch_init_def)
qed

theorem scm_state_matches_host_witness:
  "\<exists>c h. svc_reachable (host_handlers (demo_host_env (\<lambda>_. True)) ''np:x'') (Some (ServiceHost demo_disk ())) c \<and>
     world c = Some h \<and> StateName h = ''RUNNING'' \<and> pl_running (host_pipeline h)"
proof -
  let ?H = "host_handlers (demo_host_env (\<lambda>_. True)) ''np:x''"
  let ?c = "main_steps ?H 4 (controller_init (Some (ServiceHost demo_disk ())))"
  have r: "svc_reachable ?H (Some (ServiceHost demo_disk ())) ?c" by (rule main_steps_reachable [OF svc_init])
  have "main_at ?c = Wait_exit" "known_state ?c = Some SERVICE_RUNNING"
    by (simp_all add: controller_init_def numeral_eq_Suc ServiceMain.simps FinalizeStart_def Let_def known_state_def)
  with scm_state_matches_host [OF r _ demo_host_Start] r show ?thesis by auto
qed

theorem failed_start_reported_running_witness:
  "\<exists>c h. svc_reachable (host_handlers (demo_host_env (\<lambda>_. False)) ''np:x'') (Some (ServiceHost demo_disk ())) c \<and>
     known_state c = Some SERVICE_RUNNING \<and> world c = Some h \<and> StateName h = ''STOPPED''"
proof -
  have "bound_address (he_binds (demo_host_env (\<lambda>_. False))) ''np:x'' = None"
    by (simp add: bound_address_def demo_host_env_def)
  moreover have "fst (store_EnsureDefaults (he_json (demo_host_env (\<lambda>_. False)))
      (he_no_bytes (demo_host_env (\<lambda>_. False))) demo_disk) = Inr ()"
    by (simp add: demo_host_env_def demo_EnsureDefaults)
  ultimately show ?thesis using failed_start_reported_running [of "demo_host_env (\<lambda>_. False)" "''np:x''" demo_disk "()"]
    by blast
qed

end
