(* ===== verification/Convert.thy ===== *)
theory Convert
  imports Telemetry_Types Event_Bus Profile_Store
begin

text \<open>
  \<open>apps/hwpanel-service/grpc/convert.cpp\<close>: from the program's types to the protocol
  messages of \<open>proto/hwpanel/v1\<close>, one record per message; and back, as
  \<open>ClientWorker\<close> does it. A proto \<open>map\<close> is a partial function.
\<close>

record pb_metric =
  pb_metric_id :: string
  pb_value :: double
  pb_unit :: string
  pb_labels :: "string \<rightharpoonup> string"

record pb_sample =
  pb_timestamp_ms :: int
  pb_metrics :: "pb_metric list"

record pb_profile =
  pb_id :: string
  pb_name :: string
  pb_description :: string
  pb_settings :: "string \<rightharpoonup> string"

record pb_event =
  pb_event_timestamp_ms :: int
  pb_level :: string
  pb_title :: string
  pb_message :: string

definition metric_to_proto :: "metric_sample \<Rightarrow> pb_metric" where
  "metric_to_proto m = \<lparr>pb_metric_id = metric_id m, pb_value = metric_value m, pb_unit = metric_unit m,
     pb_labels = Map.empty\<rparr>"

text \<open>The loop of \<open>ToProto\<close>: an empty filter keeps every metric.\<close>

fun kept_metrics :: "string set \<Rightarrow> metric_sample list \<Rightarrow> pb_metric list" where
  "kept_metrics filt [] = []"
| "kept_metrics filt (m # ms) =
     (if filt \<noteq> {} \<and> metric_id m \<notin> filt then kept_metrics filt ms
      else metric_to_proto m # kept_metrics filt ms)"

definition sample_to_proto :: "telemetry_sample \<Rightarrow> string set \<Rightarrow> pb_sample" where
  "sample_to_proto s filt = \<lparr>pb_timestamp_ms = timestamp_ms s, pb_metrics = kept_metrics filt (metrics s)\<rparr>"

fun put_settings :: "(string \<times> string) list \<Rightarrow> (string \<rightharpoonup> string) \<Rightarrow> (string \<rightharpoonup> string)" where
  "put_settings [] m = m"
| "put_settings ((key, value) # kvs) m = put_settings kvs (m(key \<mapsto> value))"

definition profile_to_proto :: "profile \<Rightarrow> pb_profile" where
  "profile_to_proto p = \<lparr>pb_id = prof_id p, pb_name = prof_name p, pb_description = prof_description p,
     pb_settings = put_settings (prof_settings p) Map.empty\<rparr>"

definition event_to_proto :: "event_message \<Rightarrow> pb_event" where
  "event_to_proto e = \<lparr>pb_event_timestamp_ms = ev_timestamp_ms e, pb_level = ev_level e,
     pb_title = ev_title e, pb_message = ev_message e\<rparr>"

text \<open>The client's side (\<open>client_worker.cpp\<close>, the bodies of its two read loops).\<close>

definition sample_of_proto :: "pb_sample \<Rightarrow> telemetry_sample" where
  "sample_of_proto p = \<lparr>timestamp_ms = pb_timestamp_ms p,
     metrics = map (\<lambda>m. metric (pb_metric_id m) (pb_value m) (pb_unit m)) (pb_metrics p)\<rparr>"

definition event_of_proto :: "pb_event \<Rightarrow> event_message" where
  "event_of_proto p = \<lparr>ev_timestamp_ms = pb_event_timestamp_ms p, ev_level = pb_level p,
     ev_title = pb_title p, ev_message = pb_message p\<rparr>"

section \<open>Round trips\<close>

lemma kept_metrics_filter:
  "kept_metrics filt ms = map metric_to_proto (filter (\<lambda>m. filt = {} \<or> metric_id m \<in> filt) ms)"
  by (induction ms) auto

lemma sample_roundtrip:
  "sample_of_proto (sample_to_proto s filt) =
     s\<lparr>metrics := filter (\<lambda>m. filt = {} \<or> metric_id m \<in> filt) (metrics s)\<rparr>"
proof -
  have "(\<lambda>m. metric (metric_id m) (metric_value m) (metric_unit m)) = (\<lambda>m. m)" by (rule ext) simp
  then show ?thesis
    by (cases s) (simp add: sample_of_proto_def sample_to_proto_def kept_metrics_filter metric_to_proto_def comp_def)
qed

lemma event_roundtrip [simp]: "event_of_proto (event_to_proto e) = e"
  by (simp add: event_of_proto_def event_to_proto_def)

lemma put_settings_apply:
  "distinct (map fst kvs) \<Longrightarrow> put_settings kvs m k = (case map_of kvs k of None \<Rightarrow> m k | Some v \<Rightarrow> Some v)"
proof (induction kvs m rule: put_settings.induct)
  case (2 key v kvs m)
  have "put_settings ((key, v) # kvs) m k = put_settings kvs (m(key \<mapsto> v)) k" by (simp only: put_settings.simps)
  also have "\<dots> = (case map_of kvs k of None \<Rightarrow> (m(key \<mapsto> v)) k | Some w \<Rightarrow> Some w)"
    by (rule 2(1)) (use 2(2) in simp)
  also have "\<dots> = (case map_of ((key, v) # kvs) k of None \<Rightarrow> m k | Some w \<Rightarrow> Some w)"
    using 2(2) by (auto split: option.splits dest: map_of_SomeD simp: rev_image_eqI)
  finally show ?case .
qed simp

lemma settings_to_proto:
  "distinct (map fst (prof_settings p)) \<Longrightarrow> pb_settings (profile_to_proto p) = map_of (prof_settings p)"
  by (rule ext) (simp add: profile_to_proto_def put_settings_apply split: option.splits)

end
