(* ===== verification/Telemetry_Service.thy ===== *)
theory Telemetry_Service
  imports Telemetry_Hub Convert
begin

text \<open>
  \<open>apps/hwpanel-service/grpc/telemetry_service_impl.cpp\<close>: the streaming subscription,
  with its metric filter and rate decimation, and the history call.
\<close>

section \<open>Decimation\<close>

text \<open>
  \<open>std::lround\<close>: to the nearest integer, halves away from zero; what it returns for a
  value outside Windows' 32-bit \<open>long\<close> is unspecified and an argument here.
\<close>

definition round_half_away :: "rat \<Rightarrow> int" where
  "round_half_away q = (if q < 0 then - \<lfloor>- q + 1 / 2\<rfloor> else \<lfloor>q + 1 / 2\<rfloor>)"

definition lround :: "int \<Rightarrow> double \<Rightarrow> int" where
  "lround unspecified d =
     (case d of
        Fin q \<Rightarrow> if int32_range (round_half_away q) then round_half_away q else unspecified
      | Zero _ \<Rightarrow> 0
      | _ \<Rightarrow> unspecified)"

definition decimation :: "int \<Rightarrow> double \<Rightarrow> int" where
  "decimation unspecified interval_hz =
     (if literal 0 < interval_hz \<and> interval_hz < literal 1
      then max (as_int32 (lround unspecified (double_div (literal 1) interval_hz))) 1 else 1)"

section \<open>Subscribe\<close>

text \<open>
  The running number of a call's samples is a \<open>long\<close>, 32 bits wide on Windows. The increment
  past its range is undefined in C++; the model wraps around as the target's addition does,
  and what is shown of a decimated stream asks for fewer than \<open>2 ^ 31\<close> polls.
\<close>

record subscribe_request =
  interval_hz :: double
  metric_filter :: "string list"

definition hub_take :: "nat \<Rightarrow> telemetry_hub \<Rightarrow> telemetry_sample option \<times> telemetry_hub" where
  "hub_take i h = (let (r, reg) = registry_pop hub_Pop i (hub_reg h) in (r, h\<lparr>hub_reg := reg\<rparr>))"

fun subscribe_loop :: "nat \<Rightarrow> string set \<Rightarrow> int \<Rightarrow> telemetry_sample rpc_turn list \<Rightarrow> int \<Rightarrow> telemetry_hub \<Rightarrow>
    pb_sample list \<times> telemetry_hub" where
  "subscribe_loop i filt decimate [] index h = ([], h)"
| "subscribe_loop i filt decimate (t # ts) index h =
     (if rt_cancelled t then ([], h)
      else case hub_take i (snd (hub_run h (rt_ops t))) of
        (None, h') \<Rightarrow> subscribe_loop i filt decimate ts index h'
      | (Some sample, h') \<Rightarrow>
          if index mod decimate \<noteq> 0 then subscribe_loop i filt decimate ts (as_int32 (index + 1)) h'
          else if \<not> rt_write_ok t then ([], h')
          else (let (msgs, h'') = subscribe_loop i filt decimate ts (as_int32 (index + 1)) h'
                in (sample_to_proto sample filt # msgs, h'')))"

definition rpc_Subscribe :: "int \<Rightarrow> subscribe_request \<Rightarrow> telemetry_sample rpc_turn list \<Rightarrow> telemetry_hub \<Rightarrow>
    pb_sample list \<times> telemetry_hub" where
  "rpc_Subscribe unspecified request turns h =
     (let filt = set (metric_filter request);
          decimate = decimation unspecified (interval_hz request);
          (i, h) = hub_Subscribe h;
          (msgs, h) = subscribe_loop i filt decimate turns 0 h
      in (msgs, h\<lparr>hub_reg := registry_apply hub_Close i (hub_reg h)\<rparr>))"

definition rpc_GetHistory :: "int \<Rightarrow> telemetry_hub \<Rightarrow> pb_sample list" where
  "rpc_GetHistory seconds h = map (\<lambda>s. sample_to_proto s {}) (hub_History h seconds)"

section \<open>Lemmas\<close>

lemma decimation_pos: "1 \<le> decimation unspecified hz"
  by (simp add: decimation_def)

text \<open>The elements of a stream whose running number, counted from \<open>n\<close>, is a multiple of \<open>k\<close>.\<close>

fun every :: "int \<Rightarrow> int \<Rightarrow> 'a list \<Rightarrow> 'a list" where
  "every k n [] = []"
| "every k n (x # xs) = (if n mod k = 0 then x # every k (n + 1) xs else every k (n + 1) xs)"

lemma subseq_every: "subseq (every k n xs) xs"
  by (induction k n xs rule: every.induct) auto

lemma every_one [simp]: "every 1 n xs = xs"
  by (induction xs arbitrary: n) simp_all

text \<open>The same with the numbers of the loop, which wrap around.\<close>

fun every_wrapping :: "int \<Rightarrow> int \<Rightarrow> 'a list \<Rightarrow> 'a list" where
  "every_wrapping k n [] = []"
| "every_wrapping k n (x # xs) =
     (if n mod k = 0 then x # every_wrapping k (as_int32 (n + 1)) xs else every_wrapping k (as_int32 (n + 1)) xs)"

lemma every_wrapping_one [simp]: "every_wrapping 1 n xs = xs"
  by (induction xs arbitrary: n) simp_all

lemma every_wrapping_short: "0 \<le> n \<Longrightarrow> n + int (length xs) < 2 ^ 31 \<Longrightarrow> every_wrapping k n xs = every k n xs"
  by (induction xs arbitrary: n) (simp_all add: as_int32_id int32_range_def)

text \<open>The rate: the integer nearest to \<open>1 / hz\<close>, the upper one of two.\<close>

lemma decimation_rate:
  assumes "literal 0 < hz" and "hz < literal 1" and "double_div (Fin 1) hz = Fin r" and "r + 1 / 2 < 2 ^ 31"
  shows "r - 1 / 2 < of_int (decimation u hz) \<and> of_int (decimation u hz) \<le> r + 1 / 2"
proof -
  obtain q where q: "hz = Fin q" "0 < q" "q < 1"
    using assms(1,2) by (cases hz) (auto simp: less_double_def split: if_splits)
  define x where "x = 1 / q"
  have r: "r = round64 x" using q assms(3) by (auto simp: x_def to_double_def Let_def split: if_splits)
  have x: "1 \<le> x" using q by (simp add: x_def)
  have "(2::rat) powi (- 1074 + int 53 - 1) \<le> 2 powi 0" by (rule power_int_increasing) simp_all
  then have "\<bar>r - x\<bar> \<le> x * 2 powi (- int 53)"
    unfolding r using x by (intro round_to_relative_error) simp
  also have "\<dots> \<le> x * (1 / 2)"
    using x by (intro mult_left_mono) (simp_all add: power_int_def power_divide)
  finally have half: "1 / 2 \<le> r" using x by linarith
  let ?k = "\<lfloor>r + 1 / 2\<rfloor>"
  have "1 \<le> ?k" using half by (simp add: le_floor_iff)
  moreover have "?k < 2 ^ 31" using assms(4) by (simp add: floor_less_iff)
  ultimately have "decimation u hz = ?k"
    using assms(1-3) half
    by (simp add: decimation_def lround_def round_half_away_def int32_range_def as_int32_id del: double_div.simps)
  then show ?thesis using floor_correct [of "r + 1 / 2"] by simp
qed

lemma nth_every:
  assumes "0 < k"
  shows "every k (int n) xs = map (\<lambda>j. xs ! j) (filter (\<lambda>j. (int n + int j) mod k = 0) [0..<length xs])"
proof (induction xs arbitrary: n)
  case (Cons x xs)
  have "int (Suc n) + int j = int n + int (Suc j)" for j by simp
  then have eq: "every k (int n + 1) xs =
      map (\<lambda>j. xs ! j) (filter (\<lambda>j. (int n + int (Suc j)) mod k = 0) [0..<length xs])"
    using Cons [of "Suc n"] by (simp only: of_nat_Suc add.commute)
  have "[0..<Suc (length xs)] = 0 # map Suc [0..<length xs]"
    by (simp add: upt_conv_Cons map_Suc_upt del: upt_Suc)
  then show ?case by (simp add: eq filter_map comp_def del: upt_Suc of_nat_Suc)
qed simp

lemma hub_take_run:
  "hub_take i (snd (hub_run h ops)) = (r, h') \<Longrightarrow>
     hub_run h (ops @ [Pop_op i]) =
       (fst (hub_run h ops) @ (case r of None \<Rightarrow> [] | Some x \<Rightarrow> [(i, x)]), h')"
  by (auto simp: hub_take_def hub_run_append hub_step_def split_beta Let_def split: prod.splits)

text \<open>What a consumer that runs some turns takes, and the hub they leave.\<close>

definition taken :: "nat \<Rightarrow> telemetry_sample rpc_turn list \<Rightarrow> telemetry_hub \<Rightarrow> telemetry_sample list" where
  "taken i past h = received i (fst (hub_run h (polling_ops i (map rt_ops past))))"

definition hub_after :: "nat \<Rightarrow> telemetry_sample rpc_turn list \<Rightarrow> telemetry_hub \<Rightarrow> telemetry_hub" where
  "hub_after i past h = snd (hub_run h (polling_ops i (map rt_ops past)))"

lemma taken_Nil [simp]: "taken i [] h = []" "hub_after i [] h = h"
  by (simp_all add: taken_def hub_after_def received_def)

lemma taken_Cons:
  assumes "foreign i (rt_ops t)" and "hub_take i (snd (hub_run h (rt_ops t))) = (r, h1)"
  shows "taken i (t # past) h = (case r of None \<Rightarrow> [] | Some x \<Rightarrow> [x]) @ taken i past h1"
    and "hub_after i (t # past) h = hub_after i past h1"
proof -
  have got: "received i (fst (hub_run h (rt_ops t))) = []"
    using received_foreign [OF assms(1)] hub_run_reg [of h "rt_ops t"] by simp
  have run: "hub_run h (polling_ops i (map rt_ops (t # past))) =
      (let (out, h2) = hub_run h1 (polling_ops i (map rt_ops past))
       in ((fst (hub_run h (rt_ops t)) @ (case r of None \<Rightarrow> [] | Some x \<Rightarrow> [(i, x)])) @ out, h2))"
    using hub_run_append [of h "rt_ops t @ [Pop_op i]" "polling_ops i (map rt_ops past)"]
      hub_take_run [OF assms(2)] by (simp add: split_beta Let_def)
  show "taken i (t # past) h = (case r of None \<Rightarrow> [] | Some x \<Rightarrow> [x]) @ taken i past h1"
    and "hub_after i (t # past) h = hub_after i past h1"
    using got unfolding taken_def hub_after_def run by (simp_all add: split_beta Let_def)
qed

text \<open>
  The loop runs some of its turns, in which it takes what the hub delivers, and writes
  every \<open>decimate\<close>-th of it; it skips turns and messages only when a call is cancelled or a
  write fails.
\<close>

definition writes :: "string set \<Rightarrow> int \<Rightarrow> int \<Rightarrow> telemetry_sample list \<Rightarrow> pb_sample list" where
  "writes filt k n xs = map (\<lambda>s. sample_to_proto s filt) (every_wrapping k n xs)"

lemma subscribe_loop_run:
  assumes "\<forall>t \<in> set turns. foreign i (rt_ops t)"
    and "subscribe_loop i filt k turns n h = (msgs, h')"
  shows "\<exists>past rest. turns = past @ rest \<and> h' = hub_after i past h \<and>
    prefix msgs (writes filt k n (taken i past h)) \<and>
    ((\<forall>t \<in> set turns. \<not> rt_cancelled t \<and> rt_write_ok t) \<longrightarrow>
       rest = [] \<and> msgs = writes filt k n (taken i past h))"
  using assms
proof (induction turns arbitrary: n h msgs)
  case Nil
  then show ?case by (intro exI [of _ "[]"]) (simp add: writes_def)
next
  case (Cons t ts)
  have for1: "foreign i (rt_ops t)" and fors: "\<forall>t \<in> set ts. foreign i (rt_ops t)" using Cons.prems(1) by simp_all
  obtain r h1 where take: "hub_take i (snd (hub_run h (rt_ops t))) = (r, h1)"
    by (cases "hub_take i (snd (hub_run h (rt_ops t)))")
  note step = taken_Cons [OF for1 take]
  have on: ?case if loop: "subscribe_loop i filt k ts m h1 = (ms, h')"
      and here: "\<And>xs. writes filt k n ((case r of None \<Rightarrow> [] | Some x \<Rightarrow> [x]) @ xs) = pre @ writes filt k m xs"
      and msgs: "msgs = pre @ ms" for m ms pre
  proof -
    obtain past rest where ts: "ts = past @ rest" and h': "h' = hub_after i past h1"
      and pre: "prefix ms (writes filt k m (taken i past h1))"
      and all: "(\<forall>t \<in> set ts. \<not> rt_cancelled t \<and> rt_write_ok t) \<longrightarrow> rest = [] \<and> ms = writes filt k m (taken i past h1)"
      using Cons.IH [OF fors loop] by blast
    have w: "writes filt k n (taken i (t # past) h) = pre @ writes filt k m (taken i past h1)"
      by (simp only: step here)
    have "h' = hub_after i (t # past) h" by (simp only: step h')
    moreover have "prefix msgs (writes filt k n (taken i (t # past) h))" using pre by (simp only: w msgs same_prefix_prefix)
    moreover have "(\<forall>t \<in> set (t # ts). \<not> rt_cancelled t \<and> rt_write_ok t) \<longrightarrow>
        rest = [] \<and> msgs = writes filt k n (taken i (t # past) h)"
      using all by (simp only: w msgs list.set insert_iff) blast
    ultimately show ?thesis
      using ts by - (rule exI [of _ "t # past"], rule exI [of _ rest], simp only: append_Cons simp_thms)
  qed
  show ?case
  proof (cases "rt_cancelled t")
    case True
    with Cons.prems(2) show ?thesis by - (rule exI [of _ "[]"], rule exI [of _ "t # ts"], simp add: writes_def)
  next
    case go: False
    show ?thesis
    proof (cases r)
      case None
      have "subscribe_loop i filt k ts n h1 = (msgs, h')" using Cons.prems(2) go take None by simp
      then show ?thesis by (rule on [of _ _ "[]"]) (simp_all add: None)
    next
      case (Some x)
      show ?thesis
      proof (cases "n mod k = 0")
        case False
        have "subscribe_loop i filt k ts (as_int32 (n + 1)) h1 = (msgs, h')" using Cons.prems(2) go take Some False by simp
        then show ?thesis by (rule on [of _ _ "[]"]) (simp_all add: Some writes_def False)
      next
        case hit: True
        show ?thesis
        proof (cases "rt_write_ok t")
          case False
          have "msgs = []" "h' = h1" using Cons.prems(2) go take Some hit False by simp_all
          then show ?thesis using False by - (rule exI [of _ "[t]"], rule exI [of _ ts], simp add: step)
        next
          case True
          obtain ms where "subscribe_loop i filt k ts (as_int32 (n + 1)) h1 = (ms, h')" and "msgs = sample_to_proto x filt # ms"
            using Cons.prems(2) go take Some hit True by (auto split: prod.splits)
          then show ?thesis
            by (intro on [of "as_int32 (n + 1)" ms "[sample_to_proto x filt]"]) (simp_all add: Some writes_def hit)
        qed
      qed
    qed
  qed
qed

text \<open>A consumer's turns, seen from its own subscriber, are a session of that subscriber.\<close>

lemma taken_session:
  assumes "hub_inv h" and "heap (hub_reg h) i = Some s" and "\<forall>t \<in> set past. foreign i (rt_ops t)"
  shows "\<exists>s'. heap (hub_reg (hub_after i past h)) i = Some s' \<and>
    session hub_deliver hub_Pop hub_Close s
      (concat (map (\<lambda>t. map OpPublish (ops_published (rt_ops t)) @ [OpPop]) past)) = (taken i past h, s')"
proof -
  let ?ops = "polling_ops i (map rt_ops past)"
  have f: "\<forall>ops \<in> set (map rt_ops past). foreign i ops" using assms(3) by simp
  have run: "hub_registry_run (hub_reg h) ?ops = (fst (hub_run h ?ops), hub_reg (hub_after i past h))"
    using hub_run_reg [of h ?ops] by (simp add: hub_after_def prod_eq_iff)
  from registry_run_view [OF _ assms(2) polling_no_release [OF f] run] assms(1)
  show ?thesis by (simp add: hub_inv_def view_of_polling [OF f] taken_def comp_def)
qed

lemma hub_Subscribe_new:
  assumes "hub_inv h" and "hub_Subscribe h = (i, h1)"
  shows "i = next_id (hub_reg h)" and "hub_inv h1" and "heap (hub_reg h1) i = Some new_hub_subscriber"
proof -
  show "i = next_id (hub_reg h)" and "heap (hub_reg h1) i = Some new_hub_subscriber"
    using assms(2) by (auto simp: hub_Subscribe_def registry_add_def)
  have "h1 = snd (hub_run h [Subscribe_op])" using assms(2) by (simp add: hub_step_def)
  then show "hub_inv h1" by (simp only: hub_inv_run [OF assms(1)])
qed

lemma length_taken: "\<forall>t \<in> set past. foreign i (rt_ops t) \<Longrightarrow> length (taken i past h) \<le> length past"
proof (induction past arbitrary: h)
  case (Cons t past)
  obtain r h1 where "hub_take i (snd (hub_run h (rt_ops t))) = (r, h1)"
    by (cases "hub_take i (snd (hub_run h (rt_ops t)))")
  then have "taken i (t # past) h = (case r of None \<Rightarrow> [] | Some x \<Rightarrow> [x]) @ taken i past h1"
    using taken_Cons Cons.prems by simp
  moreover have "length (taken i past h1) \<le> length past" using Cons by simp
  ultimately show ?case by (cases r) simp_all
qed simp

lemma rpc_Subscribe_stream:
  assumes "hub_inv h" and "\<forall>t \<in> set turns. foreign (next_id (hub_reg h)) (rt_ops t)"
    and "rpc_Subscribe u request turns h = (msgs, h')"
  shows "\<exists>popped. subseq popped (concat (map (ops_published \<circ> rt_ops) turns)) \<and> length popped \<le> length turns \<and>
    prefix msgs (map (\<lambda>s. sample_to_proto s (set (metric_filter request)))
      (every_wrapping (decimation u (interval_hz request)) 0 popped)) \<and>
    ((\<forall>t \<in> set turns. \<not> rt_cancelled t \<and> rt_write_ok t \<and> length (ops_published (rt_ops t)) \<le> 1) \<longrightarrow>
      popped = concat (map (ops_published \<circ> rt_ops) turns) \<and>
      msgs = map (\<lambda>s. sample_to_proto s (set (metric_filter request)))
        (every_wrapping (decimation u (interval_hz request)) 0 popped)) \<and>
    (\<exists>s. heap (hub_reg h') (next_id (hub_reg h)) = Some s \<and> hs_closed s)"
proof -
  let ?filt = "set (metric_filter request)" and ?k = "decimation u (interval_hz request)"
  obtain i h1 where sub: "hub_Subscribe h = (i, h1)" by (cases "hub_Subscribe h")
  note new = hub_Subscribe_new [OF assms(1) sub]
  have foreign: "\<forall>t \<in> set turns. foreign i (rt_ops t)" using assms(2) new(1) by simp
  obtain h2 where loop: "subscribe_loop i ?filt ?k turns 0 h1 = (msgs, h2)"
    and h': "h' = h2\<lparr>hub_reg := registry_apply hub_Close i (hub_reg h2)\<rparr>"
    using assms(3) sub by (auto simp: rpc_Subscribe_def Let_def split: prod.splits)
  obtain past rest where past: "turns = past @ rest" "h2 = hub_after i past h1"
      "prefix msgs (writes ?filt ?k 0 (taken i past h1))"
      "(\<forall>t \<in> set turns. \<not> rt_cancelled t \<and> rt_write_ok t) \<longrightarrow> rest = [] \<and> msgs = writes ?filt ?k 0 (taken i past h1)"
    using subscribe_loop_run [OF foreign loop] by blast
  have fp: "\<forall>t \<in> set past. foreign i (rt_ops t)" using foreign past(1) by simp
  obtain s' where s': "heap (hub_reg h2) i = Some s'"
    and sess: "session hub_deliver hub_Pop hub_Close new_hub_subscriber
      (concat (map (\<lambda>t. map OpPublish (ops_published (rt_ops t)) @ [OpPop]) past)) = (taken i past h1, s')"
    using taken_session [OF new(2,3) fp] past(2) by blast
  have "subseq (taken i past h1) (taken i past h1 @ hs_queue s')"
    by (rule subseq_rev_drop_many [OF subseq_order.order_refl])
  moreover have "subseq (taken i past h1 @ hs_queue s') (concat (map (ops_published \<circ> rt_ops) past))"
    using hub.session_subseq [OF _ sess] by (simp add: new_hub_subscriber_def comp_def)
  moreover have "subseq (concat (map (ops_published \<circ> rt_ops) past)) (concat (map (ops_published \<circ> rt_ops) turns))"
    by (simp add: past(1) subseq_rev_drop_many)
  ultimately have sub1: "subseq (taken i past h1) (concat (map (ops_published \<circ> rt_ops) turns))"
    by (meson subseq_order.order_trans)
  have sub2: "taken i past h1 = concat (map (ops_published \<circ> rt_ops) turns)"
    if "\<forall>t \<in> set turns. \<not> rt_cancelled t \<and> rt_write_ok t \<and> length (ops_published (rt_ops t)) \<le> 1"
  proof -
    have "rest = []" using that past(4) by blast
    have short: "\<forall>ms \<in> set (map (ops_published \<circ> rt_ops) past). length ms \<le> 1"
      using that by (simp add: past(1))
    then obtain s2 where "session hub_deliver hub_Pop hub_Close new_hub_subscriber
        (concat (map (\<lambda>ms. map OpPublish ms @ [OpPop]) (map (ops_published \<circ> rt_ops) past))) =
        (concat (map (ops_published \<circ> rt_ops) past), s2)"
      using hub.session_polling [OF _ _ short, of new_hub_subscriber] by (auto simp: new_hub_subscriber_def)
    then show ?thesis using sess \<open>rest = []\<close> past(1) by (simp add: comp_def)
  qed
  have "\<exists>s. heap (hub_reg h') (next_id (hub_reg h)) = Some s \<and> hs_closed s"
    using s' new(1) h' by (simp add: registry_apply_def hub_Close_def)
  moreover have "length (taken i past h1) \<le> length turns" using length_taken [OF fp, of h1] past(1) by simp
  ultimately show ?thesis
    using sub1 sub2 past(3,4) unfolding writes_def by (intro exI [of _ "taken i past h1"]) blast
qed

section \<open>Properties\<close>

text \<open>The message a subscriber that asked for \<open>wanted\<close> should get of a sample; asking for none asks for all.\<close>

definition requested_message :: "string list \<Rightarrow> telemetry_sample \<Rightarrow> pb_sample" where
  "requested_message wanted s = \<lparr>pb_timestamp_ms = timestamp_ms s,
     pb_metrics = map (\<lambda>m. \<lparr>pb_metric_id = metric_id m, pb_value = metric_value m, pb_unit = metric_unit m,
         pb_labels = Map.empty\<rparr>)
       (filter (\<lambda>m. wanted = [] \<or> metric_id m \<in> set wanted) (metrics s))\<rparr>"

lemma sample_to_proto_requested: "sample_to_proto s (set wanted) = requested_message wanted s"
  by (simp add: sample_to_proto_def requested_message_def kept_metrics_filter metric_to_proto_def)

lemma rpc_Subscribe_requested:
  assumes "hub_inv h" and "\<forall>t \<in> set turns. foreign (next_id (hub_reg h)) (rt_ops t)"
    and "rpc_Subscribe u request turns h = (msgs, h')" and "length turns < 2 ^ 31"
  shows "\<exists>popped k. subseq popped (concat (map (ops_published \<circ> rt_ops) turns)) \<and>
    1 \<le> k \<and>
    (\<not> (literal 0 < interval_hz request \<and> interval_hz request < literal 1) \<longrightarrow> k = 1) \<and>
    (\<forall>r. literal 0 < interval_hz request \<and> interval_hz request < literal 1 \<and>
       double_div (Fin 1) (interval_hz request) = Fin r \<and> r + 1 / 2 < 2 ^ 31 \<longrightarrow>
       r - 1 / 2 < of_int k \<and> of_int k \<le> r + 1 / 2) \<and>
    prefix msgs (map (requested_message (metric_filter request)) (every k 0 popped)) \<and>
    ((\<forall>t \<in> set turns. \<not> rt_cancelled t \<and> rt_write_ok t \<and> length (ops_published (rt_ops t)) \<le> 1) \<longrightarrow>
      popped = concat (map (ops_published \<circ> rt_ops) turns) \<and>
      msgs = map (requested_message (metric_filter request)) (every k 0 popped)) \<and>
    (\<exists>s. heap (hub_reg h') (next_id (hub_reg h)) = Some s \<and> hs_closed s)"
proof -
  let ?k = "decimation u (interval_hz request)"
  obtain popped where p: "subseq popped (concat (map (ops_published \<circ> rt_ops) turns))" "length popped \<le> length turns"
    "prefix msgs (map (\<lambda>s. sample_to_proto s (set (metric_filter request))) (every_wrapping ?k 0 popped))"
    "(\<forall>t \<in> set turns. \<not> rt_cancelled t \<and> rt_write_ok t \<and> length (ops_published (rt_ops t)) \<le> 1) \<longrightarrow>
      popped = concat (map (ops_published \<circ> rt_ops) turns) \<and>
      msgs = map (\<lambda>s. sample_to_proto s (set (metric_filter request))) (every_wrapping ?k 0 popped)"
    "\<exists>s. heap (hub_reg h') (next_id (hub_reg h)) = Some s \<and> hs_closed s"
    using rpc_Subscribe_stream [OF assms(1-3)] by blast
  have "int (length popped) < 2 ^ 31" using p(2) assms(4) by simp
  then have short: "every_wrapping ?k 0 popped = every ?k 0 popped" by (intro every_wrapping_short) simp_all
  have "\<not> (literal 0 < interval_hz request \<and> interval_hz request < literal 1) \<longrightarrow> ?k = 1"
    by (simp add: decimation_def)
  then show ?thesis
    using p decimation_rate decimation_pos [of u "interval_hz request"]
    unfolding short sample_to_proto_requested
    by (intro exI [of _ popped] exI [of _ ?k]) blast
qed

text \<open>
  C4: a Subscribe call streams, in order and without repetition, every k-th of a
  subsequence of the samples published during the call, as messages that carry the
  sample's time and, in order, its metrics of the requested ids, all of them when none is
  named. A rate outside (0, 1) is not thinned out (k is 1); otherwise k is the integer
  nearest to the quotient 1 / rate (of two, the upper one) if that is in the 32-bit range.
  If the call is not cancelled, every write succeeds and at most one sample is published
  per poll, it is every k-th of all of them. Its subscriber is closed when the call
  returns. The call polls fewer than \<open>2 ^ 31\<close> times.
\<close>

theorem subscribe_streams_every_kth:
  assumes "hub_inv h" and "\<forall>t \<in> set turns. foreign (next_id (hub_reg h)) (rt_ops t)"
    and "rpc_Subscribe u request turns h = (msgs, h')" and "length turns < 2 ^ 31"
  shows "\<exists>popped k. subseq popped (concat (map (ops_published \<circ> rt_ops) turns)) \<and>
    1 \<le> k \<and>
    (\<not> (literal 0 < interval_hz request \<and> interval_hz request < literal 1) \<longrightarrow> k = 1) \<and>
    (\<forall>r. literal 0 < interval_hz request \<and> interval_hz request < literal 1 \<and>
       double_div (Fin 1) (interval_hz request) = Fin r \<and> r + 1 / 2 < 2 ^ 31 \<longrightarrow>
       r - 1 / 2 < of_int k \<and> of_int k \<le> r + 1 / 2) \<and>
    prefix msgs (map (requested_message (metric_filter request)) (every k 0 popped)) \<and>
    ((\<forall>t \<in> set turns. \<not> rt_cancelled t \<and> rt_write_ok t \<and> length (ops_published (rt_ops t)) \<le> 1) \<longrightarrow>
      popped = concat (map (ops_published \<circ> rt_ops) turns) \<and>
      msgs = map (requested_message (metric_filter request)) (every k 0 popped)) \<and>
    (\<exists>s. heap (hub_reg h') (next_id (hub_reg h)) = Some s \<and> hs_closed s)"
  by (rule rpc_Subscribe_requested [OF assms])

definition demo_sample :: "int \<Rightarrow> telemetry_sample" where
  "demo_sample n = \<lparr>timestamp_ms = n, metrics = []\<rparr>"

definition demo_turn :: "telemetry_sample list \<Rightarrow> telemetry_sample rpc_turn" where
  "demo_turn ss = \<lparr>rt_cancelled = False, rt_ops = map Publish_op ss, rt_write_ok = True\<rparr>"

lemma half_quotient: "double_div (Fin 1) (Fin (1 / 2)) = Fin 2"
proof -
  have "double_div (Fin 1) (Fin (1 / 2)) = literal 2" by (simp add: literal_def)
  also have "\<dots> = Fin 2" using literal_int [of 2] by simp
  finally show ?thesis .
qed

text \<open>Half a hertz, one metric asked for: the first and the third of three samples, without the other metric.\<close>

definition mixed_sample :: "int \<Rightarrow> telemetry_sample" where
  "mixed_sample n = \<lparr>timestamp_ms = n, metrics = [metric ''a'' (Fin 1) ''percent'', metric ''b'' (Fin 2) ''celsius'']\<rparr>"

theorem subscribe_streams_every_kth_witness:
  "fst (rpc_Subscribe 0 \<lparr>interval_hz = Fin (1 / 2), metric_filter = [''b'']\<rparr>
      [demo_turn [mixed_sample 1], demo_turn [], demo_turn [mixed_sample 2], demo_turn [mixed_sample 3]] (TelemetryHub 300)) =
    map (\<lambda>n. \<lparr>pb_timestamp_ms = n, pb_metrics = [\<lparr>pb_metric_id = ''b'', pb_value = Fin 2, pb_unit = ''celsius'', pb_labels = Map.empty\<rparr>]\<rparr>) [1, 3]"
proof -
  let ?turns = "[demo_turn [mixed_sample 1], demo_turn [], demo_turn [mixed_sample 2], demo_turn [mixed_sample 3]]"
  let ?req = "\<lparr>interval_hz = Fin (1 / 2), metric_filter = [''b'']\<rparr>"
  obtain msgs h' where run: "rpc_Subscribe 0 ?req ?turns (TelemetryHub 300) = (msgs, h')"
    by (cases "rpc_Subscribe 0 ?req ?turns (TelemetryHub 300)")
  have f: "\<forall>t \<in> set ?turns. foreign (next_id (hub_reg (TelemetryHub 300))) (rt_ops t)"
    by (simp add: demo_turn_def foreign_def)
  have ok: "\<forall>t \<in> set ?turns. \<not> rt_cancelled t \<and> rt_write_ok t \<and> length (ops_published (rt_ops t)) \<le> 1"
    and pub: "concat (map (ops_published \<circ> rt_ops) ?turns) = map mixed_sample [1, 2, 3]"
    by (simp_all add: demo_turn_def)
  have short: "length ?turns < 2 ^ 31" by simp
  have hz: "literal 0 < interval_hz ?req \<and> interval_hz ?req < literal 1 \<and>
      double_div (Fin 1) (interval_hz ?req) = Fin 2 \<and> (2::rat) + 1 / 2 < 2 ^ 31"
    by (simp add: less_double_def half_quotient del: double_div.simps)
  obtain k where rate: "(2::rat) - 1 / 2 < of_int k \<and> of_int k \<le> (2::rat) + 1 / 2"
    and msgs: "msgs = map (requested_message (metric_filter ?req)) (every k 0 (concat (map (ops_published \<circ> rt_ops) ?turns)))"
    using subscribe_streams_every_kth [OF hub_inv_TelemetryHub f run short] ok hz by blast
  have "k = 2"
  proof -
    have "(of_int 1 :: rat) < of_int k" "(of_int k :: rat) < of_int 3" using rate by simp_all
    then show ?thesis by (simp only: of_int_less_iff)
  qed
  then show ?thesis unfolding run fst_conv msgs pub by (simp add: requested_message_def mixed_sample_def)
qed

end
