(* ===== verification/Command_Service.thy ===== *)
theory Command_Service
  imports Convert Profile_Manager
begin

text \<open>
  \<open>apps/hwpanel-service/grpc/command_service_impl.cpp\<close>: the unary calls over the profile
  manager and the notification stream over the event bus. An exception that leaves a
  handler is a value of the result; the handlers catch none themselves.
\<close>

section \<open>Unary calls\<close>

record list_profiles_response =
  lr_profiles :: "pb_profile list"
  lr_active_profile_id :: string

record switch_profile_response =
  sp_ok :: bool
  sp_message :: string
  sp_rolled_back_keys :: "string list"

text \<open>
  \<open>List\<close> and \<open>ActiveId\<close> take the manager's mutex one after the other: \<open>st2\<close> is the state
  other calls have left by the time of the second.
\<close>

definition rpc_ListProfiles :: "'b json_library \<Rightarrow> ('b, 'e) manager_state \<Rightarrow> ('b, 'e) manager_state \<Rightarrow>
    json_error + list_profiles_response" where
  "rpc_ListProfiles lib st st2 =
     (case pm_List lib st of
        Inl e \<Rightarrow> Inl e
      | Inr ps \<Rightarrow> Inr \<lparr>lr_profiles = map profile_to_proto ps, lr_active_profile_id = pm_ActiveId lib st2\<rparr>)"

definition rpc_SwitchProfile :: "'b json_library \<Rightarrow> 'b \<Rightarrow> 'e manager_config \<Rightarrow> int \<Rightarrow> string \<Rightarrow>
    ('b, 'e) manager_state \<Rightarrow> (json_error + switch_profile_response) \<times> ('b, 'e) manager_state" where
  "rpc_SwitchProfile lib no_bytes cfg now profile_id st =
     (case SwitchTo lib no_bytes cfg now profile_id st of
        (Inl e, st') \<Rightarrow> (Inl e, st')
      | (Inr r, st') \<Rightarrow> (Inr \<lparr>sp_ok = sr_ok r, sp_message = sr_message r,
                           sp_rolled_back_keys = foldl (\<lambda>ks k. ks @ [k]) [] (sr_rolled_back_keys r)\<rparr>, st'))"

text \<open>The status provider may be empty; the response then has no status.\<close>

definition rpc_GetStatus :: "(unit \<Rightarrow> 's) option \<Rightarrow> 's option" where
  "rpc_GetStatus provider = map_option (\<lambda>f. f ()) provider"

section \<open>WatchEvents\<close>

definition bus_after :: "event_message reg_op list \<Rightarrow> event_bus \<Rightarrow> event_bus" where
  "bus_after ops b = snd (bus_run b ops)"

fun watch_loop :: "nat \<Rightarrow> event_message rpc_turn list \<Rightarrow> event_bus \<Rightarrow> pb_event list \<times> event_bus" where
  "watch_loop i [] b = ([], b)"
| "watch_loop i (t # ts) b =
     (if rt_cancelled t then ([], b)
      else case registry_pop bus_Pop i (bus_after (rt_ops t) b) of
        (None, b') \<Rightarrow> watch_loop i ts b'
      | (Some event, b') \<Rightarrow>
          if \<not> rt_write_ok t then ([], b')
          else (let (msgs, b'') = watch_loop i ts b' in (event_to_proto event # msgs, b'')))"

definition rpc_WatchEvents :: "event_message rpc_turn list \<Rightarrow> event_bus \<Rightarrow> pb_event list \<times> event_bus" where
  "rpc_WatchEvents turns b =
     (let (i, b) = bus_Subscribe b; (msgs, b) = watch_loop i turns b
      in (msgs, registry_apply bus_Close i b))"

section \<open>Lemmas\<close>

lemma foldl_snoc [simp]: "foldl (\<lambda>ks k. ks @ [k]) acc xs = acc @ xs"
  by (induction xs arbitrary: acc) simp_all

abbreviation bus_taken where
  "bus_taken \<equiv> reg_taken bus_deliver bus_Pop bus_Close new_bus_subscriber"

abbreviation bus_left where
  "bus_left \<equiv> reg_after bus_deliver bus_Pop bus_Close new_bus_subscriber"

lemma watch_loop_run:
  assumes "\<forall>t \<in> set turns. foreign i (rt_ops t)" and "watch_loop i turns b = (msgs, b')"
  shows "\<exists>past rest. turns = past @ rest \<and> b' = bus_left i past b \<and>
    prefix msgs (map event_to_proto (bus_taken i past b)) \<and>
    ((\<forall>t \<in> set turns. \<not> rt_cancelled t \<and> rt_write_ok t) \<longrightarrow>
       rest = [] \<and> msgs = map event_to_proto (bus_taken i past b))"
  using assms
proof (induction turns arbitrary: b msgs)
  case Nil
  then show ?case by - (rule exI [of _ "[]"], simp)
next
  case (Cons t ts)
  have for1: "foreign i (rt_ops t)" and fors: "\<forall>t \<in> set ts. foreign i (rt_ops t)" using Cons.prems(1) by simp_all
  obtain x b1 where pop: "registry_pop bus_Pop i (snd (bus_run b (rt_ops t))) = (x, b1)"
    by (cases "registry_pop bus_Pop i (snd (bus_run b (rt_ops t)))")
  note step = reg_taken_Cons [OF for1 pop]
  have on: ?case if loop: "watch_loop i ts b1 = (ms, b')" and msgs: "msgs = map event_to_proto pre @ ms"
      and pre: "pre = (case x of None \<Rightarrow> [] | Some m \<Rightarrow> [m])" for ms pre
  proof -
    obtain past rest where ts: "ts = past @ rest" and b': "b' = bus_left i past b1"
      and pf: "prefix ms (map event_to_proto (bus_taken i past b1))"
      and all: "(\<forall>t \<in> set ts. \<not> rt_cancelled t \<and> rt_write_ok t) \<longrightarrow>
          rest = [] \<and> ms = map event_to_proto (bus_taken i past b1)"
      using Cons.IH [OF fors loop] by blast
    have w: "map event_to_proto (bus_taken i (t # past) b) =
        map event_to_proto pre @ map event_to_proto (bus_taken i past b1)"
      by (simp only: step pre map_append)
    have "b' = bus_left i (t # past) b" by (simp only: step b')
    moreover have "prefix msgs (map event_to_proto (bus_taken i (t # past) b))"
      using pf by (simp only: w msgs same_prefix_prefix)
    moreover have "(\<forall>t \<in> set (t # ts). \<not> rt_cancelled t \<and> rt_write_ok t) \<longrightarrow>
        rest = [] \<and> msgs = map event_to_proto (bus_taken i (t # past) b)"
      using all by (simp only: w msgs list.set insert_iff) blast
    ultimately show ?thesis
      using ts by - (rule exI [of _ "t # past"], rule exI [of _ rest], simp only: append_Cons simp_thms)
  qed
  consider (cancelled) "rt_cancelled t" | (empty) "\<not> rt_cancelled t" "x = None"
    | (failed) m where "\<not> rt_cancelled t" "x = Some m" "\<not> rt_write_ok t"
    | (written) m where "\<not> rt_cancelled t" "x = Some m" "rt_write_ok t"
    by (cases x) auto
  then show ?case
  proof cases
    case cancelled
    with Cons.prems(2) show ?thesis by - (rule exI [of _ "[]"], rule exI [of _ "t # ts"], simp)
  next
    case empty
    with Cons.prems(2) pop have "watch_loop i ts b1 = (msgs, b')" by (simp add: bus_after_def)
    then show ?thesis by (rule on [where pre = "[]"]) (simp_all add: empty)
  next
    case (failed m)
    with Cons.prems(2) pop have "msgs = []" "b' = b1" by (simp_all add: bus_after_def)
    then show ?thesis using failed step [of "[]"]
      by - (rule exI [of _ "[t]"], rule exI [of _ ts], simp)
  next
    case (written m)
    with Cons.prems(2) pop obtain ms where "watch_loop i ts b1 = (ms, b')" "msgs = event_to_proto m # ms"
      by (auto simp: bus_after_def split: prod.splits)
    then show ?thesis by (intro on [where pre = "[m]"]) (simp_all add: written)
  qed
qed

lemma rpc_WatchEvents_stream:
  assumes "bus_inv b" and "\<forall>t \<in> set turns. foreign (next_id b) (rt_ops t)"
    and "rpc_WatchEvents turns b = (msgs, b')"
  shows "subseq (map event_of_proto msgs) (concat (map (ops_published \<circ> rt_ops) turns)) \<and>
    ((\<forall>t \<in> set turns. \<not> rt_cancelled t \<and> rt_write_ok t \<and> length (ops_published (rt_ops t)) \<le> 1) \<longrightarrow>
      map event_of_proto msgs = concat (map (ops_published \<circ> rt_ops) turns)) \<and>
    (\<exists>s. heap b' (next_id b) = Some s \<and> bs_closed s)"
proof -
  define i where "i = next_id b"
  define b1 where "b1 = snd (bus_Subscribe b)"
  have new: "bus_inv b1" "heap b1 i = Some new_bus_subscriber" "fst (bus_Subscribe b) = i"
    using bus_inv_run [OF assms(1), of "[Subscribe_op]"]
    by (simp_all add: b1_def i_def bus_Subscribe_def registry_add_def Let_def)
  obtain b2 where loop: "watch_loop i turns b1 = (msgs, b2)" and b': "b' = registry_apply bus_Close i b2"
    using assms(3) new(3) by (auto simp: rpc_WatchEvents_def b1_def Let_def split: prod.splits)
  have foreign: "\<forall>t \<in> set turns. foreign i (rt_ops t)" using assms(2) by (simp add: i_def)
  obtain past rest where past: "turns = past @ rest" "b2 = bus_left i past b1"
      "prefix msgs (map event_to_proto (bus_taken i past b1))"
      "(\<forall>t \<in> set turns. \<not> rt_cancelled t \<and> rt_write_ok t) \<longrightarrow>
        rest = [] \<and> msgs = map event_to_proto (bus_taken i past b1)"
    using watch_loop_run [OF foreign loop] by blast
  have fp: "\<forall>t \<in> set past. foreign i (rt_ops t)" using foreign by (simp add: past(1))
  have reg: "registry_inv b1" using new(1) by (simp add: bus_inv_def)
  obtain s' where s': "heap b2 i = Some s'"
    and sess: "session bus_deliver bus_Pop bus_Close new_bus_subscriber
      (concat (map (\<lambda>t. map OpPublish (ops_published (rt_ops t)) @ [OpPop]) past)) = (bus_taken i past b1, s')"
    using reg_taken_session [OF reg new(2) fp, of bus_deliver bus_Pop bus_Close new_bus_subscriber]
    unfolding past(2) by blast
  have "prefix (map event_of_proto msgs) (map event_of_proto (map event_to_proto (bus_taken i past b1)))"
    by (rule map_mono_prefix [OF past(3)])
  then have "prefix (map event_of_proto msgs) (bus_taken i past b1)" by (simp add: comp_def)
  then have "subseq (map event_of_proto msgs) (bus_taken i past b1)" by (rule prefix_imp_subseq)
  moreover have "subseq (bus_taken i past b1) (bus_taken i past b1 @ bs_queue s')"
    by (rule subseq_rev_drop_many [OF subseq_order.order_refl])
  moreover have "subseq (bus_taken i past b1 @ bs_queue s') (concat (map (ops_published \<circ> rt_ops) past))"
    using bus.session_subseq [OF _ sess] by (simp add: new_bus_subscriber_def comp_def)
  moreover have "subseq (concat (map (ops_published \<circ> rt_ops) past)) (concat (map (ops_published \<circ> rt_ops) turns))"
    by (simp add: past(1) subseq_rev_drop_many)
  ultimately have sub: "subseq (map event_of_proto msgs) (concat (map (ops_published \<circ> rt_ops) turns))"
    by (meson subseq_order.order_trans)
  have all: "map event_of_proto msgs = concat (map (ops_published \<circ> rt_ops) turns)"
    if ok: "\<forall>t \<in> set turns. \<not> rt_cancelled t \<and> rt_write_ok t \<and> length (ops_published (rt_ops t)) \<le> 1"
  proof -
    have "rest = []" and m: "msgs = map event_to_proto (bus_taken i past b1)" using ok past(4) by blast+
    have short: "\<forall>ms \<in> set (map (ops_published \<circ> rt_ops) past). length ms \<le> 1"
      using ok by (simp add: past(1))
    obtain s2 where "session bus_deliver bus_Pop bus_Close new_bus_subscriber
        (concat (map (\<lambda>ms. map OpPublish ms @ [OpPop]) (map (ops_published \<circ> rt_ops) past))) =
        (concat (map (ops_published \<circ> rt_ops) past), s2)"
      using bus.session_polling [OF _ _ short, of new_bus_subscriber] by (auto simp: new_bus_subscriber_def)
    then have "bus_taken i past b1 = concat (map (ops_published \<circ> rt_ops) turns)"
      using sess past(1) \<open>rest = []\<close> by (simp add: comp_def)
    then show ?thesis by (simp add: m comp_def)
  qed
  have "\<exists>s. heap b' (next_id b) = Some s \<and> bs_closed s"
    using s' b' by (simp add: registry_apply_def bus_Close_def i_def)
  with sub all show ?thesis by blast
qed

section \<open>Properties\<close>

text \<open>
  C24: a WatchEvents call writes, in order and without repetition, a subsequence of the
  events published during the call; nothing published before it; and all of them if the
  call is not cancelled, the writes succeed and at most one event is published per poll.
  The subscriber is closed when the call returns.
\<close>

theorem watch_events_streams:
  assumes "bus_inv b" and "\<forall>t \<in> set turns. foreign (next_id b) (rt_ops t)"
    and "rpc_WatchEvents turns b = (msgs, b')"
  shows "subseq (map event_of_proto msgs) (concat (map (ops_published \<circ> rt_ops) turns)) \<and>
    ((\<forall>t \<in> set turns. \<not> rt_cancelled t \<and> rt_write_ok t \<and> length (ops_published (rt_ops t)) \<le> 1) \<longrightarrow>
      map event_of_proto msgs = concat (map (ops_published \<circ> rt_ops) turns)) \<and>
    (\<exists>s. heap b' (next_id b) = Some s \<and> bs_closed s)"
  by (rule rpc_WatchEvents_stream [OF assms])

definition demo_event :: "int \<Rightarrow> event_message" where
  "demo_event n = \<lparr>ev_timestamp_ms = n, ev_level = ''info'', ev_title = ''t'', ev_message = ''m''\<rparr>"

definition event_turn :: "event_message list \<Rightarrow> event_message rpc_turn" where
  "event_turn es = \<lparr>rt_cancelled = False, rt_ops = map Publish_op es, rt_write_ok = True\<rparr>"

theorem watch_events_streams_witness:
  "map event_of_proto (fst (rpc_WatchEvents [event_turn [demo_event 1], event_turn [], event_turn [demo_event 2]]
     registry_empty)) = [demo_event 1, demo_event 2]"
proof -
  let ?turns = "[event_turn [demo_event 1], event_turn [], event_turn [demo_event 2]]"
  obtain msgs b' where run: "rpc_WatchEvents ?turns registry_empty = (msgs, b')"
    by (cases "rpc_WatchEvents ?turns registry_empty")
  have f: "\<forall>t \<in> set ?turns. foreign (next_id (registry_empty :: event_bus)) (rt_ops t)"
    by (simp add: event_turn_def foreign_def)
  have ok: "\<forall>t \<in> set ?turns. \<not> rt_cancelled t \<and> rt_write_ok t \<and> length (ops_published (rt_ops t)) \<le> 1"
    and pub: "concat (map (ops_published \<circ> rt_ops) ?turns) = [demo_event 1, demo_event 2]"
    by (simp_all add: event_turn_def)
  have "map event_of_proto msgs = concat (map (ops_published \<circ> rt_ops) ?turns)"
    using watch_events_streams [OF bus_inv_empty f run] ok by blast
  then show ?thesis unfolding pub by (simp add: run)
qed

text \<open>
  Every SwitchProfile call on an existing profile that returns an answer puts exactly
  one event, stamped with the time of the call, at the end of the queue of every open
  watcher: an info event with the profile's name if the answer is ok, an error event if
  not; the watcher's older events are kept as far as 32 fit.
\<close>

theorem switch_notifies_watchers:
  assumes "bus_inv (pm_bus st)" and "heap (pm_bus st) i = Some s" and "\<not> bs_closed s" and "has_events cfg"
    and "store_Get lib (pm_fs st) pid = Inr (Some p)"
    and "rpc_SwitchProfile lib no_bytes cfg now pid st = (Inr response, st')"
  shows "\<exists>title message s'. heap (pm_bus st') i = Some s' \<and>
    bs_queue s' = last_n 32 (bs_queue s @ [\<lparr>ev_timestamp_ms = now,
      ev_level = (if sp_ok response then ''info'' else ''error''), ev_title = title, ev_message = message\<rparr>]) \<and>
    (sp_ok response \<longrightarrow> message = prof_name p)"
proof -
  have eff: "heap (PublishNow now level title message (pm_bus st)) i = Some (s\<lparr>bs_queue := last_n 32 (bs_queue s @
      [\<lparr>ev_timestamp_ms = now, ev_level = level, ev_title = title, ev_message = message\<rparr>])\<rparr>)" for level title message
    using PublishNow_effect [OF assms(1)] assms(2,3) by simp
  obtain r where sw: "SwitchTo lib no_bytes cfg now pid st = (Inr r, st')" and ok: "sp_ok response = sr_ok r"
    using assms(6) by (auto simp: rpc_SwitchProfile_def split: prod.splits sum.splits)
  obtain title message where "pm_bus st' = PublishNow now (if sr_ok r then ''info'' else ''error'') title message (pm_bus st)"
    and "sr_ok r \<longrightarrow> message = prof_name p"
    using sw assms(4,5) by (auto simp: SwitchTo_def publish_if_def split: switch_run.splits sum.splits prod.splits)
  then show ?thesis using eff [of "if sr_ok r then ''info'' else ''error''" title message] ok by auto
qed

theorem switch_notifies_watchers_witness:
  "\<exists>response st' title message s'.
     rpc_SwitchProfile identity_json JNull demo_config 7 ''q'' (quiet_state\<lparr>pm_bus := snd (bus_Subscribe registry_empty)\<rparr>) =
       (Inr response, st') \<and> heap (pm_bus st') 0 = Some s' \<and>
     bs_queue s' = [\<lparr>ev_timestamp_ms = 7, ev_level = (if sp_ok response then ''info'' else ''error''),
       ev_title = title, ev_message = message\<rparr>]"
proof -
  let ?st = "quiet_state\<lparr>pm_bus := snd (bus_Subscribe registry_empty)\<rparr>"
  have inv: "bus_inv (pm_bus ?st)"
    using bus_inv_run [OF bus_inv_empty, of "[Subscribe_op]"] by (simp add: bus_Subscribe_def)
  have sub: "heap (pm_bus ?st) 0 = Some new_bus_subscriber" "\<not> bs_closed new_bus_subscriber"
    by (simp_all add: bus_Subscribe_def registry_add_def registry_empty_def new_bus_subscriber_def)
  have ev: "has_events demo_config" by simp
  have get: "store_Get identity_json (pm_fs ?st) ''q'' = Inr (Some quiet_profile)" using quiet_Get by simp
  obtain response st' where sw: "rpc_SwitchProfile identity_json JNull demo_config 7 ''q'' ?st = (Inr response, st')"
  proof -
    have "\<exists>r st'. SwitchTo identity_json JNull demo_config 7 ''q'' ?st = (Inr r, st')"
      using quiet_switch get by (auto simp: SwitchTo_def split: switch_run.splits sum.splits prod.splits)
    then show thesis using that by (auto simp: rpc_SwitchProfile_def)
  qed
  from switch_notifies_watchers [OF inv sub ev get sw] sw show ?thesis
    by (auto simp: new_bus_subscriber_def last_n_id)
qed

end
