(* ===== verification/Telemetry_Store.thy ===== *)
theory Telemetry_Store
  imports Bounded_Log Telemetry_Types
begin

text \<open>
  \<open>apps/hwpanel-client/backend/telemetry_store.cpp\<close> and its header: the client's chart
  series and the routing of samples into them. Both live on the UI thread.
\<close>

section \<open>One series\<close>

record metric_series =
  ms_id :: string
  ms_unit :: string
  ms_capacity :: nat
  ms_values :: "double list"
  ms_latest :: double

definition MetricSeries :: "string \<Rightarrow> string \<Rightarrow> nat \<Rightarrow> metric_series" where
  "MetricSeries i u c = \<lparr>ms_id = i, ms_unit = u, ms_capacity = c, ms_values = [], ms_latest = Zero False\<rparr>"

definition series_Append :: "metric_series \<Rightarrow> double \<Rightarrow> metric_series" where
  "series_Append s value =
     (let s = (if ms_capacity s \<le> length (ms_values s) then s\<lparr>ms_values := tl (ms_values s)\<rparr> else s)
      in s\<lparr>ms_values := ms_values s @ [value], ms_latest := value\<rparr>)"

definition series_values :: "metric_series \<Rightarrow> double list" where
  "series_values s = foldl (\<lambda>out v. out @ [v]) [] (ms_values s)"

definition series_inv :: "metric_series \<Rightarrow> bool" where
  "series_inv s \<longleftrightarrow> 0 < ms_capacity s \<and> length (ms_values s) \<le> ms_capacity s"

interpretation series: bounded_log series_Append ms_values ms_capacity series_inv
proof
  fix s :: metric_series and v
  assume inv: "series_inv s"
  show "series_inv (series_Append s v)"
    using inv by (auto simp: series_inv_def series_Append_def Let_def)
  show "ms_values (series_Append s v) = last_n (ms_capacity s) (ms_values s @ [v])"
    using inv by (cases "length (ms_values s) = ms_capacity s")
      (auto simp: series_inv_def series_Append_def Let_def last_n_full last_n_room)
qed (auto simp: series_inv_def series_Append_def Let_def)

lemma series_values_eq [simp]: "series_values s = ms_values s"
proof -
  have "foldl (\<lambda>out v. out @ [v]) acc vs = acc @ vs" for acc :: "double list" and vs
    by (induction vs arbitrary: acc) simp_all
  then show ?thesis by (simp add: series_values_def)
qed

lemma series_latest_push: "ms_latest (foldl series_Append s vs) = last (ms_latest s # vs)"
  by (induction vs arbitrary: s) (simp_all add: series_Append_def Let_def)

section \<open>The store\<close>

record telemetry_store =
  cpu_usage :: metric_series
  gpu_usage :: metric_series
  mem_used_mb :: metric_series
  disk_io_bps :: metric_series
  cpu_temp_c :: metric_series
  gpu_temp_c :: metric_series

text \<open>The unit of the two temperatures is the UTF-8 text of degrees Celsius.\<close>

definition celsius :: string where "celsius = [CHR 0xC2, CHR 0xB0, CHR ''C'']"

definition TelemetryStore :: telemetry_store where
  "TelemetryStore = \<lparr>
     cpu_usage = MetricSeries ''cpu.usage_pct'' ''%'' 60,
     gpu_usage = MetricSeries ''gpu.util_pct'' ''%'' 60,
     mem_used_mb = MetricSeries ''mem.used_mb'' ''MB'' 60,
     disk_io_bps = MetricSeries ''disk.io_bps'' ''B/s'' 60,
     cpu_temp_c = MetricSeries ''cpu.temp_c'' celsius 60,
     gpu_temp_c = MetricSeries ''gpu.temp_c'' celsius 60\<rparr>"

text \<open>The body of the loop over the metrics, with its two accumulators.\<close>

definition handle_metric :: "metric_sample \<Rightarrow> telemetry_store \<times> double \<times> bool \<Rightarrow> telemetry_store \<times> double \<times> bool" where
  "handle_metric m = (\<lambda>(st, disk_io, have_disk).
     if metric_id m = ''cpu.usage_pct'' then (st\<lparr>cpu_usage := series_Append (cpu_usage st) (metric_value m)\<rparr>, disk_io, have_disk)
     else if metric_id m = ''gpu.util_pct'' then (st\<lparr>gpu_usage := series_Append (gpu_usage st) (metric_value m)\<rparr>, disk_io, have_disk)
     else if metric_id m = ''mem.used_mb'' then (st\<lparr>mem_used_mb := series_Append (mem_used_mb st) (metric_value m)\<rparr>, disk_io, have_disk)
     else if metric_id m = ''cpu.temp_c'' then (st\<lparr>cpu_temp_c := series_Append (cpu_temp_c st) (metric_value m)\<rparr>, disk_io, have_disk)
     else if metric_id m = ''gpu.temp_c'' then (st\<lparr>gpu_temp_c := series_Append (gpu_temp_c st) (metric_value m)\<rparr>, disk_io, have_disk)
     else if metric_id m = ''disk.read_bps'' \<or> metric_id m = ''disk.write_bps''
     then (st, disk_io + metric_value m, True)
     else (st, disk_io, have_disk))"

definition HandleSample :: "telemetry_sample \<Rightarrow> telemetry_store \<Rightarrow> telemetry_store" where
  "HandleSample sample st =
     (let (st, disk_io, have_disk) = fold handle_metric (metrics sample) (st, literal 0, False)
      in if have_disk then st\<lparr>disk_io_bps := series_Append (disk_io_bps st) disk_io\<rparr> else st)"

section \<open>What the series show\<close>

text \<open>The values a list of metrics has for one identifier, and its disk throughput, if any.\<close>

definition values_of :: "string \<Rightarrow> metric_sample list \<Rightarrow> double list" where
  "values_of i ms = map metric_value (filter (\<lambda>m. metric_id m = i) ms)"

definition disk_values :: "metric_sample list \<Rightarrow> double list" where
  "disk_values ms = map metric_value (filter (\<lambda>m. metric_id m \<in> {''disk.read_bps'', ''disk.write_bps''}) ms)"

definition disk_total :: "metric_sample list \<Rightarrow> double list" where
  "disk_total ms = (if disk_values ms = [] then [] else [foldl (+) (literal 0) (disk_values ms)])"

definition append_all :: "metric_sample list \<Rightarrow> telemetry_store \<Rightarrow> telemetry_store" where
  "append_all ms st = st\<lparr>
     cpu_usage := foldl series_Append (cpu_usage st) (values_of ''cpu.usage_pct'' ms),
     gpu_usage := foldl series_Append (gpu_usage st) (values_of ''gpu.util_pct'' ms),
     mem_used_mb := foldl series_Append (mem_used_mb st) (values_of ''mem.used_mb'' ms),
     cpu_temp_c := foldl series_Append (cpu_temp_c st) (values_of ''cpu.temp_c'' ms),
     gpu_temp_c := foldl series_Append (gpu_temp_c st) (values_of ''gpu.temp_c'' ms)\<rparr>"

lemma fold_handle_metric:
  "fold handle_metric ms (st, d, b) =
     (append_all ms st, foldl (+) d (disk_values ms), b \<or> disk_values ms \<noteq> [])"
proof (induction ms arbitrary: st d b)
  case Nil
  show ?case by (simp add: append_all_def values_of_def disk_values_def)
next
  case (Cons m ms)
  show ?case
    unfolding fold_Cons comp_def handle_metric_def [of m] prod.case
    by (auto simp: Cons append_all_def values_of_def disk_values_def)
qed

lemma HandleSample_eq:
  "HandleSample s st = (append_all (metrics s) st)\<lparr>disk_io_bps :=
     foldl series_Append (disk_io_bps st) (disk_total (metrics s))\<rparr>"
  by (auto simp: HandleSample_def fold_handle_metric disk_total_def Let_def append_all_def)

lemma values_of_append [simp]: "values_of i [] = []" "values_of i (a @ b) = values_of i a @ values_of i b"
  by (simp_all add: values_of_def)

lemma fold_HandleSample:
  "fold HandleSample ss st = (append_all (concat (map metrics ss)) st)\<lparr>disk_io_bps :=
     foldl series_Append (disk_io_bps st) (concat (map (disk_total \<circ> metrics) ss))\<rparr>"
proof (induction ss arbitrary: st)
  case Nil
  show ?case by (simp add: append_all_def values_of_def)
next
  case (Cons s ss)
  have "fold HandleSample (s # ss) st = fold HandleSample ss (HandleSample s st)" by simp
  also note Cons.IH
  finally show ?case unfolding HandleSample_eq by (simp add: append_all_def comp_def)
qed

lemma series_shows:
  "ms_values (foldl series_Append (MetricSeries i u 60) vs) = last_n 60 vs"
  by (simp add: series.contents_push_all series_inv_def MetricSeries_def)

section \<open>Properties\<close>

text \<open>
  After any samples, each of the six series of a new store holds the last 60 values
  of its own metric, in arrival order; the disk series has one value per sample that
  carries a disk metric, the sum of its read and write rates.
\<close>

theorem store_shows_last_sixty:
  "let st = fold HandleSample ss TelemetryStore; ms = concat (map metrics ss)
   in series_values (cpu_usage st) = last_n 60 (values_of ''cpu.usage_pct'' ms) \<and>
      series_values (gpu_usage st) = last_n 60 (values_of ''gpu.util_pct'' ms) \<and>
      series_values (mem_used_mb st) = last_n 60 (values_of ''mem.used_mb'' ms) \<and>
      series_values (cpu_temp_c st) = last_n 60 (values_of ''cpu.temp_c'' ms) \<and>
      series_values (gpu_temp_c st) = last_n 60 (values_of ''gpu.temp_c'' ms) \<and>
      series_values (disk_io_bps st) = last_n 60 (concat (map (disk_total \<circ> metrics) ss))"
  by (simp add: fold_HandleSample append_all_def TelemetryStore_def series_shows Let_def)

text \<open>
  A sample with several values of one metric advances the chart that many steps:
  after 30 samples that each carry two GPU utilisations, the 60-second chart holds only
  these 30 seconds.
\<close>

lemma duplicate_metric_halves_window:
  assumes "\<forall>s \<in> set ss. length (values_of ''gpu.util_pct'' (metrics s)) = 2" and "length ss = 30"
  shows "series_values (gpu_usage (fold HandleSample (old @ ss) TelemetryStore)) =
    values_of ''gpu.util_pct'' (concat (map metrics ss))"
proof -
  have "length (values_of ''gpu.util_pct'' (concat (map metrics ss))) = 2 * length ss"
    using assms(1) by (induction ss) (simp_all add: values_of_def)
  then have len: "length (values_of ''gpu.util_pct'' (concat (map metrics ss))) = 60" using assms(2) by simp
  have "series_values (gpu_usage (fold HandleSample (old @ ss) TelemetryStore)) =
      last_n 60 (values_of ''gpu.util_pct'' (concat (map metrics (old @ ss))))"
    unfolding fold_HandleSample
    by (simp add: append_all_def TelemetryStore_def series_shows del: map_append concat_append values_of_append)
  then show ?thesis using len by (simp add: last_n_append last_n_id)
qed

end
