(* ===== verification/Client_Models.thy ===== *)
theory Client_Models
  imports Event_Bus Channel_Manager
begin

text \<open>
  The three small view models of \<open>apps/hwpanel-client/backend\<close>: the notification list, the
  profile list and the connection status. They live on the UI thread; a model index is its
  validity and row, a role its Qt number, and what \<open>data\<close> returns for an unknown role or
  row is the invalid variant, \<open>None\<close>.
\<close>

definition UserRole :: nat where "UserRole = 0x100"

datatype variant = VString string | VBool bool

section \<open>Notifications\<close>

record notification_row =
  nr_time :: string
  nr_level :: string
  nr_title :: string
  nr_message :: string

type_synonym notification_model = "notification_row list"

text \<open>The clock time Qt prints for a number of milliseconds, in the user's time zone, is an argument.\<close>

definition notification_row_of :: "(int \<Rightarrow> string) \<Rightarrow> event_message \<Rightarrow> notification_row" where
  "notification_row_of format_time event = \<lparr>nr_time = format_time (ev_timestamp_ms event),
     nr_level = ev_level event, nr_title = ev_title event, nr_message = ev_message event\<rparr>"

definition push_row :: "notification_model \<Rightarrow> notification_row \<Rightarrow> notification_model" where
  "push_row rows row = (let rows = row # rows in if 50 < length rows then butlast rows else rows)"

definition notification_Append :: "(int \<Rightarrow> string) \<Rightarrow> notification_model \<Rightarrow> event_message \<Rightarrow> notification_model" where
  "notification_Append format_time rows event = push_row rows (notification_row_of format_time event)"

definition notification_Clear :: "notification_model \<Rightarrow> notification_model" where
  "notification_Clear rows = []"

definition notification_rowCount :: "bool \<Rightarrow> notification_model \<Rightarrow> nat" where
  "notification_rowCount parent_valid rows = (if parent_valid then 0 else length rows)"

definition notification_data :: "notification_model \<Rightarrow> bool \<Rightarrow> int \<Rightarrow> nat \<Rightarrow> variant option" where
  "notification_data rows valid row role =
     (if \<not> valid \<or> row < 0 \<or> row \<ge> int (length rows) then None
      else let r = rows ! nat row
        in if role = UserRole + 1 then Some (VString (nr_time r))
           else if role = UserRole + 2 then Some (VString (nr_level r))
           else if role = UserRole + 3 then Some (VString (nr_title r))
           else if role = UserRole + 4 then Some (VString (nr_message r))
           else None)"

definition notification_roleNames :: "(nat \<times> string) list" where
  "notification_roleNames = [(UserRole + 1, ''time''), (UserRole + 2, ''level''), (UserRole + 3, ''title''),
     (UserRole + 4, ''message'')]"

text \<open>Newest first: read backwards, the rows are a bounded log.\<close>

interpretation notifications: bounded_log push_row rev "\<lambda>_. 50" "\<lambda>rows. length rows \<le> 50"
proof
  fix rows :: notification_model and row
  assume len: "length rows \<le> 50"
  show "rev (push_row rows row) = last_n 50 (rev rows @ [row])"
  proof (cases "length rows = 50")
    case True
    then have "rows \<noteq> []" by auto
    have "last_n 50 (rev rows @ [row]) = tl (rev rows) @ [row]" using True by (intro last_n_full) simp_all
    also have "tl (rev rows) = rev (butlast rows)" using \<open>rows \<noteq> []\<close> by (cases rows rule: rev_cases) simp_all
    finally show ?thesis using True \<open>rows \<noteq> []\<close> by (simp add: push_row_def)
  next
    case False
    with len show ?thesis by (simp add: push_row_def last_n_id)
  qed
qed (auto simp: push_row_def Let_def)

section \<open>Profiles\<close>

record profile_row =
  pr_id :: string
  pr_name :: string
  pr_description :: string

record profile_model =
  pm_rows :: "profile_row list"
  pm_active :: string

definition profile_model_init :: profile_model where
  "profile_model_init = \<lparr>pm_rows = [], pm_active = []\<rparr>"

text \<open>A variant map; a missing entry reads as the empty text.\<close>

definition map_value :: "(string \<rightharpoonup> string) \<Rightarrow> string \<Rightarrow> string" where
  "map_value m k = (case m k of Some v \<Rightarrow> v | None \<Rightarrow> [])"

fun profile_rows :: "(string \<rightharpoonup> string) list \<Rightarrow> profile_row list \<Rightarrow> profile_row list" where
  "profile_rows [] rows = rows"
| "profile_rows (m # ms) rows = profile_rows ms (rows @ [\<lparr>pr_id = map_value m ''id'',
     pr_name = map_value m ''name'', pr_description = map_value m ''description''\<rparr>])"

definition SetProfiles :: "(string \<rightharpoonup> string) list \<Rightarrow> string \<Rightarrow> profile_model \<Rightarrow> profile_model" where
  "SetProfiles profiles active_id pm = \<lparr>pm_rows = profile_rows profiles [], pm_active = active_id\<rparr>"

definition profile_rowCount :: "bool \<Rightarrow> profile_model \<Rightarrow> nat" where
  "profile_rowCount parent_valid pm = (if parent_valid then 0 else length (pm_rows pm))"

definition profile_data :: "profile_model \<Rightarrow> bool \<Rightarrow> int \<Rightarrow> nat \<Rightarrow> variant option" where
  "profile_data pm valid row role =
     (if \<not> valid \<or> row < 0 \<or> row \<ge> int (length (pm_rows pm)) then None
      else let r = pm_rows pm ! nat row
        in if role = UserRole + 1 then Some (VString (pr_id r))
           else if role = UserRole + 2 then Some (VString (pr_name r))
           else if role = UserRole + 3 then Some (VString (pr_description r))
           else if role = UserRole + 4 then Some (VBool (pr_id r = pm_active pm))
           else None)"

definition profile_roleNames :: "(nat \<times> string) list" where
  "profile_roleNames = [(UserRole + 1, ''profileId''), (UserRole + 2, ''profileName''),
     (UserRole + 3, ''profileDescription''), (UserRole + 4, ''isActive'')]"

lemma profile_rows_eq:
  "profile_rows ms rows = rows @ map (\<lambda>m. \<lparr>pr_id = map_value m ''id'', pr_name = map_value m ''name'',
     pr_description = map_value m ''description''\<rparr>) ms"
  by (induction ms rows rule: profile_rows.induct) simp_all

section \<open>Connection status\<close>

record connection_status =
  cs_connected :: bool
  cs_text :: string
  cs_color :: string

definition ConnectionStatus :: connection_status where
  "ConnectionStatus = \<lparr>cs_connected = False, cs_text = ''connecting'', cs_color = ''#f0a030''\<rparr>"

text \<open>The number the worker emits for a state, and the state a number stands for, if any.\<close>

fun state_number :: "connection_state \<Rightarrow> int" where
  "state_number kDisconnected = 0"
| "state_number kConnecting = 1"
| "state_number kConnected = 2"

definition state_of_number :: "int \<Rightarrow> connection_state option" where
  "state_of_number i = (if i = 0 then Some kDisconnected else if i = 1 then Some kConnecting
     else if i = 2 then Some kConnected else None)"

definition status_SetState :: "int \<Rightarrow> connection_status \<Rightarrow> connection_status" where
  "status_SetState state cs =
     (let value = state_of_number state; connected = (value = Some kConnected)
      in \<lparr>cs_connected = connected,
          cs_text = (case value of Some st \<Rightarrow> ToString st | None \<Rightarrow> ''unknown''),
          cs_color = (if connected then ''#3ddc84''
                      else if value = Some kConnecting then ''#f0a030'' else ''#e5484d'')\<rparr>)"

lemma state_of_number_state [simp]: "state_of_number (state_number st) = Some st"
  by (cases st) (simp_all add: state_of_number_def)

section \<open>Properties\<close>

text \<open>
  The notification list shows, newest first, exactly the last 50 events received
  since it was created; row \<open>k\<close> is the k-th newest of them, with its level, title,
  message and formatted time under the four roles, and any other row or role gives the
  invalid value.
\<close>

theorem notifications_newest_first:
  "foldl (notification_Append fmt) [] events =
     rev (last_n 50 (map (notification_row_of fmt) events)) \<and>
   notification_data (foldl (notification_Append fmt) [] events) True (int k) (UserRole + 4) =
     (if k < min 50 (length events) then Some (VString (ev_message (events ! (length events - 1 - k)))) else None)"
proof -
  have push: "foldl (notification_Append fmt) rows events = foldl push_row rows (map (notification_row_of fmt) events)"
    for rows by (induction events arbitrary: rows) (simp_all add: notification_Append_def)
  have "rev (foldl push_row [] (map (notification_row_of fmt) events)) = last_n 50 (map (notification_row_of fmt) events)"
    using notifications.contents_push_all [of "[]" "map (notification_row_of fmt) events"] by simp
  then have rows: "foldl (notification_Append fmt) [] events = rev (last_n 50 (map (notification_row_of fmt) events))"
    unfolding push by (metis rev_rev_ident)
  have nth: "rev (last_n 50 (map (notification_row_of fmt) events)) ! k =
      notification_row_of fmt (events ! (length events - 1 - k))" if "k < min 50 (length events)"
  proof -
    let ?d = "length events - 50"
    have "k < length (drop ?d (map (notification_row_of fmt) events))"
      using that by (cases "length events \<le> 50") simp_all
    then have "rev (drop ?d (map (notification_row_of fmt) events)) ! k =
        map (notification_row_of fmt) events ! (?d + (length events - ?d - Suc k))"
      by (simp only: rev_nth length_drop length_map nth_drop)
    also have "?d + (length events - ?d - Suc k) = length events - 1 - k"
      using that by (cases "length events \<le> 50") simp_all
    finally show ?thesis using that by (simp add: last_n_def)
  qed
  show ?thesis
    using rows nth by (auto simp: notification_data_def UserRole_def Let_def notification_row_of_def min_def)
qed

text \<open>After \<open>SetProfiles\<close> the model lists the profiles in order and marks those with the active id.\<close>

lemma profile_model_rows:
  "k < length profiles \<Longrightarrow>
     profile_rowCount False (SetProfiles profiles active pm) = length profiles \<and>
     profile_data (SetProfiles profiles active pm) True (int k) (UserRole + 1) =
       Some (VString (map_value (profiles ! k) ''id'')) \<and>
     profile_data (SetProfiles profiles active pm) True (int k) (UserRole + 4) =
       Some (VBool (map_value (profiles ! k) ''id'' = active))"
  by (simp add: SetProfiles_def profile_rows_eq profile_rowCount_def profile_data_def UserRole_def)

end
