(* ===== verification/Client_Worker.thy ===== *)
theory Client_Worker
  imports Client_Models Telemetry_Store Telemetry_Service Command_Service
begin

text \<open>
  \<open>apps/hwpanel-client/backend/client_worker.cpp\<close> and the wiring of its signals in
  \<open>apps/hwpanel-client/main.cpp\<close>: the client's side of the two streams and of the unary
  calls, and what reaches the models of the user interface.
\<close>

section \<open>The stream loops\<close>

text \<open>
  One turn of a loop that found \<open>running_\<close> set: whether there is a channel that is ready,
  whether the call gave a reader, and what was read until \<open>Read\<close> failed or \<open>running_\<close> was
  cleared.
\<close>

record 'm link_turn =
  lt_ready :: bool
  lt_reader :: bool
  lt_messages :: "'m list"

text \<open>The emitted samples and the pauses in milliseconds.\<close>

fun TelemetryLoop :: "pb_sample link_turn list \<Rightarrow> telemetry_sample list \<times> int list" where
  "TelemetryLoop [] = ([], [])"
| "TelemetryLoop (t # ts) =
     (let (emitted, waits) = TelemetryLoop ts
      in if \<not> lt_ready t then (emitted, 500 # waits)
         else if \<not> lt_reader t then (emitted, 1000 # waits)
         else (map sample_of_proto (lt_messages t) @ emitted, 1000 # waits))"

fun EventsLoop :: "pb_event link_turn list \<Rightarrow> event_message list \<times> int list" where
  "EventsLoop [] = ([], [])"
| "EventsLoop (t # ts) =
     (let (emitted, waits) = EventsLoop ts
      in if \<not> lt_ready t then (emitted, 500 # waits)
         else if \<not> lt_reader t then (emitted, 1000 # waits)
         else (map event_of_proto (lt_messages t) @ emitted, 1000 # waits))"

section \<open>The unary calls\<close>

datatype 'r rpc_result = RpcOk 'r | RpcFailed string

datatype ui_signal =
  SampleReceived telemetry_sample
  | EventReceived event_message
  | ProfilesReceived "(string \<rightharpoonup> string) list" string
  | SwitchResult bool string
  | ConnectionChanged int

definition profile_map :: "pb_profile \<Rightarrow> (string \<rightharpoonup> string)" where
  "profile_map p = [''id'' \<mapsto> pb_id p, ''name'' \<mapsto> pb_name p, ''description'' \<mapsto> pb_description p]"

text \<open>\<open>has_channel\<close>: \<open>manager_.channel()\<close> is not null. The result is the signals emitted.\<close>

definition RefreshProfilesInternal :: "bool \<Rightarrow> list_profiles_response rpc_result \<Rightarrow> ui_signal list" where
  "RefreshProfilesInternal has_channel result =
     (if \<not> has_channel then []
      else case result of
        RpcFailed _ \<Rightarrow> []
      | RpcOk response \<Rightarrow>
          [ProfilesReceived (map profile_map (lr_profiles response)) (lr_active_profile_id response)])"

definition SwitchProfileInternal :: "bool \<Rightarrow> switch_profile_response rpc_result \<Rightarrow>
    bool \<Rightarrow> list_profiles_response rpc_result \<Rightarrow> ui_signal list" where
  "SwitchProfileInternal has_channel result has_channel2 refresh =
     (if \<not> has_channel then [SwitchResult False ''not connected'']
      else case result of
        RpcFailed message \<Rightarrow> [SwitchResult False message]
      | RpcOk response \<Rightarrow>
          SwitchResult (sp_ok response) (sp_message response) #
          (if sp_ok response then RefreshProfilesInternal has_channel2 refresh else []))"

section \<open>The user interface\<close>

record ui_state =
  ui_telemetry :: telemetry_store
  ui_profiles :: profile_model
  ui_notifications :: notification_model
  ui_connection :: connection_status

definition ui_init :: ui_state where
  "ui_init = \<lparr>ui_telemetry = TelemetryStore, ui_profiles = profile_model_init, ui_notifications = [],
     ui_connection = ConnectionStatus\<rparr>"

text \<open>The connected slots; \<open>now\<close> is the clock when the slot runs.\<close>

definition ui_receive :: "(int \<Rightarrow> string) \<Rightarrow> int \<Rightarrow> ui_signal \<Rightarrow> ui_state \<Rightarrow> ui_state" where
  "ui_receive fmt now signal ui =
     (case signal of
        SampleReceived sample \<Rightarrow> ui\<lparr>ui_telemetry := HandleSample sample (ui_telemetry ui)\<rparr>
      | EventReceived event \<Rightarrow> ui\<lparr>ui_notifications := notification_Append fmt (ui_notifications ui) event\<rparr>
      | ProfilesReceived profiles active \<Rightarrow> ui\<lparr>ui_profiles := SetProfiles profiles active (ui_profiles ui)\<rparr>
      | SwitchResult ok message \<Rightarrow>
          (let event = \<lparr>ev_timestamp_ms = now, ev_level = (if ok then ''info'' else ''warn''),
                 ev_title = (if ok then ''Profile switch'' else ''Profile switch failed''), ev_message = message\<rparr>
           in ui\<lparr>ui_notifications := notification_Append fmt (ui_notifications ui) event\<rparr>)
      | ConnectionChanged state \<Rightarrow> ui\<lparr>ui_connection := status_SetState state (ui_connection ui)\<rparr>)"

section \<open>Start and stop\<close>

text \<open>
  The worker's flag and threads; the channel manager contributes its own flag and thread.
  \<open>Start\<close> runs on the worker's thread, \<open>Stop\<close> on the main thread after the event loop has
  returned, and nothing but \<open>running_\<close> orders them: each is a sequence of atomic actions.
\<close>

record worker_state =
  wk_running :: bool
  wk_manager :: "(unit, unit) channel_manager"
  wk_telemetry :: bool
  wk_events :: bool

definition worker_init :: "string \<Rightarrow> worker_state" where
  "worker_init endpoint = \<lparr>wk_running = False, wk_manager = ChannelManager endpoint, wk_telemetry = False,
     wk_events = False\<rparr>"

text \<open>
  The action a caller performs at its position and its next position (4: returned); \<open>None\<close>
  is the termination of the process.
\<close>

definition Start_action :: "nat \<times> worker_state \<Rightarrow> (nat \<times> worker_state) option" where
  "Start_action = (\<lambda>(pc, w).
     if pc = 0 then Some (if wk_running w then (4, w) else (1, w\<lparr>wk_running := True\<rparr>))
     else if pc = 1 then map_option (\<lambda>m. (2, w\<lparr>wk_manager := m\<rparr>)) (cm_Start () (wk_manager w))
     else if pc = 2 then map_option (\<lambda>j. (3, w\<lparr>wk_telemetry := j\<rparr>)) (assign_thread (wk_telemetry w))
     else if pc = 3 then map_option (\<lambda>j. (4, w\<lparr>wk_events := j\<rparr>)) (assign_thread (wk_events w))
     else Some (pc, w))"

definition Stop_action :: "nat \<times> worker_state \<Rightarrow> nat \<times> worker_state" where
  "Stop_action = (\<lambda>(pc, w).
     if pc = 0 then (if \<not> wk_running w then (4, w) else (1, w\<lparr>wk_running := False\<rparr>))
     else if pc = 1 then (2, w\<lparr>wk_telemetry := False\<rparr>)
     else if pc = 2 then (3, w\<lparr>wk_events := False\<rparr>)
     else if pc = 3 then (4, w\<lparr>wk_manager := cm_Stop (wk_manager w)\<rparr>)
     else (pc, w))"

fun steps_of :: "nat \<Rightarrow> (nat \<times> worker_state \<Rightarrow> (nat \<times> worker_state) option) \<Rightarrow> nat \<times> worker_state \<Rightarrow> (nat \<times> worker_state) option" where
  "steps_of 0 f x = Some x"
| "steps_of (Suc n) f x = Option.bind (f x) (steps_of n f)"

definition worker_Start :: "unit \<Rightarrow> worker_state \<Rightarrow> worker_state option" where
  "worker_Start _ w = map_option snd (steps_of 4 Start_action (0, w))"

definition worker_Stop :: "worker_state \<Rightarrow> worker_state" where
  "worker_Stop w = snd ((Stop_action ^^ 4) (0, w))"

text \<open>
  The destructor stops, then destroys the members in reverse order: the two threads, then
  the manager, whose own destructor stops it. \<open>None\<close>: the process is terminated.
\<close>

definition worker_destroy :: "worker_state \<Rightarrow> unit option" where
  "worker_destroy w =
     (let w = worker_Stop w
      in case destroy_thread (wk_events w) of
           None \<Rightarrow> None
         | Some _ \<Rightarrow> (case destroy_thread (wk_telemetry w) of None \<Rightarrow> None | Some _ \<Rightarrow> cm_destroy (wk_manager w)))"

text \<open>An interleaving of one \<open>Start\<close> (\<open>True\<close>) and one \<open>Stop\<close> (\<open>False\<close>).\<close>

fun interleave :: "bool list \<Rightarrow> nat \<times> nat \<times> worker_state \<Rightarrow> (nat \<times> nat \<times> worker_state) option" where
  "interleave [] x = Some x"
| "interleave (True # sch) (a, b, w) =
     (case Start_action (a, w) of None \<Rightarrow> None | Some (a', w') \<Rightarrow> interleave sch (a', b, w'))"
| "interleave (False # sch) (a, b, w) =
     (let (b', w') = Stop_action (b, w) in interleave sch (a, b', w'))"

text \<open>Between calls that do not overlap, the three threads and both flags agree.\<close>

definition worker_ok :: "worker_state \<Rightarrow> bool" where
  "worker_ok w \<longleftrightarrow> wk_telemetry w = wk_running w \<and> wk_events w = wk_running w \<and>
     cm_running (wk_manager w) = wk_running w \<and> cm_joinable (wk_manager w) = wk_running w"

lemma worker_ok_Start: "worker_ok w \<Longrightarrow> \<exists>w'. worker_Start () w = Some w' \<and> worker_ok w' \<and> wk_running w'"
  by (cases "wk_running w")
    (auto simp: worker_Start_def numeral_eq_Suc Start_action_def worker_ok_def cm_Start_def assign_thread_def)

lemma worker_ok_Stop: "worker_ok w \<Longrightarrow> worker_ok (worker_Stop w) \<and> \<not> wk_running (worker_Stop w)"
  by (cases "wk_running w")
    (auto simp: worker_Stop_def numeral_eq_Suc Stop_action_def worker_ok_def cm_Stop_def)

lemma worker_destroy_ok: "worker_ok w \<Longrightarrow> worker_destroy w = Some ()"
  using worker_ok_Stop [of w]
  by (simp add: worker_destroy_def worker_ok_def destroy_thread_def cm_destroy_def cm_Stop_def Let_def)

lemma worker_life:
  "worker_ok w \<Longrightarrow> \<exists>w'. life_run worker_Start worker_Stop w ops = Some w' \<and> worker_ok w'"
proof (induction ops arbitrary: w)
  case (Cons op ops)
  then obtain w1 where "life_step worker_Start worker_Stop w op = Some w1" "worker_ok w1"
    by (cases op) (use worker_ok_Start worker_ok_Stop in fastforce)+
  then show ?case using Cons.IH by simp
qed simp

section \<open>What reaches the models\<close>

lemma TelemetryLoop_emitted:
  "fst (TelemetryLoop ts) = concat (map (\<lambda>t. if lt_ready t \<and> lt_reader t then map sample_of_proto (lt_messages t) else []) ts)"
  by (induction ts rule: TelemetryLoop.induct) (auto simp: split_beta Let_def)

lemma ui_samples:
  "fold (ui_receive fmt now) (map SampleReceived ss) ui = ui\<lparr>ui_telemetry := fold HandleSample ss (ui_telemetry ui)\<rparr>"
  by (induction ss arbitrary: ui) (simp_all add: ui_receive_def)

lemma decimation_one [simp]: "decimation u (Fin 1) = 1"
  by (simp add: decimation_def less_double_def)

lemma proto_no_filter [simp]: "sample_of_proto (sample_to_proto s {}) = s"
  by (simp add: sample_roundtrip)

section \<open>Properties\<close>

text \<open>
  C9: from the collectors to the charts nothing is lost or reordered while the parts keep
  up: when the service runs a Subscribe call for the client's request (1 Hz, no filter)
  that is not cancelled, whose writes succeed and that polls at least once per published
  sample, and the client reads what was written on a ready channel, the CPU chart holds
  the CPU values of the samples published during the call, the last 60 of them in order;
  likewise the GPU, memory, temperature and disk charts.
\<close>

theorem charts_show_published_samples:
  assumes "hub_inv h" and "\<forall>t \<in> set turns. foreign (next_id (hub_reg h)) (rt_ops t)"
    and "\<forall>t \<in> set turns. \<not> rt_cancelled t \<and> rt_write_ok t \<and> length (ops_published (rt_ops t)) \<le> 1"
    and "rpc_Subscribe u \<lparr>interval_hz = literal 1, metric_filter = []\<rparr> turns h = (msgs, h')"
    and "ui = fold (ui_receive fmt now)
      (map SampleReceived (fst (TelemetryLoop [\<lparr>lt_ready = True, lt_reader = True, lt_messages = msgs\<rparr>]))) ui_init"
    and "samples = concat (map (ops_published \<circ> rt_ops) turns)"
  shows "series_values (cpu_usage (ui_telemetry ui)) = last_n 60 (values_of ''cpu.usage_pct'' (concat (map metrics samples))) \<and>
    series_values (gpu_usage (ui_telemetry ui)) = last_n 60 (values_of ''gpu.util_pct'' (concat (map metrics samples))) \<and>
    series_values (mem_used_mb (ui_telemetry ui)) = last_n 60 (values_of ''mem.used_mb'' (concat (map metrics samples))) \<and>
    series_values (cpu_temp_c (ui_telemetry ui)) = last_n 60 (values_of ''cpu.temp_c'' (concat (map metrics samples))) \<and>
    series_values (gpu_temp_c (ui_telemetry ui)) = last_n 60 (values_of ''gpu.temp_c'' (concat (map metrics samples))) \<and>
    series_values (disk_io_bps (ui_telemetry ui)) = last_n 60 (concat (map (disk_total \<circ> metrics) samples))"
proof -
  have "msgs = map (\<lambda>s. sample_to_proto s {}) samples"
    using rpc_Subscribe_stream [OF assms(1,2,4)] assms(3,6) by (simp del: set_map)
  then have ui: "ui_telemetry ui = fold HandleSample samples TelemetryStore"
    unfolding assms(5) by (simp add: TelemetryLoop_emitted ui_samples ui_init_def comp_def)
  show ?thesis unfolding ui by (simp add: fold_HandleSample append_all_def TelemetryStore_def series_shows)
qed

definition twice_sample :: telemetry_sample where
  "twice_sample = \<lparr>timestamp_ms = 0,
     metrics = [metric ''gpu.util_pct'' (Fin 1) ''percent'', metric ''gpu.util_pct'' (Fin 2) ''percent'']\<rparr>"

theorem charts_show_published_samples_witness:
  "\<exists>msgs. fst (rpc_Subscribe 0 \<lparr>interval_hz = literal 1, metric_filter = []\<rparr>
       [demo_turn [twice_sample], demo_turn [], demo_turn [twice_sample]] (TelemetryHub 300)) = msgs \<and>
     series_values (gpu_usage (ui_telemetry (fold (ui_receive (\<lambda>_. []) 0)
       (map SampleReceived (fst (TelemetryLoop [\<lparr>lt_ready = True, lt_reader = True, lt_messages = msgs\<rparr>]))) ui_init))) =
     [Fin 1, Fin 2, Fin 1, Fin 2]"
proof -
  let ?turns = "[demo_turn [twice_sample], demo_turn [], demo_turn [twice_sample]]"
  obtain msgs h' where run: "rpc_Subscribe 0 \<lparr>interval_hz = literal 1, metric_filter = []\<rparr> ?turns (TelemetryHub 300) = (msgs, h')"
    by (cases "rpc_Subscribe 0 \<lparr>interval_hz = literal 1, metric_filter = []\<rparr> ?turns (TelemetryHub 300)")
  have f: "\<forall>t \<in> set ?turns. foreign (next_id (hub_reg (TelemetryHub 300))) (rt_ops t)"
    and ok: "\<forall>t \<in> set ?turns. \<not> rt_cancelled t \<and> rt_write_ok t \<and> length (ops_published (rt_ops t)) \<le> 1"
    by (simp_all add: demo_turn_def foreign_def)
  from charts_show_published_samples [OF hub_inv_TelemetryHub f ok run refl refl, of "\<lambda>_. []" 0] run
  show ?thesis by (simp add: demo_turn_def last_n_def values_of_def twice_sample_def)
qed

text \<open>
  A Stop that overlaps a Start leaves running threads behind: there is an
  interleaving of one Start and one Stop, both of which return, after which the worker is
  not marked running, its own destructor's Stop does nothing, and destroying it
  terminates the process because its threads are joinable.
\<close>

theorem stop_during_start_terminates:
  "\<exists>w. interleave [True, False, False, False, False, True, True, True] (0, 0, worker_init endpoint) = Some (4, 4, w) \<and>
     \<not> wk_running w \<and> worker_Stop w = w \<and> worker_destroy w = None"
  by (simp add: worker_init_def Start_action_def Stop_action_def ChannelManager_def cm_Start_def cm_Stop_def
      assign_thread_def destroy_thread_def worker_destroy_def worker_Stop_def numeral_eq_Suc)

end
