(* ===== verification/Wmi_Collector.thy ===== *)
theory Wmi_Collector
  imports Pipeline Handles
begin

text \<open>
  \<open>plugins/collectors/wmi_collector.cpp\<close> and its header: the CPU temperature from the
  ACPI thermal zones, with the collector that disables itself after ten consecutive
  failures.
\<close>

section \<open>Model\<close>

record wmi_state =
  wmi_disabled :: bool
  wmi_consecutive_failures :: int

definition WmiCollector :: wmi_state where
  "WmiCollector = \<lparr>wmi_disabled = False, wmi_consecutive_failures = 0\<rparr>"

definition kMaxConsecutiveFailures :: int where "kMaxConsecutiveFailures = 10"

text \<open>
  What COM and WMI answer during one call: whether COM initialises, whether the locator
  can be created and the namespace connected, and the objects of the query's enumerator
  (none when the query fails), each with its temperature if it can be read as a 32-bit
  integer.
\<close>

record wmi_answers =
  wmi_com_ok :: bool
  wmi_locator_ok :: bool
  wmi_connect_ok :: bool
  wmi_objects :: "int option list"

definition wmi_Available :: "wmi_state \<Rightarrow> bool" where
  "wmi_Available s \<longleftrightarrow> \<not> wmi_disabled s"

definition note_failure :: "wmi_state \<Rightarrow> wmi_state" where
  "note_failure s =
     (let s = s\<lparr>wmi_consecutive_failures := wmi_consecutive_failures s + 1\<rparr>
      in if wmi_consecutive_failures s \<ge> kMaxConsecutiveFailures then s\<lparr>wmi_disabled := True\<rparr> else s)"

text \<open>The enumeration loop, with \<open>sum\<close> and \<open>count\<close>; temperatures are tenths of a kelvin.\<close>

fun read_zones :: "int option list \<Rightarrow> double \<times> int \<Rightarrow> double \<times> int" where
  "read_zones [] acc = acc"
| "read_zones (None # objs) acc = read_zones objs acc"
| "read_zones (Some v # objs) (zone_sum, count) =
     read_zones objs (zone_sum + (double_div (double_of_int v) (literal 10) - literal (2732 / 10)), count + 1)"

definition wmi_Collect :: "wmi_answers \<Rightarrow> wmi_state \<Rightarrow> metric_sample list \<times> wmi_state" where
  "wmi_Collect a s =
     (if \<not> wmi_com_ok a then ([], s)
      else if \<not> wmi_locator_ok a then ([], s)
      else if \<not> wmi_connect_ok a then ([], note_failure s)
      else let (zone_sum, count) = read_zones (wmi_objects a) (literal 0, 0)
        in if count = 0 then ([], note_failure s)
           else ([metric ''cpu.temp_c'' (double_div zone_sum (double_of_int count)) ''celsius''],
                 s\<lparr>wmi_consecutive_failures := 0\<rparr>))"

text \<open>
  The COM references of one call, the initialisation of COM counted as one, in program
  order: \<open>ComScope\<close> closes it last on every path. \<open>has_enumerator\<close>: \<open>ExecQuery\<close> succeeded;
  otherwise there are no objects.
\<close>

datatype com_reference = Com | Locator | Services | Enumerator | Object nat

definition object_trace :: "nat \<Rightarrow> com_reference handle_action list" where
  "object_trace i = [Use Enumerator, Acquire (Object i), Use (Object i), Release (Object i)]"

definition query_trace :: "bool \<Rightarrow> nat \<Rightarrow> com_reference handle_action list" where
  "query_trace has_enumerator n =
     (if has_enumerator
      then [Acquire Enumerator] @ concat (map object_trace [0..<n]) @ [Use Enumerator, Release Enumerator]
      else [])"

definition wmi_trace :: "bool \<times> wmi_answers \<Rightarrow> com_reference handle_action list" where
  "wmi_trace = (\<lambda>(has_enumerator, a).
     if \<not> wmi_com_ok a then []
     else if \<not> wmi_locator_ok a then [Acquire Com, Release Com]
     else if \<not> wmi_connect_ok a
     then [Acquire Com, Acquire Locator, Use Locator, Release Locator, Release Com]
     else [Acquire Com, Acquire Locator, Use Locator, Acquire Services, Use Services] @
       query_trace has_enumerator (length (wmi_objects a)) @
       [Release Services, Release Locator, Release Com])"

text \<open>One tick of the pipeline: the probe, then the call.\<close>

definition wmi_tick :: "wmi_answers \<Rightarrow> wmi_state \<Rightarrow> wmi_state" where
  "wmi_tick a s = (if wmi_Available s then snd (wmi_Collect a s) else s)"

section \<open>COM references\<close>

lemma query_trace_run:
  assumes "Enumerator \<notin> opened" and "\<forall>i. Object i \<notin> opened"
  shows "handles_run (query_trace b n @ tr) opened = handles_run tr opened"
proof (cases b)
  case True
  have "handles_run (concat (map object_trace [0..<n]) @ tr') (insert Enumerator opened) =
      handles_run tr' (insert Enumerator opened)" for tr'
    using assms by (intro handles_run_rounds) (auto simp: object_trace_def)
  then show ?thesis using True assms by (simp add: query_trace_def)
qed (simp add: query_trace_def)

interpretation wmi_references: closes_what_it_opens wmi_trace "\<lambda>_. True"
proof
  fix x show "leak_free (wmi_trace x)"
    using query_trace_run [of "{Com, Locator, Services}" "fst x" "length (wmi_objects (snd x))"
        "[Release Services, Release Locator, Release Com]"]
    by (auto simp: wmi_trace_def leak_free_def insert_commute split: prod.splits)
qed

section \<open>Lemmas\<close>

lemma read_zones_count: "snd (read_zones objs (t, c)) = c + int (length (filter (\<lambda>x. x \<noteq> None) objs))"
  by (induction objs "(t, c)" arbitrary: t c rule: read_zones.induct) simp_all

text \<open>The outcomes of a call that the failure counter sees.\<close>

definition wmi_failure :: "wmi_answers \<Rightarrow> bool" where
  "wmi_failure a \<longleftrightarrow> wmi_com_ok a \<and> wmi_locator_ok a \<and> (wmi_connect_ok a \<longrightarrow> (\<forall>v \<in> set (wmi_objects a). v = None))"

definition wmi_success :: "wmi_answers \<Rightarrow> bool" where
  "wmi_success a \<longleftrightarrow> wmi_com_ok a \<and> wmi_locator_ok a \<and> wmi_connect_ok a \<and> (\<exists>v. Some v \<in> set (wmi_objects a))"

text \<open>The failures since the last success; calls that get no further than COM do not count.\<close>

definition failures_in_a_row :: "wmi_answers list \<Rightarrow> nat" where
  "failures_in_a_row as = length (filter wmi_failure (takeWhile (\<lambda>a. \<not> wmi_success a) (rev as)))"

lemma failures_snoc:
  "failures_in_a_row (as @ [a]) =
     (if wmi_success a then 0 else if wmi_failure a then Suc (failures_in_a_row as) else failures_in_a_row as)"
  by (simp add: failures_in_a_row_def)

lemma wmi_Collect_cases:
  "snd (wmi_Collect a s) =
     (if wmi_success a then s\<lparr>wmi_consecutive_failures := 0\<rparr>
      else if wmi_failure a then note_failure s else s)"
proof -
  have "snd (read_zones (wmi_objects a) (literal 0, 0)) = 0 \<longleftrightarrow> (\<forall>v \<in> set (wmi_objects a). v = None)"
    by (auto simp: read_zones_count filter_empty_conv)
  then show ?thesis
    by (auto simp: wmi_Collect_def wmi_success_def wmi_failure_def split_beta Let_def)
qed

lemma wmi_run_state:
  "let s = fold wmi_tick as WmiCollector
   in wmi_disabled s = (\<exists>n \<le> length as. 10 \<le> failures_in_a_row (take n as)) \<and>
      (\<not> wmi_disabled s \<longrightarrow> wmi_consecutive_failures s = int (failures_in_a_row as))"
proof (induction as rule: rev_induct)
  case Nil
  show ?case by (simp add: WmiCollector_def failures_in_a_row_def)
next
  case (snoc a as)
  define s where "s = fold wmi_tick as WmiCollector"
  have IH: "wmi_disabled s = (\<exists>n \<le> length as. 10 \<le> failures_in_a_row (take n as))"
    "\<not> wmi_disabled s \<Longrightarrow> wmi_consecutive_failures s = int (failures_in_a_row as)"
    using snoc by (simp_all add: s_def Let_def)
  have step: "fold wmi_tick (as @ [a]) WmiCollector = wmi_tick a s" by (simp add: s_def)
  have ex: "(\<exists>n \<le> length (as @ [a]). 10 \<le> failures_in_a_row (take n (as @ [a]))) \<longleftrightarrow>
      wmi_disabled s \<or> 10 \<le> failures_in_a_row (as @ [a])"
    unfolding IH(1) by (auto simp: le_Suc_eq)
  show ?case
  proof (cases "wmi_disabled s")
    case True
    then show ?thesis unfolding step ex by (simp add: Let_def wmi_tick_def wmi_Available_def)
  next
    case False
    then have "\<not> 10 \<le> failures_in_a_row as" unfolding IH(1) by auto
    then show ?thesis unfolding step ex using False IH(2)
      by (auto simp: Let_def wmi_tick_def wmi_Available_def wmi_Collect_cases note_failure_def failures_snoc
          kMaxConsecutiveFailures_def)
  qed
qed

section \<open>Properties\<close>

text \<open>
  C28: polled by the pipeline, the collector disables itself exactly when ten calls in a
  row reached WMI and got no temperature, with no readable one in between; calls that
  fail before WMI neither count nor reset, and once disabled it stays so.
\<close>

theorem wmi_disables_after_ten_failures:
  "wmi_disabled (fold wmi_tick as WmiCollector) \<longleftrightarrow>
     (\<exists>n \<le> length as. 10 \<le> failures_in_a_row (take n as))"
  using wmi_run_state [of as] by (simp add: Let_def)

end
