(* ===== verification/Nvml_Collector.thy ===== *)
theory Nvml_Collector
  imports Pipeline Handles
begin

text \<open>
  \<open>plugins/collectors/nvml_collector.cpp\<close> and its header: the NVIDIA collector over the
  driver's \<open>nvml.dll\<close>, loaded at run time. Every entry point may be missing from the
  library; the record has, for each of them, \<open>None\<close> or its function: the return code
  and what it writes.
\<close>

section \<open>The library\<close>

record nvml_memory =
  mem_total :: u64
  mem_free :: u64
  mem_used :: u64

record 'd nvml_library =
  nvmlInit :: "int option"
  nvmlShutdown :: bool
  nvmlDeviceGetCount :: "(int \<times> nat) option"
  nvmlDeviceGetHandleByIndex :: "(nat \<Rightarrow> int \<times> 'd option) option"
  nvmlDeviceGetUtilizationRates :: "('d \<Rightarrow> int \<times> u32) option"
  nvmlDeviceGetTemperature :: "('d \<Rightarrow> int \<times> u32) option"
  nvmlDeviceGetMemoryInfo :: "('d \<Rightarrow> int \<times> nvml_memory) option"
  nvmlDeviceGetPowerUsage :: "('d \<Rightarrow> int \<times> u32) option"
  nvmlDeviceGetClockInfo :: "('d \<Rightarrow> int \<times> u32) option"

definition kNvmlSuccess :: int where "kNvmlSuccess = 0"

text \<open>The two members the collector's behaviour depends on: whether the module is loaded, and \<open>ready_\<close>.\<close>

record nvml_state =
  nvml_loaded :: bool
  nvml_ready :: bool

text \<open>The constructor; \<open>None\<close>: no \<open>nvml.dll\<close>.\<close>

definition NvmlCollector :: "'d nvml_library option \<Rightarrow> nvml_state" where
  "NvmlCollector library =
     (case library of
        None \<Rightarrow> \<lparr>nvml_loaded = False, nvml_ready = False\<rparr>
      | Some l \<Rightarrow>
          if nvmlInit l = None \<or> nvmlDeviceGetCount l = None \<or> nvmlDeviceGetHandleByIndex l = None \<or>
             nvmlInit l \<noteq> Some kNvmlSuccess
          then \<lparr>nvml_loaded = True, nvml_ready = False\<rparr>
          else \<lparr>nvml_loaded = True, nvml_ready = True\<rparr>)"

text \<open>The destructor: whether it shuts the library down, and whether it frees it.\<close>

definition nvml_destroy :: "'d nvml_library \<Rightarrow> nvml_state \<Rightarrow> bool \<times> bool" where
  "nvml_destroy l s = (nvml_ready s \<and> nvmlShutdown l, nvml_loaded s)"

text \<open>What the collector opens and closes from its construction to its destruction.\<close>

datatype nvml_resource = Module | Session

definition nvml_life_trace :: "'d nvml_library option \<Rightarrow> nvml_resource handle_action list" where
  "nvml_life_trace library =
     (case library of
        None \<Rightarrow> []
      | Some l \<Rightarrow>
          (let s = NvmlCollector library; (shut_down, freed) = nvml_destroy l s
           in [Acquire Module] @ (if nvml_ready s then [Acquire Session] else []) @
              (if shut_down then [Release Session] else []) @ (if freed then [Release Module] else [])))"

definition nvml_Available :: "nvml_state \<Rightarrow> bool" where
  "nvml_Available s = nvml_ready s"

section \<open>Collecting\<close>

definition mebibyte :: double where
  "mebibyte = literal 1024 * literal 1024"

text \<open>The body of the loop for one device, appending to what was collected before.\<close>

definition collect_device :: "'d nvml_library \<Rightarrow> 'd \<Rightarrow> metric_sample list \<Rightarrow> metric_sample list" where
  "collect_device l device out =
     (let out = (case nvmlDeviceGetUtilizationRates l of
            None \<Rightarrow> out
          | Some get \<Rightarrow> (let (rc, gpu) = get device
              in if rc = kNvmlSuccess then out @ [metric ''gpu.util_pct'' (double_of_int (uint gpu)) ''percent''] else out));
          out = (case nvmlDeviceGetMemoryInfo l of
            None \<Rightarrow> out
          | Some get \<Rightarrow> (let (rc, memory) = get device
              in if rc = kNvmlSuccess
                 then out @ [metric ''gpu.mem_used_mb'' (double_div (double_of_int (uint (mem_used memory))) mebibyte) ''mb'']
                          @ [metric ''gpu.mem_total_mb'' (double_div (double_of_int (uint (mem_total memory))) mebibyte) ''mb'']
                 else out));
          out = (case nvmlDeviceGetTemperature l of
            None \<Rightarrow> out
          | Some get \<Rightarrow> (let (rc, temp) = get device
              in if rc = kNvmlSuccess then out @ [metric ''gpu.temp_c'' (double_of_int (uint temp)) ''celsius''] else out));
          out = (case nvmlDeviceGetPowerUsage l of
            None \<Rightarrow> out
          | Some get \<Rightarrow> (let (rc, milliwatts) = get device
              in if rc = kNvmlSuccess
                 then out @ [metric ''gpu.power_w'' (double_div (double_of_int (uint milliwatts)) (literal 1000)) ''watt''] else out))
      in (case nvmlDeviceGetClockInfo l of
            None \<Rightarrow> out
          | Some get \<Rightarrow> (let (rc, mhz) = get device
              in if rc = kNvmlSuccess then out @ [metric ''gpu.clock_mhz'' (double_of_int (uint mhz)) ''mhz''] else out)))"

fun collect_devices :: "'d nvml_library \<Rightarrow> (nat \<Rightarrow> int \<times> 'd option) \<Rightarrow> nat list \<Rightarrow> metric_sample list \<Rightarrow> metric_sample list" where
  "collect_devices l get_handle [] out = out"
| "collect_devices l get_handle (i # is) out =
     (case get_handle i of
        (rc, Some device) \<Rightarrow> if rc \<noteq> kNvmlSuccess then collect_devices l get_handle is out
                             else collect_devices l get_handle is (collect_device l device out)
      | (_, None) \<Rightarrow> collect_devices l get_handle is out)"

definition nvml_Collect :: "'d nvml_library \<Rightarrow> nvml_state \<Rightarrow> metric_sample list" where
  "nvml_Collect l s =
     (if \<not> nvml_ready s then []
      else case (nvmlDeviceGetCount l, nvmlDeviceGetHandleByIndex l) of
        (Some (rc, count), Some get_handle) \<Rightarrow>
          if rc \<noteq> kNvmlSuccess then [] else collect_devices l get_handle [0..<count] []
      | _ \<Rightarrow> [])"

section \<open>Lemmas\<close>

text \<open>The session stays open only when the library has no \<open>nvmlShutdown\<close>.\<close>

interpretation nvml_life: closes_what_it_opens nvml_life_trace "\<lambda>library. case library of None \<Rightarrow> True | Some l \<Rightarrow> nvmlShutdown l"
  by unfold_locales (auto simp: nvml_life_trace_def leak_free_def nvml_destroy_def NvmlCollector_def Let_def split: option.splits)


text \<open>A sensor's metrics, when its function is present and succeeds.\<close>

definition sensor :: "('d \<Rightarrow> int \<times> 'v) option \<Rightarrow> 'd \<Rightarrow> ('v \<Rightarrow> metric_sample list) \<Rightarrow> metric_sample list" where
  "sensor get device f =
     (case get of None \<Rightarrow> [] | Some g \<Rightarrow> if fst (g device) = kNvmlSuccess then f (snd (g device)) else [])"

definition device_metrics :: "'d nvml_library \<Rightarrow> 'd \<Rightarrow> metric_sample list" where
  "device_metrics l d =
     sensor (nvmlDeviceGetUtilizationRates l) d (\<lambda>v. [metric ''gpu.util_pct'' (double_of_int (uint v)) ''percent'']) @
     sensor (nvmlDeviceGetMemoryInfo l) d (\<lambda>m.
       [metric ''gpu.mem_used_mb'' (double_div (double_of_int (uint (mem_used m))) mebibyte) ''mb'',
        metric ''gpu.mem_total_mb'' (double_div (double_of_int (uint (mem_total m))) mebibyte) ''mb'']) @
     sensor (nvmlDeviceGetTemperature l) d (\<lambda>v. [metric ''gpu.temp_c'' (double_of_int (uint v)) ''celsius'']) @
     sensor (nvmlDeviceGetPowerUsage l) d (\<lambda>v.
       [metric ''gpu.power_w'' (double_div (double_of_int (uint v)) (literal 1000)) ''watt'']) @
     sensor (nvmlDeviceGetClockInfo l) d (\<lambda>v. [metric ''gpu.clock_mhz'' (double_of_int (uint v)) ''mhz''])"

lemma append_sensor:
  "(case get of None \<Rightarrow> out | Some g \<Rightarrow> (let (rc, v) = g d in if rc = kNvmlSuccess then out @ f v else out)) =
     out @ sensor get d f"
  by (simp add: sensor_def split_beta Let_def split: option.splits)

lemma collect_device_eq: "collect_device l d out = out @ device_metrics l d"
  unfolding collect_device_def Let_def [of "case _ of None \<Rightarrow> _ | Some _ \<Rightarrow> _"] append_sensor device_metrics_def
  using append_sensor by simp

text \<open>The devices whose handle could be obtained.\<close>

definition devices :: "(nat \<Rightarrow> int \<times> 'd option) \<Rightarrow> nat \<Rightarrow> 'd list" where
  "devices get_handle count =
     List.map_filter (\<lambda>i. if fst (get_handle i) = kNvmlSuccess then snd (get_handle i) else None) [0..<count]"

lemma collect_devices_eq:
  "collect_devices l get_handle is out = out @ concat (map (device_metrics l)
     (List.map_filter (\<lambda>i. if fst (get_handle i) = kNvmlSuccess then snd (get_handle i) else None) is))"
  by (induction l get_handle "is" out rule: collect_devices.induct)
    (auto simp: List.map_filter_simps collect_device_eq split: prod.splits option.splits)

lemma nvml_Collect_eq:
  assumes "nvmlDeviceGetCount l = Some (kNvmlSuccess, count)" and "nvmlDeviceGetHandleByIndex l = Some get_handle"
    and "nvml_ready s"
  shows "nvml_Collect l s = concat (map (device_metrics l) (devices get_handle count))"
  using assms by (simp add: nvml_Collect_def collect_devices_eq devices_def)

text \<open>Which identifiers and units the collector can produce.\<close>

definition nvml_catalog :: "(string \<times> string) list" where
  "nvml_catalog = [(''gpu.util_pct'', ''percent''), (''gpu.mem_used_mb'', ''mb''), (''gpu.mem_total_mb'', ''mb''),
     (''gpu.temp_c'', ''celsius''), (''gpu.power_w'', ''watt''), (''gpu.clock_mhz'', ''mhz'')]"

lemma sensor_all: "(\<And>v. \<forall>x \<in> set (f v). P x) \<Longrightarrow> \<forall>x \<in> set (sensor get d f). P x"
  by (cases get) (auto simp: sensor_def)

lemma device_metrics_all:
  "\<forall>m \<in> set (device_metrics l d). (metric_id m, metric_unit m) \<in> set nvml_catalog"
  unfolding device_metrics_def set_append ball_Un
  by (intro conjI sensor_all) (simp_all add: nvml_catalog_def)

lemma device_metrics_catalog:
  "m \<in> set (device_metrics l d) \<Longrightarrow> (metric_id m, metric_unit m) \<in> set nvml_catalog"
  using device_metrics_all [of l d] by blast

lemma nvml_Collect_catalog:
  "m \<in> set (nvml_Collect l s) \<Longrightarrow> (metric_id m, metric_unit m) \<in> set nvml_catalog"
  by (auto simp: nvml_Collect_def collect_devices_eq split: option.splits if_splits dest: device_metrics_catalog)

text \<open>A missing library or a failed initialisation leaves a collector that is never polled.\<close>

lemma nvml_unavailable:
  "\<not> nvml_Available (NvmlCollector None)"
  "nvmlInit l \<noteq> Some kNvmlSuccess \<Longrightarrow> \<not> nvml_Available (NvmlCollector (Some l))"
  by (simp_all add: NvmlCollector_def nvml_Available_def)

end
