(* ===== verification/Pdh_Paths.thy ===== *)
theory Pdh_Paths
  imports Text Handles
begin

text \<open>
  \<open>plugins/collectors/pdh_collector.cpp\<close>, lines 14 to 130: the translation of English
  performance counter paths to the language of the machine. Wide characters are 16-bit
  words.
\<close>

section \<open>Wide strings\<close>

type_synonym wchar = u16
type_synonym wstring = "wchar list"

definition wide :: "string \<Rightarrow> wstring" where
  "wide s = map of_char s"

abbreviation w_backslash :: wchar where "w_backslash \<equiv> 0x5C"
abbreviation w_open :: wchar where "w_open \<equiv> 0x28"
abbreviation w_close :: wchar where "w_close \<equiv> 0x29"
abbreviation w_star :: wchar where "w_star \<equiv> 0x2A"

text \<open>\<open>find(c, pos)\<close>, \<open>rfind(c)\<close> and \<open>substr(pos, n)\<close>; \<open>None\<close> is \<open>npos\<close>.\<close>

definition find_char :: "wchar \<Rightarrow> nat \<Rightarrow> wstring \<Rightarrow> nat option" where
  "find_char c pos s = List.find (\<lambda>i. s ! i = c) [pos..<length s]"

definition rfind_char :: "wchar \<Rightarrow> wstring \<Rightarrow> nat option" where
  "rfind_char c s = List.find (\<lambda>i. s ! i = c) (rev [0..<length s])"

definition substr :: "nat \<Rightarrow> nat \<Rightarrow> wstring \<Rightarrow> wstring" where
  "substr pos n s = take n (drop pos s)"

section \<open>Counter paths\<close>

record path_parts =
  object :: wstring
  inst :: wstring
  counter :: wstring

definition ParsePath :: "wstring \<Rightarrow> path_parts option" where
  "ParsePath path =
     (if length path < 3 \<or> path ! 0 \<noteq> w_backslash then None
      else let opn = find_char w_open 1 path; last_bs = rfind_char w_backslash path
        in case last_bs of
             None \<Rightarrow> None
           | Some 0 \<Rightarrow> None
           | Some bs \<Rightarrow>
               (let ctr = drop (bs + 1) path;
                    finish = (\<lambda>obj ins. if obj \<noteq> [] \<and> ctr \<noteq> []
                                then Some \<lparr>object = obj, inst = ins, counter = ctr\<rparr> else None)
                in if opn \<noteq> None \<and> the opn < bs
                   then case find_char w_close (the opn) path of
                          None \<Rightarrow> None
                        | Some close \<Rightarrow>
                            if close > bs then None
                            else finish (substr 1 (the opn - 1) path)
                                        (substr (the opn + 1) (close - the opn - 1) path)
                   else finish (substr 1 (bs - 1) path) []))"

text \<open>
  The registry's English table as \<open>RegQueryValueExW\<close> gives it: whether the key opens, the
  first query's return code, type and size, the second query's data (\<open>None\<close> if it fails).
\<close>

record perflib_key =
  pk_rc :: bool
  pk_multi_sz :: bool
  pk_bytes :: nat
  pk_data :: "wstring option"

text \<open>
  \<open>wcstoul\<close> in base 10: white space, an optional sign, digits; it stops at the largest
  32-bit value.
\<close>

definition w_digit :: "wchar \<Rightarrow> bool" where "w_digit c \<longleftrightarrow> 0x30 \<le> c \<and> c \<le> 0x39"
definition w_space :: "wchar \<Rightarrow> bool" where "w_space c \<longleftrightarrow> c = 0x20 \<or> (0x09 \<le> c \<and> c \<le> 0x0D)"

definition wcstoul :: "wstring \<Rightarrow> u32" where
  "wcstoul s =
     (let s = dropWhile w_space s;
          (neg, s) = (case s of c # cs \<Rightarrow> if c = 0x2D then (True, cs) else if c = 0x2B then (False, cs) else (False, s)
                      | [] \<Rightarrow> (False, s));
          n = foldl (\<lambda>acc d. acc * 10 + (unat d - 0x30)) 0 (takeWhile w_digit s)
      in if n > 2 ^ 32 - 1 then - 1 else if neg then - of_nat n else of_nat n)"

text \<open>The characters up to the terminator, and what follows it.\<close>

definition c_str :: "wstring \<Rightarrow> wstring" where "c_str = takeWhile (\<lambda>c. c \<noteq> 0)"

definition same_name :: "(wchar \<Rightarrow> wchar) \<Rightarrow> wstring \<Rightarrow> wstring \<Rightarrow> bool" where
  "same_name towlower a b \<longleftrightarrow> length a = length b \<and> (\<forall>(x, y) \<in> set (zip a b). towlower x = towlower y)"

text \<open>The scan of the alternating indices and names; \<open>towlower\<close> is the C library's.\<close>

function scan_table :: "(wchar \<Rightarrow> wchar) \<Rightarrow> wstring \<Rightarrow> wstring \<Rightarrow> u32 option" where
  "scan_table towlower english p =
     (if p = [] \<or> hd p = 0 then None
      else let idx = c_str p; p = drop (length idx + 1) p
        in if p = [] \<or> hd p = 0 then None
           else let name = c_str p; p = drop (length name + 1) p
             in if same_name towlower name english then Some (wcstoul idx)
                else scan_table towlower english p)"
  by pat_completeness auto

termination
  by (relation "measure (\<lambda>(_, _, p). length p)") (auto simp: c_str_def)

declare scan_table.simps [simp del]

definition EnglishNameToIndex :: "(wchar \<Rightarrow> wchar) \<Rightarrow> perflib_key option \<Rightarrow> wstring \<Rightarrow> u32 option" where
  "EnglishNameToIndex towlower registry english =
     (case registry of
        None \<Rightarrow> None
      | Some k \<Rightarrow>
          if \<not> pk_rc k \<or> \<not> pk_multi_sz k \<or> pk_bytes k < 4 then None
          else case pk_data k of None \<Rightarrow> None | Some buf \<Rightarrow> scan_table towlower english buf)"

text \<open>The registry key that function opens: it is closed before the names are scanned.\<close>

definition registry_trace :: "perflib_key option \<Rightarrow> unit handle_action list" where
  "registry_trace registry =
     (case registry of
        None \<Rightarrow> []
      | Some k \<Rightarrow> [Acquire (), Use ()] @
          (if \<not> pk_rc k \<or> \<not> pk_multi_sz k \<or> pk_bytes k < 4 then [Release ()] else [Use (), Release ()]))"

interpretation registry_key: closes_what_it_opens registry_trace "\<lambda>_. True"
  by unfold_locales (auto simp: registry_trace_def leak_free_def split: option.splits)

text \<open>
  The PDH library and the registry, as what their calls answer. For
  \<open>PdhLookupPerfNameByIndexW\<close>: the size the first call reports, and the buffer the second
  one fills, terminator included. For \<open>PdhExpandWildCardPathW\<close>: the size the first call
  reports with \<open>PDH_MORE_DATA\<close> (\<open>None\<close>: another code), and the buffer of the second call.
\<close>

record 'h pdh_api =
  pdh_registry :: "perflib_key option"
  pdh_towlower :: "wchar \<Rightarrow> wchar"
  pdh_name_size :: "u32 \<Rightarrow> nat"
  pdh_name :: "u32 \<Rightarrow> wstring option"
  pdh_open_query :: bool
  pdh_expand_size :: "wstring \<Rightarrow> nat option"
  pdh_expand :: "wstring \<Rightarrow> wstring option"
  pdh_add_counter :: "wstring \<Rightarrow> 'h option"

definition LocalizedName :: "'h pdh_api \<Rightarrow> wstring \<Rightarrow> wstring" where
  "LocalizedName api english =
     (case EnglishNameToIndex (pdh_towlower api) (pdh_registry api) english of
        None \<Rightarrow> english
      | Some index \<Rightarrow>
          if pdh_name_size api index = 0 then english
          else case pdh_name api index of None \<Rightarrow> english | Some name \<Rightarrow> butlast name)"

definition LocalizePath :: "'h pdh_api \<Rightarrow> wstring \<Rightarrow> wstring" where
  "LocalizePath api english_path =
     (case ParsePath english_path of
        None \<Rightarrow> english_path
      | Some parts \<Rightarrow>
          (let localized = [w_backslash] @ LocalizedName api (object parts);
               localized = (if inst parts \<noteq> [] then localized @ [w_open] @ inst parts @ [w_close] else localized)
           in localized @ [w_backslash] @ LocalizedName api (counter parts)))"

section \<open>Searching\<close>

lemma find_append: "List.find P (xs @ ys) = (case List.find P xs of None \<Rightarrow> List.find P ys | Some x \<Rightarrow> Some x)"
  by (induction xs) simp_all

lemma find_char_append:
  assumes "pos \<le> length xs" and "c \<notin> set (drop pos xs)"
  shows "find_char c pos (xs @ c # ys) = Some (length xs)"
proof -
  have "xs ! i \<noteq> c" if "pos \<le> i" "i < length xs" for i
  proof
    assume "xs ! i = c"
    moreover have "drop pos xs ! (i - pos) = xs ! i" and "i - pos < length (drop pos xs)"
      using that by simp_all
    ultimately show False using assms(2) by (metis nth_mem)
  qed
  then have "List.find (\<lambda>i. (xs @ c # ys) ! i = c) [pos..<length xs] = None"
    by (auto simp: find_None_iff nth_append)
  moreover have "[pos..<length (xs @ c # ys)] = [pos..<length xs] @ length xs # [Suc (length xs)..<length (xs @ c # ys)]"
    using assms(1) upt_add_eq_append [of pos "length xs" "Suc (length ys)"]
      upt_conv_Cons [of "length xs" "length (xs @ c # ys)"] by simp
  ultimately show ?thesis by (simp add: find_char_def find_append del: upt_Suc length_append)
qed

lemma find_char_SomeD: "find_char c pos s = Some i \<Longrightarrow> pos \<le> i \<and> i < length s \<and> s ! i = c"
  by (auto simp: find_char_def find_Some_iff)

lemma rfind_char_append:
  assumes "c \<notin> set ys"
  shows "rfind_char c (xs @ c # ys) = Some (length xs)"
proof -
  have "(xs @ c # ys) ! i \<noteq> c" if "length xs < i" "i < length (xs @ c # ys)" for i
  proof -
    have "(xs @ c # ys) ! i = ys ! (i - Suc (length xs))" and "i - Suc (length xs) < length ys"
      using that by (auto simp: nth_append nth_Cons')
    then show ?thesis using assms by (metis nth_mem)
  qed
  then have "List.find (\<lambda>i. (xs @ c # ys) ! i = c) (rev [Suc (length xs)..<length (xs @ c # ys)]) = None"
    by (simp only: find_None_iff set_rev set_upt) auto
  moreover have "[0..<length (xs @ c # ys)] = [0..<length xs] @ length xs # [Suc (length xs)..<length (xs @ c # ys)]"
    using upt_add_eq_append [of 0 "length xs" "Suc (length ys)"]
      upt_conv_Cons [of "length xs" "length (xs @ c # ys)"] by simp
  ultimately show ?thesis by (simp add: rfind_char_def find_append del: upt_Suc length_append)
qed

section \<open>Paths round trip\<close>

text \<open>The path of an object, an optional instance and a counter.\<close>

definition print_path :: "path_parts \<Rightarrow> wstring" where
  "print_path parts = [w_backslash] @ object parts @
     (if inst parts \<noteq> [] then [w_open] @ inst parts @ [w_close] else []) @ [w_backslash] @ counter parts"

definition path_ok :: "path_parts \<Rightarrow> bool" where
  "path_ok parts \<longleftrightarrow> object parts \<noteq> [] \<and> counter parts \<noteq> [] \<and>
     w_open \<notin> set (object parts) \<and> w_close \<notin> set (inst parts) \<and> w_backslash \<notin> set (counter parts)"

lemma ParsePath_instance:
  assumes "path_ok \<lparr>object = ob, inst = i, counter = ctr\<rparr>" and "i \<noteq> []"
  shows "ParsePath (w_backslash # ob @ w_open # i @ w_close # w_backslash # ctr) =
    Some \<lparr>object = ob, inst = i, counter = ctr\<rparr>"
proof -
  define path where "path = w_backslash # ob @ w_open # i @ w_close # w_backslash # ctr"
  have opn: "find_char w_open (Suc 0) path = Some (Suc (length ob))"
    using find_char_append [of 1 "w_backslash # ob" w_open "i @ w_close # w_backslash # ctr"] assms(1)
    by (simp add: path_ok_def path_def)
  have bs: "rfind_char w_backslash path = Some (Suc (Suc (Suc (length ob + length i))))"
    using rfind_char_append [of w_backslash ctr "w_backslash # ob @ w_open # i @ [w_close]"] assms(1)
    by (simp add: path_ok_def path_def)
  have close: "find_char w_close (Suc (length ob)) path = Some (Suc (Suc (length ob + length i)))"
    using find_char_append [of "length ob + 1" "w_backslash # ob @ w_open # i" w_close "w_backslash # ctr"] assms(1)
    by (simp add: path_ok_def path_def)
  have parts: "path ! 0 = w_backslash" "\<not> length path < 3" "take (length ob) (drop (Suc 0) path) = ob"
    "take (length i) (drop (Suc (Suc (length ob))) path) = i"
    "drop (Suc (Suc (Suc (Suc (length ob + length i))))) path = ctr"
    by (simp_all add: path_def eval_nat_numeral)
  show ?thesis
    using assms(1) parts unfolding path_def [symmetric]
    by (simp add: ParsePath_def opn bs close substr_def path_ok_def Let_def del: drop_eq_Nil)
qed

lemma ParsePath_plain:
  assumes "path_ok \<lparr>object = ob, inst = [], counter = ctr\<rparr>"
  shows "ParsePath (w_backslash # ob @ w_backslash # ctr) = Some \<lparr>object = ob, inst = [], counter = ctr\<rparr>"
proof -
  define path where "path = w_backslash # ob @ w_backslash # ctr"
  have bs: "rfind_char w_backslash path = Some (Suc (length ob))"
    using rfind_char_append [of w_backslash ctr "w_backslash # ob"] assms by (simp add: path_ok_def path_def)
  have opn: "\<not> i < Suc (length ob)" if i: "find_char w_open (Suc 0) path = Some i" for i
  proof
    assume "i < Suc (length ob)"
    with find_char_SomeD [OF i] have "i - 1 < length ob" and "ob ! (i - 1) = w_open"
      by (auto simp: nth_Cons' nth_append path_def split: if_splits)
    then show False using assms by (auto simp: path_ok_def in_set_conv_nth)
  qed
  have parts: "path ! 0 = w_backslash" "\<not> length path < 3" "take (length ob) (drop (Suc 0) path) = ob"
    "drop (Suc (Suc (length ob))) path = ctr"
    using assms by (simp_all add: path_def path_ok_def Suc_le_eq)
  have "ParsePath path = Some \<lparr>object = ob, inst = [], counter = ctr\<rparr>"
  proof (cases "find_char w_open (Suc 0) path")
    case None
    then show ?thesis using assms parts
      by (simp add: ParsePath_def bs substr_def path_ok_def Let_def del: drop_eq_Nil)
  next
    case (Some i)
    then show ?thesis using assms parts opn [OF Some]
      by (simp add: ParsePath_def bs substr_def path_ok_def Let_def del: drop_eq_Nil)
  qed
  then show ?thesis by (simp add: path_def)
qed

lemma ParsePath_print: "path_ok parts \<Longrightarrow> ParsePath (print_path parts) = Some parts"
  by (cases parts; cases "inst parts = []") (simp_all add: print_path_def ParsePath_instance ParsePath_plain)

lemma LocalizePath_parts:
  "ParsePath path = Some parts \<Longrightarrow>
     LocalizePath api path = print_path (parts\<lparr>object := LocalizedName api (object parts),
       counter := LocalizedName api (counter parts)\<rparr>)"
  by (simp add: LocalizePath_def print_path_def Let_def)

section \<open>The table of names\<close>

lemma unat_wide [simp]: "unat (of_char c :: wchar) = of_char c"
proof -
  have "(of_char c :: nat) < 2 ^ 16" by (rule less_trans [OF nat_of_char_less_256]) simp
  then have "unat (of_nat (of_char c) :: wchar) = of_char c" by (simp add: unat_of_nat del: of_nat_of_char)
  then show ?thesis by (simp only: of_nat_of_char)
qed

lemma w_digit_char [simp]: "w_digit (of_char c) = is_digit c"
  by (auto simp: w_digit_def is_digit_def word_le_nat_alt)

lemma digits_of_10: "\<forall>c \<in> set (digits_of 10 n). is_digit c"
  using takeWhile_digits_of_10 [of n] by (metis takeWhile_eq_all_conv)

lemma digit_not_zero: "is_digit c \<Longrightarrow> (of_char c :: wchar) \<noteq> 0"
  by (metis is_digit_def unat_0 unat_wide not_numeral_le_zero)

lemma wide_digits_value:
  assumes "\<forall>c \<in> set ds. is_digit c"
  shows "foldl (\<lambda>acc d. acc * 10 + (unat d - 0x30)) a (wide ds) =
    foldl (\<lambda>v c. v * 10 + the (digit_val c)) a ds"
  using assms by (induction ds arbitrary: a) (simp_all add: wide_def is_digit_def digit_val_def)

lemma wcstoul_digits:
  assumes "n < 2 ^ 32"
  shows "wcstoul (wide (digits_of 10 n)) = of_nat n"
proof -
  let ?ds = "wide (digits_of 10 n)"
  obtain c cs where c: "digits_of 10 n = c # cs" "is_digit c"
    using digits_of_nonempty [of 10 n] digits_of_10 [of n] by (cases "digits_of 10 n") auto
  have no_space: "\<not> w_space (of_char c)" and no_sign: "(of_char c :: wchar) \<noteq> 0x2D" "(of_char c :: wchar) \<noteq> 0x2B"
    using c(2) by (auto simp: w_space_def is_digit_def word_le_nat_alt word_unat_eq_iff)
  have all: "takeWhile w_digit ?ds = ?ds"
    using digits_of_10 [of n] by (auto simp: takeWhile_eq_all_conv wide_def)
  have num: "foldl (\<lambda>acc d. acc * 10 + (unat d - 0x30)) 0 ?ds = n"
    using wide_digits_value [OF digits_of_10] digits_value_digits_of [of 10 n] by (simp add: digits_value_def)
  have "dropWhile w_space ?ds = ?ds" using no_space c(1) by (simp add: wide_def)
  moreover have "(case ?ds of d # ds \<Rightarrow> if d = 0x2D then (True, ds) else if d = 0x2B then (False, ds) else (False, ?ds)
      | [] \<Rightarrow> (False, ?ds)) = (False, ?ds)"
    using no_sign c(1) by (simp add: wide_def)
  ultimately show ?thesis
    using assms by (simp add: wcstoul_def all num Let_def)
qed

text \<open>The multi-string the registry holds for a list of indices and names.\<close>

definition names_table :: "(u32 \<times> wstring) list \<Rightarrow> wstring" where
  "names_table entries = concat (map (\<lambda>(n, name). wide (to_string (uint n)) @ [0] @ name @ [0]) entries) @ [0]"

lemma c_str_append [simp]: "0 \<notin> set s \<Longrightarrow> c_str (s @ 0 # rest) = s"
  by (induction s) (auto simp: c_str_def)

lemma scan_names_table:
  assumes "\<forall>(n, name) \<in> set entries. name \<noteq> [] \<and> 0 \<notin> set name"
  shows "scan_table lower english (names_table entries) =
    map_option fst (List.find (\<lambda>(n, name). same_name lower name english) entries)"
  using assms
proof (induction entries)
  case Nil
  then show ?case by (simp add: names_table_def scan_table.simps)
next
  case (Cons e entries)
  obtain n name where e: "e = (n, name)" by (cases e)
  let ?idx = "wide (to_string (uint n))"
  have digits: "to_string (uint n) = digits_of 10 (unat n)" by (simp add: to_string_def)
  have idx: "0 \<notin> set ?idx" and idx_hd: "?idx \<noteq> []"
    using digits_of_10 [of "unat n"] digit_not_zero digits_of_nonempty by (auto simp: wide_def digits)
  have idx_hd0: "hd ?idx \<noteq> 0" using idx idx_hd by (metis hd_in_set)
  have name: "name \<noteq> []" "0 \<notin> set name" "hd name \<noteq> 0" using Cons.prems e by (auto, metis hd_in_set)
  have table: "names_table (e # entries) = ?idx @ 0 # name @ 0 # names_table entries"
    by (simp add: names_table_def e)
  have wcs: "wcstoul ?idx = n"
    using wcstoul_digits [of "unat n"] unsigned_less [of n] by (simp add: digits)
  have "scan_table lower english (?idx @ 0 # name @ 0 # names_table entries) =
      (if same_name lower name english then Some n else scan_table lower english (names_table entries))"
    using idx idx_hd idx_hd0 name by (subst scan_table.simps) (simp add: wcs Let_def)
  then show ?case using Cons e table by simp
qed

section \<open>Properties\<close>

text \<open>The name PDH knows for the index of an English name, or the English name.\<close>

definition translate :: "(wchar \<Rightarrow> wchar) \<Rightarrow> (u32 \<times> wstring) list \<Rightarrow> (u32 \<Rightarrow> wstring) \<Rightarrow> wstring \<Rightarrow> wstring" where
  "translate lower entries names english =
     (case List.find (\<lambda>(n, name). same_name lower name english) entries of
        None \<Rightarrow> english | Some (n, _) \<Rightarrow> names n)"

definition table_ok :: "(u32 \<times> wstring) list \<Rightarrow> bool" where
  "table_ok entries \<longleftrightarrow> (\<forall>(n, name) \<in> set entries. name \<noteq> [] \<and> 0 \<notin> set name)"

lemma LocalizedName_translate:
  assumes "table_ok entries" and "pdh_registry api = Some key" and "pk_rc key" and "pk_multi_sz key"
    and "4 \<le> pk_bytes key" and "pk_data key = Some (names_table entries)"
    and "\<forall>n. pdh_name_size api n = length (names n) + 1 \<and> pdh_name api n = Some (names n @ [0])"
  shows "LocalizedName api english = translate (pdh_towlower api) entries names english"
  using assms scan_names_table [of entries "pdh_towlower api" english]
  by (auto simp: LocalizedName_def EnglishNameToIndex_def translate_def table_ok_def split: option.splits)

text \<open>
  C15: a counter path is translated part by part: when the registry holds the English
  table of names and PDH knows the local name of every index, the object and the counter
  of a path are each replaced by the local name of the first table entry that spells them
  up to case, the instance (wildcards included) stays as it is, and a part the table does
  not have keeps its English name.
\<close>

theorem localize_path_translates:
  assumes "path_ok parts" and "table_ok entries"
    and "pdh_registry api = Some \<lparr>pk_rc = True, pk_multi_sz = True, pk_bytes = bytes, pk_data = Some (names_table entries)\<rparr>"
    and "4 \<le> bytes"
    and "\<forall>n. pdh_name_size api n = length (names n) + 1 \<and> pdh_name api n = Some (names n @ [0])"
  shows "LocalizePath api (print_path parts) =
    print_path (parts\<lparr>object := translate (pdh_towlower api) entries names (object parts),
      counter := translate (pdh_towlower api) entries names (counter parts)\<rparr>)"
  using LocalizePath_parts [OF ParsePath_print [OF assms(1)], of api]
    LocalizedName_translate [OF assms(2,3) _ _ _ _ assms(5)] assms(4) by simp

definition demo_pdh :: "(u32 \<times> wstring) list \<Rightarrow> (u32 \<Rightarrow> wstring) \<Rightarrow> unit pdh_api" where
  "demo_pdh entries names = \<lparr>pdh_registry = Some \<lparr>pk_rc = True, pk_multi_sz = True, pk_bytes = 100,
       pk_data = Some (names_table entries)\<rparr>,
     pdh_towlower = id, pdh_name_size = (\<lambda>n. length (names n) + 1), pdh_name = (\<lambda>n. Some (names n @ [0])),
     pdh_open_query = True, pdh_expand_size = (\<lambda>_. None), pdh_expand = (\<lambda>_. None), pdh_add_counter = (\<lambda>_. None)\<rparr>"

theorem localize_path_translates_witness:
  "LocalizePath (demo_pdh [(2, wide ''System''), (4, wide ''Memory'')] (\<lambda>n. wide ''Speicher''))
     (print_path \<lparr>object = wide ''Memory'', inst = wide ''*'', counter = wide ''Load''\<rparr>) =
   print_path \<lparr>object = wide ''Speicher'', inst = wide ''*'', counter = wide ''Load''\<rparr>"
proof -
  let ?parts = "\<lparr>object = wide ''Memory'', inst = wide ''*'', counter = wide ''Load''\<rparr>"
  let ?entries = "[(2, wide ''System''), (4, wide ''Memory'')] :: (u32 \<times> wstring) list"
  have ok: "path_ok ?parts" "table_ok ?entries" by code_simp+
  have "LocalizePath (demo_pdh ?entries (\<lambda>n. wide ''Speicher'')) (print_path ?parts) =
      print_path (?parts\<lparr>object := translate id ?entries (\<lambda>n. wide ''Speicher'') (object ?parts),
        counter := translate id ?entries (\<lambda>n. wide ''Speicher'') (counter ?parts)\<rparr>)"
    using localize_path_translates [OF ok, of "demo_pdh ?entries (\<lambda>n. wide ''Speicher'')" 100 "\<lambda>n. wide ''Speicher''"]
    by (simp add: demo_pdh_def)
  then show ?thesis by (simp add: translate_def same_name_def wide_def)
qed

end
