(* ===== verification/Pdh_Collector.thy ===== *)
theory Pdh_Collector
  imports Pipeline Pdh_Paths Handles
begin

text \<open>
  \<open>plugins/collectors/pdh_collector.cpp\<close> from line 132 and its header: adding the
  performance counters, expanding wildcards, and turning their values into metrics.
\<close>

section \<open>Counters\<close>

record counter_spec =
  spec_metric_id :: string
  spec_unit :: string
  spec_scale :: double
  sum_instances :: bool

text \<open>A counter's handle and its spec's index.\<close>

type_synonym 'h counters = "('h \<times> nat) list"

text \<open>The strings of the buffer of a wildcard expansion, up to the empty one.\<close>

function expanded_paths :: "wstring \<Rightarrow> wstring list" where
  "expanded_paths p =
     (if p = [] \<or> hd p = 0 then []
      else let expanded = c_str p in expanded # expanded_paths (drop (length expanded + 1) p))"
  by pat_completeness auto

termination
  by (relation "measure length") (auto simp: c_str_def)

declare expanded_paths.simps [simp del]

text \<open>The loop over the expanded paths, with the counters and \<open>added\<close>.\<close>

fun add_expanded :: "'h pdh_api \<Rightarrow> nat \<Rightarrow> wstring list \<Rightarrow> bool \<times> 'h counters \<Rightarrow> bool \<times> 'h counters" where
  "add_expanded api spec_index [] acc = acc"
| "add_expanded api spec_index (p # ps) (added, cs) =
     (case pdh_add_counter api p of
        Some handle \<Rightarrow> add_expanded api spec_index ps (True, cs @ [(handle, spec_index)])
      | None \<Rightarrow> add_expanded api spec_index ps (added, cs))"

definition AddCounter :: "'h pdh_api \<Rightarrow> wstring \<Rightarrow> nat \<Rightarrow> 'h counters \<Rightarrow> bool \<times> 'h counters" where
  "AddCounter api english_path spec_index cs =
     (let localized = LocalizePath api english_path
      in if find_char w_star 0 localized \<noteq> None
         then (case pdh_expand_size api localized of
                 None \<Rightarrow> (False, cs)
               | Some list_size \<Rightarrow>
                   if list_size = 0 then (False, cs)
                   else case pdh_expand api localized of
                     None \<Rightarrow> (False, cs)
                   | Some buffer \<Rightarrow> add_expanded api spec_index (expanded_paths buffer) (False, cs))
         else case pdh_add_counter api localized of
                None \<Rightarrow> (False, cs)
              | Some handle \<Rightarrow> (True, cs @ [(handle, spec_index)]))"

section \<open>The collector\<close>

text \<open>\<open>pdh_query\<close>: \<open>query_\<close> is not null.\<close>

record 'h pdh_state =
  pdh_query :: bool
  pdh_specs :: "counter_spec list"
  pdh_counters :: "'h counters"
  pdh_ready :: bool

definition pdh_spec_table :: "counter_spec list" where
  "pdh_spec_table =
     [\<lparr>spec_metric_id = ''cpu.usage_pct'', spec_unit = ''percent'', spec_scale = literal 1, sum_instances = False\<rparr>,
      \<lparr>spec_metric_id = ''cpu.freq_mhz'', spec_unit = ''mhz'', spec_scale = literal 1, sum_instances = False\<rparr>,
      \<lparr>spec_metric_id = ''mem.available_mb'', spec_unit = ''mb'', spec_scale = literal 1, sum_instances = False\<rparr>,
      \<lparr>spec_metric_id = ''disk.read_bps'', spec_unit = ''bps'', spec_scale = literal 1, sum_instances = False\<rparr>,
      \<lparr>spec_metric_id = ''disk.write_bps'', spec_unit = ''bps'', spec_scale = literal 1, sum_instances = False\<rparr>,
      \<lparr>spec_metric_id = ''gpu.util_pct'', spec_unit = ''percent'', spec_scale = literal 1, sum_instances = True\<rparr>,
      \<lparr>spec_metric_id = ''gpu.mem_used_mb'', spec_unit = ''mb'',
         spec_scale = double_div (literal 1) (literal 1024 * literal 1024), sum_instances = True\<rparr>]"

definition pdh_paths :: "wstring list" where
  "pdh_paths =
     [w_backslash # wide ''Processor(_Total)'' @ w_backslash # wide ''% Processor Time'',
      w_backslash # wide ''Processor Information(_Total)'' @ w_backslash # wide ''Processor Frequency'',
      w_backslash # wide ''Memory'' @ w_backslash # wide ''Available MBytes'',
      w_backslash # wide ''PhysicalDisk(_Total)'' @ w_backslash # wide ''Disk Read Bytes/sec'',
      w_backslash # wide ''PhysicalDisk(_Total)'' @ w_backslash # wide ''Disk Write Bytes/sec'',
      w_backslash # wide ''GPU Engine(*engtype_3D)'' @ w_backslash # wide ''Utilization Percentage'',
      w_backslash # wide ''GPU Adapter Memory(*)'' @ w_backslash # wide ''Dedicated Usage'']"

text \<open>The constructor; a counter that cannot be added is only logged.\<close>

fun add_counters :: "'h pdh_api \<Rightarrow> (wstring \<times> nat) list \<Rightarrow> 'h counters \<Rightarrow> 'h counters" where
  "add_counters api [] cs = cs"
| "add_counters api ((path, i) # ps) cs = add_counters api ps (snd (AddCounter api path i cs))"

definition PdhCollector :: "'h pdh_api \<Rightarrow> 'h pdh_state" where
  "PdhCollector api =
     (if \<not> pdh_open_query api then \<lparr>pdh_query = False, pdh_specs = [], pdh_counters = [], pdh_ready = False\<rparr>
      else let cs = add_counters api (zip pdh_paths [0..<length pdh_spec_table]) []
        in \<lparr>pdh_query = True, pdh_specs = pdh_spec_table, pdh_counters = cs, pdh_ready = (cs \<noteq> [])\<rparr>)"

text \<open>The destructor: whether it closes the query.\<close>

definition pdh_destroy :: "'h pdh_state \<Rightarrow> bool" where
  "pdh_destroy s = pdh_query s"

definition pdh_Available :: "'h pdh_state \<Rightarrow> bool" where
  "pdh_Available s = pdh_ready s"

text \<open>
  What the system answers during one call: whether the query can be collected, each
  counter's formatted value when it is valid, and the physical memory in bytes.
\<close>

record 'h pdh_answers =
  pa_collected :: bool
  pa_value :: "'h \<Rightarrow> double option"
  pa_total_phys :: "u64 option"

text \<open>The loop that fills \<open>sums\<close>; \<open>operator[]\<close> creates a zero.\<close>

fun sum_counters :: "('h \<Rightarrow> double option) \<Rightarrow> 'h counters \<Rightarrow> (nat \<rightharpoonup> double) \<Rightarrow> (nat \<rightharpoonup> double)" where
  "sum_counters val [] totals = totals"
| "sum_counters val ((handle, i) # cs) totals =
     (case val handle of
        None \<Rightarrow> sum_counters val cs totals
      | Some v \<Rightarrow> sum_counters val cs (totals(i \<mapsto> (case totals i of None \<Rightarrow> Zero False | Some d \<Rightarrow> d) + v)))"

text \<open>The loop over the specs, with \<open>available_mb\<close> (\<open>None\<close> until there is one).\<close>

fun emit_specs :: "(nat \<rightharpoonup> double) \<Rightarrow> (nat \<times> counter_spec) list \<Rightarrow> metric_sample list \<times> double option \<Rightarrow>
    metric_sample list \<times> double option" where
  "emit_specs totals [] acc = acc"
| "emit_specs totals ((i, spec) # specs) (out, available) =
     (case totals i of
        None \<Rightarrow> emit_specs totals specs (out, available)
      | Some d \<Rightarrow>
          (let scaled = d * spec_scale spec;
               available = (if spec_metric_id spec = ''mem.available_mb'' then Some scaled else available)
           in emit_specs totals specs (out @ [metric (spec_metric_id spec) scaled (spec_unit spec)], available)))"

definition pdh_Collect :: "'h pdh_answers \<Rightarrow> 'h pdh_state \<Rightarrow> metric_sample list" where
  "pdh_Collect a s =
     (if \<not> pdh_ready s \<or> \<not> pa_collected a then []
      else let totals = sum_counters (pa_value a) (pdh_counters s) Map.empty;
               (out, available) = emit_specs totals (zip [0..<length (pdh_specs s)] (pdh_specs s)) ([], None)
        in case available of
             None \<Rightarrow> out
           | Some available_mb \<Rightarrow>
               (case pa_total_phys a of
                  None \<Rightarrow> out
                | Some bytes \<Rightarrow>
                    (let total_mb = double_div (double_of_int (uint bytes)) (literal 1024 * literal 1024)
                     in out @ [metric ''mem.used_mb'' (total_mb - available_mb) ''mb'',
                               metric ''mem.total_mb'' total_mb ''mb''])))"

section \<open>Reference\<close>

text \<open>
  What the constructor should register for a path, and what a call should report, written
  directly from what the PDH library answers: the paths a counter path stands for, the
  valid values of a spec's instances, and the spec's metric.
\<close>

definition resolved_paths :: "'h pdh_api \<Rightarrow> wstring \<Rightarrow> wstring list" where
  "resolved_paths api english =
     (let path = LocalizePath api english
      in if w_star \<notin> set path then [path]
         else case (pdh_expand_size api path, pdh_expand api path) of
           (Some (Suc _), Some buffer) \<Rightarrow> expanded_paths buffer | _ \<Rightarrow> [])"

text \<open>
  The query handle from the constructor to the destructor: opened, used once for each path
  that is added, once to prime it, and by every call of \<open>Collect\<close> on a collector that is
  ready.
\<close>

definition pdh_life_trace :: "'h pdh_api \<times> 'h pdh_answers list \<Rightarrow> unit handle_action list" where
  "pdh_life_trace = (\<lambda>(api, calls).
     let s = PdhCollector api
     in (if pdh_open_query api then [Acquire ()] @ map (\<lambda>_. Use ()) (concat (map (resolved_paths api) pdh_paths)) else []) @
        (if pdh_ready s then [Use ()] else []) @
        concat (map (\<lambda>a. if pdh_ready s then [Use ()] else []) calls) @
        (if pdh_destroy s then [Release ()] else []))"

lemma uses_run: "handles_run (map (\<lambda>_. Use h) xs @ tr) (insert h opened) = handles_run tr (insert h opened)"
  by (induction xs) simp_all

interpretation pdh_life: closes_what_it_opens pdh_life_trace "\<lambda>_. True"
proof
  fix x :: "'h pdh_api \<times> 'h pdh_answers list"
  obtain api calls where x: "x = (api, calls)" by (cases x)
  have nil: "concat (map (\<lambda>_. []) calls) = ([] :: unit handle_action list)" by (induction calls) simp_all
  show "leak_free (pdh_life_trace x)"
    by (simp add: uses_run [where opened = "{}", simplified] x pdh_life_trace_def pdh_destroy_def PdhCollector_def leak_free_def Let_def nil)
qed

definition instances :: "'h pdh_api \<Rightarrow> nat \<Rightarrow> 'h list" where
  "instances api i = List.map_filter (pdh_add_counter api) (resolved_paths api (pdh_paths ! i))"

definition instance_values :: "'h pdh_api \<Rightarrow> 'h pdh_answers \<Rightarrow> nat \<Rightarrow> double list" where
  "instance_values api a i = List.map_filter (pa_value a) (instances api i)"

definition spec_total :: "'h pdh_api \<Rightarrow> 'h pdh_answers \<Rightarrow> nat \<Rightarrow> double option" where
  "spec_total api a i =
     (if instance_values api a i = [] then None
      else Some (foldl (+) (Zero False) (instance_values api a i) * spec_scale (pdh_spec_table ! i)))"

definition spec_metric :: "'h pdh_api \<Rightarrow> 'h pdh_answers \<Rightarrow> nat \<Rightarrow> metric_sample list" where
  "spec_metric api a i =
     (case spec_total api a i of None \<Rightarrow> []
      | Some v \<Rightarrow> [metric (spec_metric_id (pdh_spec_table ! i)) v (spec_unit (pdh_spec_table ! i))])"

definition memory_metrics :: "'h pdh_api \<Rightarrow> 'h pdh_answers \<Rightarrow> metric_sample list" where
  "memory_metrics api a =
     (case (spec_total api a 2, pa_total_phys a) of
        (Some available, Some bytes) \<Rightarrow>
          (let all = double_div (double_of_int (uint bytes)) (literal 1024 * literal 1024)
           in [metric ''mem.used_mb'' (all - available) ''mb'', metric ''mem.total_mb'' all ''mb''])
      | _ \<Rightarrow> [])"

section \<open>Lemmas\<close>

lemma map_filter_Cons: "List.map_filter f (x # xs) = (case f x of None \<Rightarrow> List.map_filter f xs | Some y \<Rightarrow> y # List.map_filter f xs)"
  by (simp add: List.map_filter_simps split: option.splits)

lemma map_filter_append [simp]: "List.map_filter f (xs @ ys) = List.map_filter f xs @ List.map_filter f ys"
  by (induction xs) (simp_all add: map_filter_Cons split: option.splits)

lemma add_expanded_eq:
  "snd (add_expanded api i ps (b, cs)) = cs @ map (\<lambda>h. (h, i)) (List.map_filter (pdh_add_counter api) ps)"
  by (induction ps arbitrary: b cs) (simp_all add: map_filter_Cons split: option.splits)

lemma find_char_iff: "find_char c 0 s \<noteq> None \<longleftrightarrow> c \<in> set s"
  by (simp add: find_char_def find_None_iff in_set_conv_nth)

lemma AddCounter_eq:
  "snd (AddCounter api path i cs) =
     cs @ map (\<lambda>h. (h, i)) (List.map_filter (pdh_add_counter api) (resolved_paths api path))"
  by (auto simp: AddCounter_def resolved_paths_def Let_def find_char_iff [unfolded not_None_eq] add_expanded_eq
      map_filter_Cons split: option.splits nat.splits)

lemma add_counters_eq:
  "add_counters api ps cs = cs @ concat (map (\<lambda>(path, i). map (\<lambda>h. (h, i))
     (List.map_filter (pdh_add_counter api) (resolved_paths api path))) ps)"
  by (induction api ps cs rule: add_counters.induct) (simp_all add: AddCounter_eq)

text \<open>The values the loop adds up for one spec.\<close>

definition valid_values :: "('h \<Rightarrow> double option) \<Rightarrow> 'h counters \<Rightarrow> nat \<Rightarrow> double list" where
  "valid_values val cs i = List.map_filter (\<lambda>(h, j). if j = i then val h else None) cs"

lemma valid_values_simps [simp]:
  "valid_values val [] i = []"
  "valid_values val ((h, j) # cs) i =
     (case if j = i then val h else None of None \<Rightarrow> valid_values val cs i | Some v \<Rightarrow> v # valid_values val cs i)"
  by (auto simp: valid_values_def map_filter_Cons List.map_filter_simps split: option.splits)

lemma sum_counters_eq:
  "sum_counters val cs tot i =
     (if valid_values val cs i = [] then tot i
      else Some (foldl (+) (case tot i of None \<Rightarrow> Zero False | Some d \<Rightarrow> d) (valid_values val cs i)))"
proof (induction cs arbitrary: tot)
  case (Cons p cs)
  obtain h j where "p = (h, j)" by (cases p)
  then show ?case by (cases "val h") (simp_all add: Cons.IH)
qed simp

lemma valid_values_same: "valid_values val (map (\<lambda>h. (h, i)) hs) j = (if i = j then List.map_filter val hs else [])"
  by (induction hs) (auto simp: valid_values_def map_filter_Cons split: option.splits)

lemma valid_values_append [simp]: "valid_values val (as @ bs) i = valid_values val as i @ valid_values val bs i"
  by (simp add: valid_values_def)

lemma case_option_same [simp]: "(case x of None \<Rightarrow> a | Some _ \<Rightarrow> a) = a"
  by (cases x) simp_all

lemma emit_specs_eq:
  "emit_specs tot specs (out, av) =
     (out @ concat (map (\<lambda>(i, sp). case tot i of None \<Rightarrow> []
        | Some d \<Rightarrow> [metric (spec_metric_id sp) (d * spec_scale sp) (spec_unit sp)]) specs),
      fold (\<lambda>(i, sp) av. case tot i of None \<Rightarrow> av
        | Some d \<Rightarrow> if spec_metric_id sp = ''mem.available_mb'' then Some (d * spec_scale sp) else av) specs av)"
  by (induction tot specs "(out, av)" arbitrary: out av rule: emit_specs.induct) (auto simp: Let_def split: option.splits)

lemma valid_values_concat:
  "distinct is \<Longrightarrow> valid_values val (concat (map (\<lambda>i. map (\<lambda>h. (h, i)) (f i)) is)) j =
     (if j \<in> set is then List.map_filter val (f j) else [])"
  by (induction "is") (auto simp: valid_values_same)

lemma pdh_lengths [simp]: "length pdh_paths = 7" "length pdh_spec_table = 7"
  by (simp_all add: pdh_paths_def pdh_spec_table_def)

lemma zip_pdh_paths: "zip pdh_paths [0..<7] = map (\<lambda>i. (pdh_paths ! i, i)) [0..<7]"
  by (rule nth_equalityI) (simp_all del: upt_rec_numeral)

lemma PdhCollector_counters:
  assumes "pdh_open_query api"
  shows "valid_values val (pdh_counters (PdhCollector api)) i =
    (if i < 7 then List.map_filter val (instances api i) else [])"
proof -
  have "pdh_counters (PdhCollector api) = concat (map (\<lambda>i. map (\<lambda>h. (h, i)) (instances api i)) [0..<7])"
    using assms by (simp add: PdhCollector_def Let_def add_counters_eq zip_pdh_paths comp_def instances_def
        del: upt_rec_numeral)
  then show ?thesis by (simp add: valid_values_concat del: upt_rec_numeral)
qed

lemma PdhCollector_totals:
  assumes "pdh_open_query api" and "i < 7"
  shows "sum_counters (pa_value a) (pdh_counters (PdhCollector api)) Map.empty i =
    (if instance_values api a i = [] then None else Some (foldl (+) (Zero False) (instance_values api a i)))"
  using assms by (simp add: sum_counters_eq PdhCollector_counters instance_values_def)

lemma pdh_Collect_reference:
  assumes "pdh_open_query api"
  shows "pdh_Collect a (PdhCollector api) =
    (if pa_collected a then concat (map (spec_metric api a) [0..<7]) @ memory_metrics api a else [])"
proof (cases "pa_collected a")
  case True
  let ?c = "PdhCollector api"
  let ?tot = "sum_counters (pa_value a) (pdh_counters ?c) Map.empty"
  let ?id = "\<lambda>i. spec_metric_id (pdh_spec_table ! i)"
  have specs: "zip [0..<length (pdh_specs ?c)] (pdh_specs ?c) = map (\<lambda>i. (i, pdh_spec_table ! i)) [0..<7]"
    using assms by (intro nth_equalityI) (simp_all add: PdhCollector_def Let_def del: upt_rec_numeral)
  have tot: "?tot i = (if instance_values api a i = [] then None
      else Some (foldl (+) (Zero False) (instance_values api a i)))" if "i < 7" for i
    using PdhCollector_totals [OF assms that] .
  have out: "concat (map (\<lambda>i. case ?tot i of None \<Rightarrow> []
        | Some d \<Rightarrow> [metric (?id i) (d * spec_scale (pdh_spec_table ! i)) (spec_unit (pdh_spec_table ! i))]) [0..<7]) =
      concat (map (spec_metric api a) [0..<7])"
    by (rule arg_cong [where f = concat], rule map_cong [OF refl]) (simp add: tot spec_metric_def spec_total_def)
  have upt: "[0..<7] = [0, 1, 2, 3, 4, 5, 6::nat]" by (simp add: upt_rec)
  have ids: "?id i = ''mem.available_mb'' \<longleftrightarrow> i = 2" if "i < 7" for i
    using that by (simp add: pdh_spec_table_def nth_Cons split: nat.splits)
  have "fold (\<lambda>i av. case ?tot i of None \<Rightarrow> av
        | Some d \<Rightarrow> if ?id i = ''mem.available_mb'' then Some (d * spec_scale (pdh_spec_table ! i)) else av) [0..<7] None =
      fold (\<lambda>i av. if i = 2 \<and> ?tot 2 \<noteq> None then Some (the (?tot 2) * spec_scale (pdh_spec_table ! 2)) else av) [0..<7] None"
    by (rule fold_cong [OF refl refl]) (auto simp: ids fun_eq_iff simp del: upt_rec_numeral split: option.splits)
  also have "\<dots> = spec_total api a 2"
    by (simp add: upt tot [of 2] spec_total_def)
  finally have available: "fold (\<lambda>i av. case ?tot i of None \<Rightarrow> av
        | Some d \<Rightarrow> if ?id i = ''mem.available_mb'' then Some (d * spec_scale (pdh_spec_table ! i)) else av) [0..<7] None =
      spec_total api a 2" .
  have "pdh_ready ?c \<or> concat (map (spec_metric api a) [0..<7]) @ memory_metrics api a = []"
  proof (cases "pdh_ready ?c")
    case False
    then have "pdh_counters ?c = []" using assms by (simp add: PdhCollector_def Let_def)
    then have "instance_values api a i = []" if "i < 7" for i
      using PdhCollector_counters [OF assms, of "pa_value a" i] that by (simp add: instance_values_def)
    then show ?thesis by (simp add: spec_metric_def spec_total_def memory_metrics_def del: upt_rec_numeral)
  qed simp
  moreover have "emit_specs ?tot (zip [0..<length (pdh_specs ?c)] (pdh_specs ?c)) ([], None) =
      (concat (map (spec_metric api a) [0..<7]), spec_total api a 2)"
    using out available by (simp add: specs emit_specs_eq fold_map comp_def del: upt_rec_numeral)
  ultimately show ?thesis
    using True by (auto simp: pdh_Collect_def memory_metrics_def Let_def simp del: upt_rec_numeral split: option.splits)
qed (simp add: pdh_Collect_def)

text \<open>Every path of the table is well formed, so without a registry it stays as it is.\<close>

definition pdh_parts :: "path_parts list" where
  "pdh_parts = map (\<lambda>(ob, i, c). \<lparr>object = wide ob, inst = wide i, counter = wide c\<rparr>)
     [(''Processor'', ''_Total'', ''% Processor Time''),
      (''Processor Information'', ''_Total'', ''Processor Frequency''),
      (''Memory'', [], ''Available MBytes''),
      (''PhysicalDisk'', ''_Total'', ''Disk Read Bytes/sec''),
      (''PhysicalDisk'', ''_Total'', ''Disk Write Bytes/sec''),
      (''GPU Engine'', ''*engtype_3D'', ''Utilization Percentage''),
      (''GPU Adapter Memory'', ''*'', ''Dedicated Usage'')]"

lemma pdh_paths_parts: "pdh_paths = map print_path pdh_parts"
  by (simp add: pdh_paths_def pdh_parts_def print_path_def wide_def)

lemma pdh_parts_ok: "\<forall>parts \<in> set pdh_parts. path_ok parts"
  by code_simp

lemma LocalizePath_no_registry:
  assumes "pdh_registry api = None" and "path \<in> set pdh_paths"
  shows "LocalizePath api path = path"
proof -
  obtain parts where parts: "path = print_path parts" "path_ok parts"
    using assms(2) pdh_parts_ok by (auto simp: pdh_paths_parts)
  have name: "LocalizedName api e = e" for e
    using assms(1) by (simp add: LocalizedName_def EnglishNameToIndex_def)
  show ?thesis unfolding parts(1) LocalizePath_parts [OF ParsePath_print [OF parts(2)]] by (simp add: name)
qed

section \<open>Properties\<close>

text \<open>
  C14: one call of Collect on a freshly constructed collector returns, in the order of the
  table of specs, one metric for every spec of which some instance has a valid value: the
  sum of the valid values of all instances its (translated, expanded) path stands for,
  from left to right and starting from zero, times the spec's scale, under the spec's id
  and unit; and, when the available memory is among them and the size of the memory is
  known, the used and the total memory after them. Nothing else, and nothing at all when
  the query cannot be collected.
\<close>

theorem pdh_collect_matches_reference:
  assumes "pdh_open_query api"
  shows "pdh_Collect a (PdhCollector api) =
    (if pa_collected a then concat (map (spec_metric api a) [0..<7]) @ memory_metrics api a else [])"
  by (rule pdh_Collect_reference [OF assms])

definition demo_api :: "wstring pdh_api" where
  "demo_api = \<lparr>pdh_registry = None, pdh_towlower = id, pdh_name_size = (\<lambda>_. 0), pdh_name = (\<lambda>_. None),
     pdh_open_query = True, pdh_expand_size = (\<lambda>_. Some 6),
     pdh_expand = (\<lambda>p. if p = pdh_paths ! 5 then Some (wide ''a'' @ [0] @ wide ''b'' @ [0, 0]) else None),
     pdh_add_counter = (\<lambda>p. if length p = 1 then Some p else None)\<rparr>"

definition demo_answers :: "wstring pdh_answers" where
  "demo_answers = \<lparr>pa_collected = True, pa_value = (\<lambda>h. Some (if h = wide ''a'' then Fin 2 else Fin 3)),
     pa_total_phys = None\<rparr>"

lemma demo_api_simps [simp]:
  "pdh_registry demo_api = None" "pdh_open_query demo_api" "pdh_expand_size demo_api p = Some 6"
  "pdh_expand demo_api p = (if p = pdh_paths ! 5 then Some (wide ''a'' @ [0] @ wide ''b'' @ [0, 0]) else None)"
  "pdh_add_counter demo_api p = (if length p = 1 then Some p else None)"
  by (simp_all add: demo_api_def)

lemma expanded_ab: "expanded_paths (wide ''a'' @ [0] @ wide ''b'' @ [0, 0]) = [wide ''a'', wide ''b'']"
  by code_simp

lemma demo_instances:
  assumes "i < 7"
  shows "instances demo_api i = (if i = 5 then [wide ''a'', wide ''b''] else [])"
proof -
  have star: "w_star \<in> set (pdh_paths ! i) \<longleftrightarrow> i = 5 \<or> i = 6"
    using assms by (simp add: pdh_paths_def wide_def nth_Cons split: nat.splits)
  have len: "length (pdh_paths ! i) \<noteq> Suc 0"
    using assms by (simp add: pdh_paths_def wide_def nth_Cons split: nat.splits)
  have diff: "pdh_paths ! 6 \<noteq> pdh_paths ! 5" by (simp add: pdh_paths_def wide_def)
  have loc: "LocalizePath demo_api (pdh_paths ! i) = pdh_paths ! i"
    by (rule LocalizePath_no_registry) (use assms in simp_all)
  show ?thesis
  proof (cases "i = 5 \<or> i = 6")
    case True
    then show ?thesis using star diff expanded_ab loc
      by (auto simp: instances_def resolved_paths_def numeral_eq_Suc List.map_filter_simps wide_def)
  next
    case False
    then show ?thesis using star loc len
      by (simp add: instances_def resolved_paths_def List.map_filter_simps)
  qed
qed

lemma demo_reference:
  "concat (map (spec_metric demo_api demo_answers) [0..<7]) @ memory_metrics demo_api demo_answers =
     [metric ''gpu.util_pct'' (Fin 5) ''percent'']"
proof -
  have vals: "instance_values demo_api demo_answers i = (if i = 5 then [Fin 2, Fin 3] else [])" if "i < 7" for i
    using that by (simp add: instance_values_def demo_instances demo_answers_def List.map_filter_simps wide_def)
  have "pa_total_phys demo_answers = None" by (simp add: demo_answers_def)
  moreover have five: "(Zero False + Fin 2 + Fin 3) * literal 1 = Fin 5" "spec_scale (pdh_spec_table ! 5) = literal 1"
    "spec_metric_id (pdh_spec_table ! 5) = ''gpu.util_pct''" "spec_unit (pdh_spec_table ! 5) = ''percent''"
    using literal_int [of 1] literal_int [of 2] literal_int [of 5]
    by (simp_all add: plus_double_def times_double_def literal_def pdh_spec_table_def)
  ultimately show ?thesis
    by (simp add: spec_metric_def spec_total_def memory_metrics_def vals upt_rec numeral_eq_Suc)
qed

lemma demo_answers_collected [simp]: "pa_collected demo_answers"
  by (simp add: demo_answers_def)

lemma demo_Collect: "pdh_Collect demo_answers (PdhCollector demo_api) = [metric ''gpu.util_pct'' (Fin 5) ''percent'']"
  using pdh_Collect_reference [of demo_api demo_answers] demo_reference by (simp del: upt_rec_numeral)

theorem pdh_collect_matches_reference_witness:
  "pdh_Collect demo_answers (PdhCollector demo_api) = [metric ''gpu.util_pct'' (Fin 5) ''percent'']"
  using pdh_collect_matches_reference [of demo_api demo_answers] demo_reference by (simp del: upt_rec_numeral)

section \<open>Which metrics there are\<close>

definition pdh_catalog :: "(string \<times> string) list" where
  "pdh_catalog = [(''cpu.usage_pct'', ''percent''), (''cpu.freq_mhz'', ''mhz''), (''mem.available_mb'', ''mb''),
     (''disk.read_bps'', ''bps''), (''disk.write_bps'', ''bps''), (''gpu.util_pct'', ''percent''),
     (''gpu.mem_used_mb'', ''mb''), (''mem.used_mb'', ''mb''), (''mem.total_mb'', ''mb'')]"

lemma spec_table_catalog: "\<forall>sp \<in> set pdh_spec_table. (spec_metric_id sp, spec_unit sp) \<in> set pdh_catalog"
  by (simp add: pdh_spec_table_def pdh_catalog_def)

lemma emit_specs_catalog:
  "m \<in> set (fst (emit_specs tot specs ([], av))) \<Longrightarrow>
     \<exists>sp \<in> snd ` set specs. metric_id m = spec_metric_id sp \<and> metric_unit m = spec_unit sp"
  by (force simp: emit_specs_eq split: option.splits)

lemma pdh_Collect_catalog:
  assumes "set (pdh_specs s) \<subseteq> set pdh_spec_table" and "m \<in> set (pdh_Collect a s)"
  shows "(metric_id m, metric_unit m) \<in> set pdh_catalog"
proof -
  let ?specs = "zip [0..<length (pdh_specs s)] (pdh_specs s)"
  obtain out av where e: "emit_specs (sum_counters (pa_value a) (pdh_counters s) Map.empty) ?specs ([], None) = (out, av)"
    by (cases "emit_specs (sum_counters (pa_value a) (pdh_counters s) Map.empty) ?specs ([], None)")
  have "m \<in> set out \<or> (metric_id m, metric_unit m) \<in> {(''mem.used_mb'', ''mb''), (''mem.total_mb'', ''mb'')}"
    using assms(2) by (auto simp: pdh_Collect_def e Let_def split: if_splits option.splits)
  moreover have "(metric_id m, metric_unit m) \<in> set pdh_catalog" if "m \<in> set out"
  proof -
    have "m \<in> set (fst (emit_specs (sum_counters (pa_value a) (pdh_counters s) Map.empty) ?specs ([], None)))"
      using that e by simp
    from emit_specs_catalog [OF this] obtain sp where sp: "sp \<in> snd ` set ?specs"
      "metric_id m = spec_metric_id sp" "metric_unit m = spec_unit sp" by blast
    then have "sp \<in> set pdh_spec_table" using assms(1) by (auto dest: set_zip_rightD)
    then show ?thesis using sp spec_table_catalog by simp
  qed
  moreover have "{(''mem.used_mb'', ''mb''), (''mem.total_mb'', ''mb'')} \<subseteq> set pdh_catalog"
    by (simp add: pdh_catalog_def)
  ultimately show ?thesis by blast
qed

lemma PdhCollector_specs: "set (pdh_specs (PdhCollector api)) \<subseteq> set pdh_spec_table"
  by (simp add: PdhCollector_def Let_def)

end
