(* ===== verification/Collectors.thy ===== *)
theory Collectors
  imports Pdh_Collector Wmi_Collector Nvml_Collector
begin

text \<open>
  \<open>plugins/collectors/factory.cpp\<close>: the three collectors behind the plugin interface. Their
  state and what the system answers to their successive calls form the world the tick loop
  runs in; a call of a collector takes its next answer.
\<close>

section \<open>The world\<close>

record ('h, 'd) collector_world =
  cw_pdh :: "'h pdh_state"
  cw_wmi :: wmi_state
  cw_nvml :: nvml_state
  cw_pdh_calls :: nat
  cw_wmi_calls :: nat
  cw_nvml_calls :: nat
  cw_pdh_answers :: "nat \<Rightarrow> 'h pdh_answers"
  cw_wmi_answers :: "nat \<Rightarrow> wmi_answers"
  cw_nvml_answers :: "nat \<Rightarrow> 'd nvml_library"

text \<open>After the three constructors have run.\<close>

definition collectors_made :: "'h pdh_api \<Rightarrow> 'd nvml_library option \<Rightarrow> (nat \<Rightarrow> 'h pdh_answers) \<Rightarrow> (nat \<Rightarrow> wmi_answers) \<Rightarrow>
    (nat \<Rightarrow> 'd nvml_library) \<Rightarrow> ('h, 'd) collector_world" where
  "collectors_made api library pa wa na = \<lparr>cw_pdh = PdhCollector api, cw_wmi = WmiCollector,
     cw_nvml = NvmlCollector library, cw_pdh_calls = 0, cw_wmi_calls = 0, cw_nvml_calls = 0,
     cw_pdh_answers = pa, cw_wmi_answers = wa, cw_nvml_answers = na\<rparr>"

section \<open>The factories\<close>

definition MakePdhCollector :: "('h, 'd) collector_world collector" where
  "MakePdhCollector = \<lparr>collector_Id = ''pdh'', collector_Available = (\<lambda>e. Inr (pdh_Available (cw_pdh e))),
     Collect = (\<lambda>e. (Inr (pdh_Collect (cw_pdh_answers e (cw_pdh_calls e)) (cw_pdh e)),
                     e\<lparr>cw_pdh_calls := cw_pdh_calls e + 1\<rparr>))\<rparr>"

definition MakeWmiCollector :: "('h, 'd) collector_world collector" where
  "MakeWmiCollector = \<lparr>collector_Id = ''wmi'', collector_Available = (\<lambda>e. Inr (wmi_Available (cw_wmi e))),
     Collect = (\<lambda>e. let (ms, s) = wmi_Collect (cw_wmi_answers e (cw_wmi_calls e)) (cw_wmi e)
                    in (Inr ms, e\<lparr>cw_wmi := s, cw_wmi_calls := cw_wmi_calls e + 1\<rparr>))\<rparr>"

definition MakeNvmlCollector :: "('h, 'd) collector_world collector" where
  "MakeNvmlCollector = \<lparr>collector_Id = ''nvml'', collector_Available = (\<lambda>e. Inr (nvml_Available (cw_nvml e))),
     Collect = (\<lambda>e. (Inr (nvml_Collect (cw_nvml_answers e (cw_nvml_calls e)) (cw_nvml e)),
                     e\<lparr>cw_nvml_calls := cw_nvml_calls e + 1\<rparr>))\<rparr>"

text \<open>The plugins \<open>ServiceHost::Start\<close> registers, in its order.\<close>

definition service_collectors :: "('h, 'd) collector_world collector list" where
  "service_collectors = [MakePdhCollector, MakeWmiCollector, MakeNvmlCollector]"

section \<open>What they produce\<close>

lemma service_collectors_never_throw: "\<forall>c \<in> set service_collectors. throws_caught_only c"
  by (simp add: service_collectors_def throws_caught_only_def MakePdhCollector_def MakeWmiCollector_def
      MakeNvmlCollector_def split_beta)

text \<open>The world stays one whose PDH collector has the table of specs.\<close>

definition world_ok :: "('h, 'd) collector_world \<Rightarrow> bool" where
  "world_ok e \<longleftrightarrow> set (pdh_specs (cw_pdh e)) \<subseteq> set pdh_spec_table"

definition pdh_part :: "('h, 'd) collector_world \<Rightarrow> metric_sample list" where
  "pdh_part e = (if pdh_Available (cw_pdh e) then pdh_Collect (cw_pdh_answers e (cw_pdh_calls e)) (cw_pdh e) else [])"

definition wmi_part :: "('h, 'd) collector_world \<Rightarrow> metric_sample list" where
  "wmi_part e = (if wmi_Available (cw_wmi e) then fst (wmi_Collect (cw_wmi_answers e (cw_wmi_calls e)) (cw_wmi e)) else [])"

definition nvml_part :: "('h, 'd) collector_world \<Rightarrow> metric_sample list" where
  "nvml_part e = (if nvml_Available (cw_nvml e) then nvml_Collect (cw_nvml_answers e (cw_nvml_calls e)) (cw_nvml e) else [])"

definition world_after :: "('h, 'd) collector_world \<Rightarrow> ('h, 'd) collector_world" where
  "world_after e = e\<lparr>
     cw_pdh_calls := (if pdh_Available (cw_pdh e) then cw_pdh_calls e + 1 else cw_pdh_calls e),
     cw_wmi := (if wmi_Available (cw_wmi e) then snd (wmi_Collect (cw_wmi_answers e (cw_wmi_calls e)) (cw_wmi e)) else cw_wmi e),
     cw_wmi_calls := (if wmi_Available (cw_wmi e) then cw_wmi_calls e + 1 else cw_wmi_calls e),
     cw_nvml_calls := (if nvml_Available (cw_nvml e) then cw_nvml_calls e + 1 else cw_nvml_calls e)\<rparr>"

lemma service_tick:
  "tick service_collectors now e = Some (\<lparr>timestamp_ms = now, metrics = pdh_part e @ wmi_part e @ nvml_part e\<rparr>, world_after e)"
  by (cases "pdh_Available (cw_pdh e)"; cases "wmi_Available (cw_wmi e)"; cases "nvml_Available (cw_nvml e)";
      cases "wmi_Collect (cw_wmi_answers e (cw_wmi_calls e)) (cw_wmi e)")
    (simp_all add: tick_def service_collectors_def MakePdhCollector_def MakeWmiCollector_def MakeNvmlCollector_def
      pdh_part_def wmi_part_def nvml_part_def world_after_def)

lemma world_ok_after [inv_rules]: "world_ok e \<Longrightarrow> world_ok (world_after e)"
  by (simp add: world_ok_def world_after_def)

lemma world_ok_made [inv_rules]: "world_ok (collectors_made api library pa wa na)"
  by (simp add: world_ok_def collectors_made_def PdhCollector_specs)

text \<open>The samples of successive turns, and the world after each.\<close>

fun service_samples :: "('h, 'd) collector_world \<Rightarrow> int list \<Rightarrow> telemetry_sample list" where
  "service_samples e [] = []"
| "service_samples e (now # nows) =
     \<lparr>timestamp_ms = now, metrics = pdh_part e @ wmi_part e @ nvml_part e\<rparr> # service_samples (world_after e) nows"

lemma service_samples_timestamps [simp]: "map timestamp_ms (service_samples e nows) = nows"
  by (induction nows arbitrary: e) simp_all

lemma service_Loop:
  "Loop service_collectors (Some f) nows (e, w) =
     Some ((world_after ^^ length nows) e, fold f (service_samples e nows) w)"
  by (induction nows arbitrary: e w) (simp_all add: service_tick funpow_Suc_right del: funpow.simps)

definition metric_catalog :: "(string \<times> string) list" where
  "metric_catalog = pdh_catalog @ [(''cpu.temp_c'', ''celsius'')] @ nvml_catalog"

lemma wmi_Collect_catalog: "m \<in> set (fst (wmi_Collect a s)) \<Longrightarrow> metric_id m = ''cpu.temp_c'' \<and> metric_unit m = ''celsius''"
  by (auto simp: wmi_Collect_def Let_def split: if_splits prod.splits)

lemma service_samples_catalog:
  "world_ok e \<Longrightarrow> s \<in> set (service_samples e nows) \<Longrightarrow> m \<in> set (metrics s) \<Longrightarrow>
     (metric_id m, metric_unit m) \<in> set metric_catalog"
proof (induction e nows rule: service_samples.induct)
  case (2 e now nows)
  show ?case
  proof (cases "s \<in> set (service_samples (world_after e) nows)")
    case True
    then show ?thesis using 2 world_ok_after by blast
  next
    case False
    then have "m \<in> set (pdh_part e) \<union> set (wmi_part e) \<union> set (nvml_part e)" using 2 by auto
    then show ?thesis
      using pdh_Collect_catalog [OF 2(2) [unfolded world_ok_def]] wmi_Collect_catalog
        nvml_Collect_catalog [of m "cw_nvml_answers e (cw_nvml_calls e)" "cw_nvml e"]
      by (auto simp: pdh_part_def wmi_part_def nvml_part_def metric_catalog_def split: if_splits)
  qed
qed simp

lemma metric_catalog_units: "(i, u) \<in> set metric_catalog \<Longrightarrow> (i, u') \<in> set metric_catalog \<Longrightarrow> u = u'"
  by (auto simp: metric_catalog_def pdh_catalog_def nvml_catalog_def)

section \<open>Properties\<close>

text \<open>
  C31: with the three collectors of the service the tick loop never ends by an exception,
  and every sample it hands over carries only known metrics, each in the one unit its
  identifier stands for, whatever the performance counters, WMI and the NVIDIA library
  answer.
\<close>

theorem service_samples_well_typed:
  "\<exists>e' samples. Loop service_collectors (Some f) nows (collectors_made api library pa wa na, w) =
       Some (e', fold f samples w) \<and> map timestamp_ms samples = nows \<and>
     (\<forall>s \<in> set samples. \<forall>m \<in> set (metrics s). \<exists>!u. (metric_id m, u) \<in> set metric_catalog \<and> metric_unit m = u)"
proof -
  let ?e = "collectors_made api library pa wa na"
  have "\<forall>s \<in> set (service_samples ?e nows). \<forall>m \<in> set (metrics s).
      \<exists>!u. (metric_id m, u) \<in> set metric_catalog \<and> metric_unit m = u"
    using service_samples_catalog [OF world_ok_made] metric_catalog_units by blast
  then show ?thesis using service_Loop [of f nows ?e w] service_samples_timestamps by blast
qed

text \<open>A machine without COM and without an NVIDIA driver.\<close>

definition no_wmi :: "nat \<Rightarrow> wmi_answers" where
  "no_wmi n = \<lparr>wmi_com_ok = False, wmi_locator_ok = False, wmi_connect_ok = False, wmi_objects = []\<rparr>"

definition no_nvml :: "nat \<Rightarrow> unit nvml_library" where
  "no_nvml n = \<lparr>nvmlInit = None, nvmlShutdown = False, nvmlDeviceGetCount = None, nvmlDeviceGetHandleByIndex = None,
     nvmlDeviceGetUtilizationRates = None, nvmlDeviceGetTemperature = None, nvmlDeviceGetMemoryInfo = None,
     nvmlDeviceGetPowerUsage = None, nvmlDeviceGetClockInfo = None\<rparr>"

definition demo_world :: "(wstring, unit) collector_world" where
  "demo_world = collectors_made demo_api None (\<lambda>_. demo_answers) no_wmi no_nvml"

theorem service_samples_well_typed_witness:
  "\<exists>e' samples. Loop service_collectors (Some (\<lambda>s w. w @ [s])) [5, 7] (demo_world, []) =
     Some (e', fold (\<lambda>s w. w @ [s]) samples []) \<and> map timestamp_ms samples = [5, 7]"
  unfolding demo_world_def
  using service_samples_well_typed [of "\<lambda>s w. w @ [s]" "[5, 7]" demo_api None "\<lambda>_. demo_answers" no_wmi no_nvml "[]"]
  by (elim exE conjE) (intro exI conjI)

end
