(* ===== verification/Single.thy ===== *)
theory Single
  imports Double
begin

text \<open>
  The C++ \<open>float\<close> of the scene graph: binary32, with the same carrier as \<open>double\<close>. The
  special values behave as in \<open>Double\<close>; a finite result is computed exactly and rounded to
  24 bits. The second half bounds what rounding can do to a value.
\<close>

section \<open>Operations\<close>

abbreviation round32 :: "rat \<Rightarrow> rat" where
  "round32 \<equiv> round_to 24 (- 149)"

type_synonym single = double

definition to_single :: "bool \<Rightarrow> rat \<Rightarrow> single" where
  "to_single s q =
     (let r = round32 q
      in if r = 0 then Zero (if q = 0 then s else q < 0)
         else if 2 ^ 128 \<le> \<bar>r\<bar> then Inf (r < 0)
         else Fin r)"

fun is_finite :: "double \<Rightarrow> bool" where
  "is_finite (Zero _) = True"
| "is_finite (Fin _) = True"
| "is_finite _ = False"

text \<open>\<open>static_cast<float>\<close> of a double and of an integer.\<close>

fun single_of_double :: "double \<Rightarrow> single" where
  "single_of_double (Fin q) = to_single (q < 0) q"
| "single_of_double d = d"

definition single_of_int :: "int \<Rightarrow> single" where
  "single_of_int i = to_single False (of_int i)"

definition single_mul :: "single \<Rightarrow> single \<Rightarrow> single" where
  "single_mul x y =
     (if is_finite x \<and> is_finite y then to_single (negative x \<noteq> negative y) (finite_val x * finite_val y)
      else double_mul x y)"

fun single_div :: "single \<Rightarrow> single \<Rightarrow> single" where
  "single_div (Fin p) (Fin q) = to_single ((p < 0) \<noteq> (q < 0)) (p / q)"
| "single_div x y = double_div x y"

fun single_sub :: "single \<Rightarrow> single \<Rightarrow> single" where
  "single_sub (Zero s) (Zero t) = double_add (Zero s) (Zero (\<not> t))"
| "single_sub x y =
     (if is_finite x \<and> is_finite y then to_single False (finite_val x - finite_val y)
      else double_add x (double_neg y))"

section \<open>Bounds on rounding\<close>

lemma nearest_even_mono_int: "q \<le> of_int i \<Longrightarrow> nearest_even q \<le> i"
proof -
  assume q: "q \<le> of_int i"
  show ?thesis
  proof (cases "q = of_int i")
    case False
    then have "\<lfloor>q\<rfloor> < i" using q by (simp add: floor_less_iff)
    then show ?thesis by (auto simp: nearest_even_def Let_def)
  qed simp
qed

lemma nearest_even_ge_floor: "\<lfloor>q\<rfloor> \<le> nearest_even q"
  by (simp add: nearest_even_def Let_def)

lemma round_to_nonneg: "0 \<le> q \<Longrightarrow> 0 \<le> round_to p emin q"
  using nearest_even_ge_floor [of "q / 2 powi last_bit p emin q"]
  by (auto simp: round_to_def Let_def zero_le_mult_iff of_int_0_le_iff intro!: order_trans [OF _ nearest_even_ge_floor])

text \<open>A value below one the format has is not rounded past it.\<close>

lemma round_to_le:
  assumes "0 \<le> q" and "q \<le> of_int m * 2 powi e" and "\<bar>m\<bar> < 2 ^ p" and "emin \<le> e"
  shows "round_to p emin q \<le> of_int m * 2 powi e"
proof (cases "q = of_int m * 2 powi e \<or> q = 0")
  case True
  then show ?thesis using assms round_to_exact [OF assms(3,4)] by (auto simp: round_to_def)
next
  case False
  then have q: "0 < q" "q < of_int m * 2 powi e" using assms(1,2) by auto
  let ?l = "last_bit p emin q"
  have "of_int m < (2::rat) ^ p"
    using assms(3) by (metis abs_less_iff of_int_less_numeral_power_cancel_iff of_int_numeral of_int_power)
  then have "of_int m * 2 powi e < (2::rat) ^ p * 2 powi e" by simp
  also have "\<dots> = 2 powi (int p + e)" by (simp add: power_int_add)
  finally have "q < 2 powi (int p + e)" using q(2) by simp
  then have "exponent_of q < int p + e" by (rule exponent_of_less [OF q(1)])
  then have l: "?l \<le> e" using q(1) assms(4) by (simp add: last_bit_def)
  have "(2::rat) powi e = 2 powi ?l * 2 powi (e - ?l)" by (simp flip: power_int_add)
  also have "(2::rat) powi (e - ?l) = of_int (2 ^ nat (e - ?l))" using l by (simp add: power_int_def)
  finally have e: "(2::rat) powi e = of_int (2 ^ nat (e - ?l)) * 2 powi ?l" by (simp add: mult.commute)
  have "q / 2 powi ?l \<le> of_int (m * 2 ^ nat (e - ?l))"
    using q(2) by (simp add: e pos_divide_le_eq mult.assoc)
  then have "nearest_even (q / 2 powi ?l) \<le> m * 2 ^ nat (e - ?l)" by (rule nearest_even_mono_int)
  then have "(of_int (nearest_even (q / 2 powi ?l)) :: rat) \<le> of_int (m * 2 ^ nat (e - ?l))"
    by (simp only: of_int_le_iff)
  then show ?thesis using q(1) by (simp add: round_to_def Let_def e mult.assoc [symmetric])
qed

text \<open>A multiple of the smallest exponent does not vanish.\<close>

lemma round_to_nonzero:
  assumes "q = of_int k * 2 powi emin" and "0 < q" and "1 \<le> p"
  shows "0 < round_to p emin q"
proof -
  let ?l = "last_bit p emin q"
  have "2 powi ?l \<le> q"
  proof (cases "exponent_of q - (int p - 1) \<le> emin")
    case True
    have "0 < k" using assms(1,2) power_int_two_pos [of emin] by (auto simp: zero_less_mult_iff)
    then have "1 \<le> k" by simp
    then have "(1::rat) \<le> of_int k" by simp
    then have "1 * (2::rat) powi emin \<le> of_int k * 2 powi emin" by (rule mult_right_mono) simp
    then show ?thesis using True assms(1,2) by (simp add: last_bit_def)
  next
    case False
    then have "?l \<le> exponent_of q" using assms(2,3) by (simp add: last_bit_def)
    then have "(2::rat) powi ?l \<le> 2 powi exponent_of q" by (intro power_int_increasing) simp_all
    then show ?thesis using exponent_of_bounds(1) [OF assms(2)] by simp
  qed
  then have "1 \<le> q / 2 powi ?l" by (simp add: pos_le_divide_eq)
  then have "1 \<le> \<lfloor>q / 2 powi ?l\<rfloor>" by simp
  then have "1 \<le> nearest_even (q / 2 powi ?l)" using nearest_even_ge_floor [of "q / 2 powi ?l"] by linarith
  then show ?thesis using assms(2) by (simp add: round_to_def Let_def zero_less_mult_iff)
qed

text \<open>What a positive value is rounded to, as a value the format has.\<close>

lemma round_to_repr:
  assumes "0 \<le> q" and "1 \<le> p"
  obtains m e where "round_to p emin q = of_int m * 2 powi e" and "\<bar>m\<bar> < 2 ^ p" and "emin \<le> e"
proof (cases "q = 0")
  case True
  then show ?thesis using that [of 0 emin] by (simp add: round_to_def)
next
  case False
  with assms have q: "0 < q" by simp
  let ?l = "last_bit p emin q"
  let ?m = "nearest_even (q / 2 powi ?l)"
  have l: "exponent_of q + 1 \<le> ?l + int p" "emin \<le> ?l" using q by (simp_all add: last_bit_def)
  have "q < 2 powi (exponent_of q + 1)" by (rule exponent_of_bounds(2) [OF q])
  also have "\<dots> \<le> 2 powi (?l + int p)" using l by (intro power_int_increasing) simp_all
  finally have "q / 2 powi ?l \<le> of_int (2 ^ p)"
    by (simp add: power_int_add pos_divide_le_eq mult.commute)
  then have "?m \<le> 2 ^ p" by (rule nearest_even_mono_int)
  moreover have "0 \<le> ?m"
    using nearest_even_ge_floor [of "q / 2 powi ?l"] q by (auto intro: order_trans [rotated])
  ultimately consider "\<bar>?m\<bar> < 2 ^ p" | "?m = 2 ^ p" by fastforce
  then show ?thesis
  proof cases
    case 1
    then show ?thesis using that [of ?m ?l] l q by (simp add: round_to_def Let_def)
  next
    case 2
    have "(2::rat) ^ p * 2 powi ?l = of_int (2 ^ (p - 1)) * 2 powi (?l + 1)"
      using assms(2) by (cases p) (simp_all add: power_int_add)
    then have "round_to p emin q = of_int (2 ^ (p - 1)) * 2 powi (?l + 1)"
      using 2 q by (simp add: round_to_def Let_def)
    moreover have "\<bar>2 ^ (p - 1)\<bar> < (2 :: int) ^ p" using assms(2) by (simp add: power_strict_increasing)
    ultimately show ?thesis using that [of "2 ^ (p - 1)" "?l + 1"] l by simp
  qed
qed

lemma round_to_idem:
  assumes "0 \<le> q" and "1 \<le> p"
  shows "round_to p emin (round_to p emin q) = round_to p emin q"
proof -
  obtain m e where "round_to p emin q = of_int m * 2 powi e" "\<bar>m\<bar> < 2 ^ p" "emin \<le> e"
    using round_to_repr [OF assms] .
  then show ?thesis by (simp only: round_to_exact)
qed

lemma round_to_le_round:
  assumes "0 \<le> q" and "0 \<le> b" and "1 \<le> p" and "q \<le> round_to p emin b"
  shows "round_to p emin q \<le> round_to p emin b"
proof -
  obtain m e where b: "round_to p emin b = of_int m * 2 powi e" "\<bar>m\<bar> < 2 ^ p" "emin \<le> e"
    using round_to_repr [OF assms(2,3)] .
  show ?thesis using assms(1,4) b(2,3) unfolding b(1) by (rule round_to_le)
qed

section \<open>Values between 0 and 1\<close>

definition unit_value :: "single \<Rightarrow> bool" where
  "unit_value t \<longleftrightarrow> is_finite t \<and> 0 \<le> finite_val t \<and> finite_val t \<le> 1"

lemma to_single_finite:
  assumes "0 \<le> q" and "q < 2 ^ 127"
  shows "is_finite (to_single s q)" and "finite_val (to_single s q) = round32 q"
proof -
  have "round32 q \<le> of_int 1 * 2 powi 127" using assms by (intro round_to_le) (simp_all add: power_int_def)
  then have "round32 q < 2 ^ 128" by (simp add: power_int_def)
  then show "is_finite (to_single s q)" and "finite_val (to_single s q) = round32 q"
    using round_to_nonneg [OF assms(1), of 24 "- 149"] by (auto simp: to_single_def Let_def)
qed

lemma unit_value_round: "0 \<le> q \<Longrightarrow> q \<le> 1 \<Longrightarrow> unit_value (to_single s q)"
  using to_single_finite [of q s] round_to_nonneg [of q 24 "- 149"] round_to_le [of q 1 0 24 "- 149"]
  by (simp add: unit_value_def)

end
