(* ===== verification/Line_Chart.thy ===== *)
theory Line_Chart
  imports Single
begin

text \<open>
  \<open>apps/hwpanel-client/backend/line_chart.cpp\<close> and its header: the self-drawn curve. Qt's
  comparison of two value lists and its fuzzy comparison of doubles are arguments.
\<close>

section \<open>The item\<close>

record line_chart =
  lc_values :: "double list"
  lc_line_color :: string
  lc_min_value :: double
  lc_max_value :: double
  lc_auto_range :: bool

definition LineChart :: line_chart where
  "LineChart = \<lparr>lc_values = [], lc_line_color = ''#4da3ff'', lc_min_value = literal 0,
     lc_max_value = literal 100, lc_auto_range = False\<rparr>"

text \<open>A setter that changes its property emits the signal and asks for a repaint; one that does not does neither.\<close>

datatype chart_signal = ValuesChanged | LineColorChanged | RangeChanged

definition setValues :: "(double list \<Rightarrow> double list \<Rightarrow> bool) \<Rightarrow> double list \<Rightarrow> line_chart \<Rightarrow> chart_signal option \<times> line_chart" where
  "setValues same values c = (if same (lc_values c) values then (None, c) else (Some ValuesChanged, c\<lparr>lc_values := values\<rparr>))"

definition setLineColor :: "string \<Rightarrow> line_chart \<Rightarrow> chart_signal option \<times> line_chart" where
  "setLineColor color c = (if lc_line_color c = color then (None, c) else (Some LineColorChanged, c\<lparr>lc_line_color := color\<rparr>))"

definition setMinValue :: "(double \<Rightarrow> double \<Rightarrow> bool) \<Rightarrow> double \<Rightarrow> line_chart \<Rightarrow> chart_signal option \<times> line_chart" where
  "setMinValue fuzzy v c = (if fuzzy (lc_min_value c) v then (None, c) else (Some RangeChanged, c\<lparr>lc_min_value := v\<rparr>))"

definition setMaxValue :: "(double \<Rightarrow> double \<Rightarrow> bool) \<Rightarrow> double \<Rightarrow> line_chart \<Rightarrow> chart_signal option \<times> line_chart" where
  "setMaxValue fuzzy v c = (if fuzzy (lc_max_value c) v then (None, c) else (Some RangeChanged, c\<lparr>lc_max_value := v\<rparr>))"

definition setAutoRange :: "bool \<Rightarrow> line_chart \<Rightarrow> chart_signal option \<times> line_chart" where
  "setAutoRange enabled c = (if lc_auto_range c = enabled then (None, c) else (Some RangeChanged, c\<lparr>lc_auto_range := enabled\<rparr>))"

section \<open>The geometry\<close>

text \<open>\<open>std::min\<close> and \<open>std::max\<close> with the accumulator on the left, as the loop calls them.\<close>

fun min_max :: "double list \<Rightarrow> double \<times> double \<Rightarrow> double \<times> double" where
  "min_max [] lh = lh"
| "min_max (d # ds) (lo, hi) = min_max ds (if d < lo then d else lo, if hi < d then d else hi)"

definition chart_range :: "(double \<Rightarrow> double \<Rightarrow> bool) \<Rightarrow> line_chart \<Rightarrow> double \<times> double" where
  "chart_range fuzzy c =
     (let (lo, hi) =
        (if lc_auto_range c
         then (let v = hd (lc_values c); (lo, hi) = min_max (lc_values c) (v, v)
               in if fuzzy lo hi then (lo - literal 1, hi + literal 1) else (lo, hi))
         else (lc_min_value c, lc_max_value c))
      in if \<not> lo < hi then (lo, lo + literal 1) else (lo, hi))"

definition clamp_unit :: "single \<Rightarrow> single" where
  "clamp_unit t = (if t < Zero False then Zero False else if Fin 1 < t then Fin 1 else t)"

definition chart_y :: "double \<Rightarrow> double \<Rightarrow> double \<Rightarrow> double \<Rightarrow> single" where
  "chart_y h lo hi d =
     (let t = single_of_double (double_div (d - lo) (hi - lo))
      in single_mul (single_of_double h) (single_sub (Fin 1) (clamp_unit t)))"

text \<open>The loop over the vertices from index \<open>i\<close> on.\<close>

fun chart_points :: "single \<Rightarrow> (double \<Rightarrow> single) \<Rightarrow> int \<Rightarrow> double list \<Rightarrow> (single \<times> single) list" where
  "chart_points step_x y i [] = []"
| "chart_points step_x y i (d # ds) = (single_mul step_x (single_of_int i), y d) # chart_points step_x y (i + 1) ds"

record chart_node =
  cn_color :: string
  cn_points :: "(single \<times> single) list"

definition updatePaintNode :: "(double \<Rightarrow> double \<Rightarrow> bool) \<Rightarrow> double \<Rightarrow> double \<Rightarrow> line_chart \<Rightarrow> chart_node option \<Rightarrow> chart_node" where
  "updatePaintNode fuzzy w h c old =
     (let count = length (lc_values c);
          node = (case old of
              None \<Rightarrow> \<lparr>cn_color = lc_line_color c, cn_points = []\<rparr>
            | Some n \<Rightarrow> if cn_color n \<noteq> lc_line_color c then n\<lparr>cn_color := lc_line_color c\<rparr> else n)
      in if count < 2 \<or> w \<le> literal 0 \<or> h \<le> literal 0 then node\<lparr>cn_points := []\<rparr>
         else (let (lo, hi) = chart_range fuzzy c;
                   step_x = single_div (single_of_double w) (single_of_int (int count - 1))
               in node\<lparr>cn_points := chart_points step_x (chart_y h lo hi) 0 (lc_values c)\<rparr>))"

section \<open>Lemmas\<close>

lemma chart_points_snd: "map snd (chart_points s y i ds) = map y ds"
  by (induction s y i ds rule: chart_points.induct) simp_all

lemma length_chart_points [simp]: "length (chart_points s y i ds) = length ds"
  by (induction s y i ds rule: chart_points.induct) simp_all

lemma nth_chart_points: "k < length ds \<Longrightarrow> chart_points s y i ds ! k = (single_mul s (single_of_int (i + int k)), y (ds ! k))"
proof (induction s y i ds arbitrary: k rule: chart_points.induct)
  case (2 s y i d ds)
  then show ?case by (cases k) (simp_all add: algebra_simps)
qed simp

lemma updatePaintNode_color: "cn_color (updatePaintNode fuzzy w h c old) = lc_line_color c"
  by (auto simp: updatePaintNode_def Let_def split: option.splits prod.splits)

lemma clamp_unit_value:
  assumes "t \<noteq> NaN"
  shows "unit_value (clamp_unit t)"
proof (cases t)
  case (Fin q)
  then show ?thesis by (auto simp: clamp_unit_def less_double_def unit_value_def)
qed (use assms in \<open>auto simp: clamp_unit_def less_double_def unit_value_def\<close>)

lemma one_minus_unit:
  assumes "unit_value t"
  shows "unit_value (single_sub (Fin 1) t)"
proof -
  have "single_sub (Fin 1) t = to_single False (1 - finite_val t)"
    using assms by (cases t) (simp_all add: unit_value_def)
  then show ?thesis using assms by (simp add: unit_value_def [of t] unit_value_round)
qed

lemma scaled_unit:
  assumes "unit_value u" and "0 < q" and "q < 2 ^ 127"
  shows "is_finite (single_mul (to_single False q) u) \<and> 0 \<le> finite_val (single_mul (to_single False q) u) \<and>
    finite_val (single_mul (to_single False q) u) \<le> round32 q"
proof -
  let ?r = "round32 q"
  have h: "is_finite (to_single False q)" "finite_val (to_single False q) = ?r"
    using to_single_finite [of q False] assms(2,3) by simp_all
  have r: "0 \<le> ?r" using round_to_nonneg assms(2) by simp
  have u: "0 \<le> finite_val u" "finite_val u \<le> 1" "is_finite u" using assms(1) by (simp_all add: unit_value_def)
  have p: "0 \<le> ?r * finite_val u" "?r * finite_val u \<le> ?r" using r u by (simp_all add: mult_left_le)
  have "?r \<le> of_int 1 * 2 powi 127" using assms(2,3) by (intro round_to_le) (simp_all add: power_int_def)
  then have lt: "?r \<le> 2 ^ 127" by (simp add: power_int_def)
  have le: "round32 (?r * finite_val u) \<le> ?r" using p assms(2) by (intro round_to_le_round) simp_all
  have nn: "0 \<le> round32 (?r * finite_val u)" using round_to_nonneg p by simp
  have "round32 (?r * finite_val u) < 2 ^ 128" using le lt by simp
  then show ?thesis
    using h u nn le r by (simp add: single_mul_def to_single_def [of _ "?r * finite_val u"] Let_def)
qed

text \<open>Every finite double is a multiple of the smallest one.\<close>

definition on_grid :: "double \<Rightarrow> bool" where
  "on_grid d \<longleftrightarrow> is_finite d \<and> (\<exists>k. finite_val d = of_int k * 2 powi (- 1074))"

lemma finite_less: "is_finite x \<Longrightarrow> is_finite y \<Longrightarrow> x < y \<longleftrightarrow> finite_val x < finite_val y"
  by (cases x; cases y) (simp_all add: less_double_def)

lemma finite_diff:
  "is_finite x \<Longrightarrow> is_finite y \<Longrightarrow> finite_val x \<noteq> finite_val y \<Longrightarrow> x - y = to_double False (finite_val x - finite_val y)"
  by (cases x; cases y) (auto simp: minus_double_def)

lemma diff_same: "is_finite x \<Longrightarrow> x - x = Zero False"
  by (cases x) (simp_all add: minus_double_def to_double_def round_to_def Let_def)

lemma diff_not_NaN: "is_finite x \<Longrightarrow> is_finite y \<Longrightarrow> x - y \<noteq> NaN"
  by (cases x; cases y) (auto simp: minus_double_def to_double_def Let_def)

lemma range_positive:
  assumes "on_grid lo" and "on_grid hi" and "lo < hi" and "is_finite (hi - lo)"
  obtains r where "hi - lo = Fin r" and "0 < r"
proof -
  obtain j k where jk: "finite_val lo = of_int j * 2 powi (- 1074)" "finite_val hi = of_int k * 2 powi (- 1074)"
    using assms(1,2) by (auto simp: on_grid_def)
  have fin: "is_finite lo" "is_finite hi" using assms(1,2) by (simp_all add: on_grid_def)
  have pos: "0 < finite_val hi - finite_val lo" using assms(3) finite_less fin by simp
  have "finite_val hi - finite_val lo = of_int (k - j) * 2 powi (- 1074)" by (simp add: jk algebra_simps)
  then have "0 < round64 (finite_val hi - finite_val lo)" by (rule round_to_nonzero) (use pos in simp_all)
  moreover have "hi - lo = to_double False (finite_val hi - finite_val lo)" using finite_diff fin pos by simp
  ultimately show thesis
    using assms(4) that [of "round64 (finite_val hi - finite_val lo)"]
    by (auto simp: to_double_def Let_def split: if_splits)
qed

lemma div_not_NaN: "x \<noteq> NaN \<Longrightarrow> 0 < r \<Longrightarrow> double_div x (Fin r) \<noteq> NaN"
  by (cases x) (auto simp: to_double_def Let_def)

lemma single_of_double_NaN: "single_of_double d = NaN \<longleftrightarrow> d = NaN"
  by (cases d) (auto simp: to_single_def Let_def)

lemma to_single_one [simp]: "to_single s 1 = Fin 1"
  using round_to_exact [of 1 24 "- 149" 0] by (simp add: to_single_def)

lemma round_to_zero [simp]: "round_to p emin 0 = 0"
  by (simp add: round_to_def)

lemma to_zero [simp]: "to_single s 0 = Zero s" "to_double s 0 = Zero s"
  by (simp_all add: to_single_def to_double_def)

text \<open>
  The abscissa of a vertex: the width, the step and the product are each rounded, with a
  relative error of \<open>2 ^ - 24\<close>.
\<close>

lemma single_of_int_small:
  assumes "0 \<le> i" and "i < 2 ^ 24"
  shows "single_of_int i = (if i = 0 then Zero False else Fin (of_int i))"
proof -
  have "round32 (of_int i * 2 powi 0) = of_int i * 2 powi 0" by (rule round_to_exact) (use assms in simp_all)
  moreover have "(of_int i :: rat) < 2 ^ 24" using assms by (metis of_int_less_numeral_power_cancel_iff of_int_numeral of_int_power)
  moreover have "(2::rat) ^ 24 \<le> 2 ^ 128" by simp
  ultimately show ?thesis using assms(1) by (auto simp: single_of_int_def to_single_def Let_def)
qed

lemma round32_error:
  assumes "2 powi (- 60) \<le> q"
  shows "\<bar>round32 q - q\<bar> \<le> q * 2 powi (- 24)"
proof -
  have "(2::rat) powi (- 149 + int 24 - 1) \<le> 2 powi (- 60)" by (rule power_int_increasing) simp_all
  then show ?thesis using round_to_relative_error [of "- 149" 24 q] assms by simp
qed

lemma two_roundings:
  fixes s t x v u :: rat
  assumes "0 < t" and "\<bar>s - t\<bar> \<le> t * u" and "0 \<le> v" and "\<bar>x - s * v\<bar> \<le> s * v * u" and "0 < u" and "u \<le> 1"
  shows "\<bar>x - t * v\<bar> \<le> t * v * (4 * u)"
proof -
  have "t * u \<le> t" using assms(1,6) by (simp add: mult_left_le)
  then have s: "s \<le> 2 * t" using assms(2) by linarith
  have "s * (v * u) \<le> 2 * t * (v * u)" by (rule mult_right_mono [OF s]) (use assms(3,5) in simp)
  moreover have "\<bar>s * v - t * v\<bar> \<le> t * u * v"
    using mult_right_mono [OF assms(2,3)] by (simp add: abs_mult assms(3) flip: left_diff_distrib)
  moreover have "0 \<le> t * v * u" using assms(1,3,5) by simp
  ultimately show ?thesis using assms(4) by (simp add: algebra_simps)
qed

lemma small_unit: "(0::rat) < 2 powi (- 24)" "(2::rat) powi (- 24) \<le> 1" "4 * (2::rat) powi (- 24) = 2 powi (- 22)"
  by (simp_all add: power_int_def power_divide)

lemma to_single_positive:
  assumes "2 powi (- 60) \<le> q" and "q < 2 ^ 127"
  shows "to_single b q = Fin (round32 q)" and "0 < round32 q"
proof -
  have q: "0 < q" using assms(1) power_int_two_pos [of "- 60"] by linarith
  have "q * 2 powi (- 24) < q * 1" using q by (intro mult_strict_left_mono) (simp_all add: power_int_def power_divide)
  then show pos: "0 < round32 q" using round32_error [OF assms(1)] by linarith
  have "is_finite (to_single b q)" by (rule to_single_finite) (use q assms(2) in simp_all)
  then show "to_single b q = Fin (round32 q)" using pos by (auto simp: to_single_def Let_def split: if_splits)
qed

lemma chart_step:
  assumes "1 \<le> p" and "p < 2 ^ 126" and "1 \<le> N" and "N < 2 ^ 23" and "W = finite_val (single_of_double (Fin p))"
  obtains s where "single_div (single_of_double (Fin p)) (single_of_int N) = Fin s" and "0 < s"
    and "\<bar>s - W / of_int N\<bar> \<le> W / of_int N * 2 powi (- 24)" and "2 powi (- 25) \<le> W / of_int N"
    and "0 < W" and "W \<le> 2 ^ 126"
proof -
  have small: "(2::rat) powi (- 60) \<le> 2 powi (- 25)" "(2::rat) powi (- 25) \<le> 1"
    by (simp_all add: power_int_def power_divide)
  have p: "2 powi (- 60) \<le> p" "p < 2 ^ 127" using assms(1,2) small by simp_all
  have W: "W = round32 p" "single_of_double (Fin p) = Fin W"
    using to_single_positive [OF p] assms(1,5) by simp_all
  have "p * 2 powi (- 24) \<le> p * (1 / 2)"
    using assms(1) by (intro mult_left_mono) (simp_all add: power_int_def power_divide)
  then have W2: "1 / 2 \<le> W" using round32_error [OF p(1)] assms(1) unfolding W(1) by linarith
  have W126: "W \<le> 2 ^ 126"
    using round_to_le [of p 1 126 24 "- 149"] assms(1,2) unfolding W(1) by (simp add: power_int_def)
  have "(of_int N :: rat) \<le> of_int (2 ^ 23)" using assms(4) by (simp only: of_int_le_iff)
  then have N: "(1::rat) \<le> of_int N" "of_int N \<le> (2::rat) ^ 23" using assms(3) by simp_all
  have "(2::rat) powi (- 25) \<le> 1 / 2 / 2 ^ 23" by (simp add: power_int_def power_divide)
  also have "\<dots> \<le> W / of_int N" using W2 N by (intro frac_le) simp_all
  finally have t: "2 powi (- 25) \<le> W / of_int N" .
  have "W / of_int N \<le> W" using W2 N by (simp add: pos_divide_le_eq mult_le_cancel_left1)
  then have "W / of_int N < 2 ^ 127" using W126 by simp
  then have s: "to_single b (W / of_int N) = Fin (round32 (W / of_int N))" "0 < round32 (W / of_int N)" for b
    using to_single_positive [OF order_trans [OF small(1) t]] by blast+
  have "N < 2 ^ 24" using assms(4) by simp
  then have "single_of_int N = Fin (of_int N)" using single_of_int_small [of N] assms(3) by simp
  then have "single_div (single_of_double (Fin p)) (single_of_int N) = Fin (round32 (W / of_int N))"
    unfolding W(2) by (simp only: single_div.simps s)
  then show thesis using that [of "round32 (W / of_int N)"] s(2) round32_error [OF order_trans [OF small(1) t]] t W2 W126 by simp
qed

lemma chart_x:
  assumes "0 < s" and "2 powi (- 60) \<le> s" and "s * of_int k < 2 ^ 127" and "0 \<le> k" and "k < 2 ^ 24"
  shows "is_finite (single_mul (Fin s) (single_of_int k))" and "k = 0 \<Longrightarrow> single_mul (Fin s) (single_of_int k) = Zero False"
    and "\<bar>finite_val (single_mul (Fin s) (single_of_int k)) - s * of_int k\<bar> \<le> s * of_int k * 2 powi (- 24)"
proof -
  have zero: "single_mul (Fin s) (Zero False) = Zero False" using assms(1) by (simp add: single_mul_def)
  have pos: "single_mul (Fin s) (single_of_int k) = Fin (round32 (s * of_int k))"
    "\<bar>round32 (s * of_int k) - s * of_int k\<bar> \<le> s * of_int k * 2 powi (- 24)" if "k \<noteq> 0"
  proof -
    have "1 \<le> k" using that assms(4) by simp
    then have "(1::rat) \<le> of_int k" by simp
    then have "s \<le> s * of_int k" using assms(1) by simp
    with assms(2) have q: "2 powi (- 60) \<le> s * of_int k" by (rule order_trans)
    show "single_mul (Fin s) (single_of_int k) = Fin (round32 (s * of_int k))"
      using single_of_int_small [OF assms(4,5)] that to_single_positive [OF q assms(3)] by (simp add: single_mul_def)
    show "\<bar>round32 (s * of_int k) - s * of_int k\<bar> \<le> s * of_int k * 2 powi (- 24)" by (rule round32_error [OF q])
  qed
  show "is_finite (single_mul (Fin s) (single_of_int k))" and "k = 0 \<Longrightarrow> single_mul (Fin s) (single_of_int k) = Zero False"
    and "\<bar>finite_val (single_mul (Fin s) (single_of_int k)) - s * of_int k\<bar> \<le> s * of_int k * 2 powi (- 24)"
    using pos zero single_of_int_small [OF assms(4,5)] by (cases "k = 0"; simp)+
qed

text \<open>Steps of less than \<open>2 ^ 23\<close> never fall together.\<close>

lemma increasing_steps:
  fixes s u a b k :: rat
  assumes "0 < s" and "\<bar>a - s * k\<bar> \<le> s * k * u" and "\<bar>b - s * (k + 1)\<bar> \<le> s * (k + 1) * u" and "(2 * k + 1) * u < 1"
  shows "a < b"
proof -
  have "s * ((2 * k + 1) * u) < s * 1" using assms(1,4) by (rule mult_strict_left_mono [rotated])
  then show ?thesis using assms(2,3) by (simp add: algebra_simps)
qed

lemma chart_x_facts:
  assumes "2 \<le> n" and "n \<le> 2 ^ 23" and "1 \<le> p" and "p < 2 ^ 126" and "width = finite_val (single_of_double (Fin p))"
    and "k < n" and "X = (\<lambda>k. single_mul (single_div (single_of_double (Fin p)) (single_of_int (int n - 1))) (single_of_int (int k)))"
  shows "is_finite (X k) \<and> (k = 0 \<longrightarrow> X k = Zero False) \<and>
    \<bar>finite_val (X k) - of_nat k / of_nat (n - 1) * width\<bar> \<le> of_nat k / of_nat (n - 1) * width * 2 powi (- 22) \<and>
    (Suc k < n \<longrightarrow> finite_val (X k) < finite_val (X (Suc k)))"
proof -
  define N where "N = int n - 1"
  have N: "1 \<le> N" "N < 2 ^ 23" "(of_int N :: rat) = of_nat (n - 1)" using assms(1,2) by (simp_all add: N_def of_nat_diff)
  obtain s where s: "single_div (single_of_double (Fin p)) (single_of_int N) = Fin s" "0 < s"
      "\<bar>s - width / of_int N\<bar> \<le> width / of_int N * 2 powi (- 24)" "2 powi (- 25) \<le> width / of_int N"
      "0 < width" "width \<le> 2 ^ 126"
    using chart_step [OF assms(3,4) N(1,2) assms(5)] .
  define t where "t = width / of_int N"
  note s = s [folded t_def]
  have t: "0 < t" using s(4) power_int_two_pos [of "- 25"] by linarith
  have "t * 2 powi (- 24) \<le> t * (1 / 2)"
    using t by (intro mult_left_mono) (simp_all add: power_int_def power_divide)
  then have s2: "t / 2 \<le> s" "s \<le> 3 / 2 * t" using s(3) by linarith+
  have "(2::rat) powi (- 60) \<le> 2 powi (- 25) / 2" by (simp add: power_int_def power_divide)
  also have "\<dots> \<le> t / 2" using s(4) by (rule divide_right_mono) simp
  also have "\<dots> \<le> s" by (rule s2(1))
  finally have s60: "2 powi (- 60) \<le> s" .
  have sj: "s * of_int (int j) < 2 ^ 127" if "j < n" for j
  proof -
    have "int j \<le> N" using that by (simp add: N_def)
    then have "(of_int (int j) :: rat) \<le> of_int N" by (simp only: of_int_le_iff)
    then have "s * of_int (int j) \<le> 3 / 2 * t * of_int N"
      using s2(2) s(2) t N(1) by (intro mult_mono) simp_all
    also have "\<dots> = 3 / 2 * width" using N(1) by (simp add: t_def)
    also have "\<dots> < 2 ^ 127" using s(5,6) by simp
    finally show ?thesis .
  qed
  have X: "X j = single_mul (Fin s) (single_of_int (int j))" for j using s(1) assms(7) by (simp add: N_def)
  have small: "int j < 2 ^ 24" if "j < n" for j using that assms(2) by simp
  have x: "is_finite (X j)" "j = 0 \<longrightarrow> X j = Zero False"
      "\<bar>finite_val (X j) - s * of_nat j\<bar> \<le> s * of_nat j * 2 powi (- 24)" if "j < n" for j
    using chart_x [OF s(2) s60 sj [OF that] _ small [OF that]] unfolding X by simp_all
  have "\<bar>finite_val (X k) - t * of_nat k\<bar> \<le> t * of_nat k * (4 * 2 powi (- 24))"
    by (rule two_roundings [OF t s(3) _ x(3) [OF assms(6)] small_unit(1,2)]) simp
  then have err: "\<bar>finite_val (X k) - of_nat k / of_nat (n - 1) * width\<bar> \<le> of_nat k / of_nat (n - 1) * width * 2 powi (- 22)"
    unfolding small_unit(3) t_def N(3) by (simp only: times_divide_eq_left times_divide_eq_right mult.commute)
  have inc: "finite_val (X k) < finite_val (X (Suc k))" if "Suc k < n"
  proof (rule increasing_steps [OF s(2) x(3) [OF assms(6)]])
    show "\<bar>finite_val (X (Suc k)) - s * (of_nat k + 1)\<bar> \<le> s * (of_nat k + 1) * 2 powi (- 24)"
      using x(3) [OF that] by (simp only: of_nat_Suc add.commute)
    have "2 * k + 1 < 2 ^ 24" using that assms(2) by simp
    then have "(of_nat (2 * k + 1) :: rat) < of_nat (2 ^ 24)" by (simp only: of_nat_less_iff)
    then have "(2 * of_nat k + 1 :: rat) < 2 ^ 24" by simp
    then have "(2 * of_nat k + 1 :: rat) * 2 powi (- 24) < 2 ^ 24 * 2 powi (- 24)"
      by (rule mult_strict_right_mono) simp
    also have "(2 :: rat) ^ 24 * 2 powi (- 24) = 1" by (simp add: power_int_def power_divide)
    finally show "(2 * of_nat k + 1 :: rat) * 2 powi (- 24) < 1" .
  qed
  show ?thesis using x(1,2) [OF assms(6)] err inc by blast
qed

lemma chart_y_inside:
  assumes "on_grid lo" and "on_grid hi" and "lo < hi" and "is_finite (hi - lo)" and "is_finite d"
    and "0 < q" and "q < 2 ^ 127"
  shows "is_finite (chart_y (Fin q) lo hi d) \<and> 0 \<le> finite_val (chart_y (Fin q) lo hi d) \<and>
    finite_val (chart_y (Fin q) lo hi d) \<le> round32 q"
proof -
  obtain r where r: "hi - lo = Fin r" "0 < r" using range_positive [OF assms(1-4)] .
  have "d - lo \<noteq> NaN" using diff_not_NaN assms(1,5) by (simp add: on_grid_def)
  then have "single_of_double (double_div (d - lo) (hi - lo)) \<noteq> NaN"
    using div_not_NaN r by (simp add: single_of_double_NaN)
  then show ?thesis
    using scaled_unit [OF one_minus_unit [OF clamp_unit_value] assms(6,7)] assms(6)
    by (simp add: chart_y_def Let_def)
qed

lemma chart_y_bottom:
  assumes "on_grid lo" and "on_grid hi" and "lo < hi" and "is_finite (hi - lo)" and "0 < q" and "q < 2 ^ 127"
  shows "chart_y (Fin q) lo hi lo = single_of_double (Fin q)"
proof -
  obtain r where r: "hi - lo = Fin r" "0 < r" using range_positive [OF assms(1-4)] .
  have h: "is_finite (to_single False q)" "finite_val (to_single False q) = round32 q"
    using to_single_finite [of q False] assms(5,6) by simp_all
  have "single_sub (Fin 1) (clamp_unit (single_of_double (double_div (lo - lo) (hi - lo)))) = Fin 1"
    using assms(1) r by (simp add: on_grid_def diff_same clamp_unit_def less_double_def)
  moreover have "single_mul (to_single False q) (Fin 1) = to_single False (round32 q)"
    using h round_to_nonneg [of q 24 "- 149"] assms(5)
    by (cases "to_single False q") (simp_all add: single_mul_def to_single_def)
  moreover have "to_single False (round32 q) = to_single False q"
    using round_to_idem [of q 24 "- 149"] assms(5) by (auto simp: to_single_def Let_def)
  ultimately show ?thesis using assms(5) by (simp add: chart_y_def Let_def)
qed

lemma chart_y_top:
  assumes "on_grid lo" and "on_grid hi" and "lo < hi" and "is_finite (hi - lo)" and "0 < q" and "q < 2 ^ 127"
  shows "chart_y (Fin q) lo hi hi = Zero False"
proof -
  obtain r where r: "hi - lo = Fin r" "0 < r" using range_positive [OF assms(1-4)] .
  have h: "is_finite (to_single False q)" using to_single_finite [of q False] assms(5,6) by simp
  have "double_div (Fin r) (Fin r) = Fin 1"
    using r(2) round_to_exact [of 1 53 "- 1074" 0] by (simp add: to_double_def)
  then have "single_sub (Fin 1) (clamp_unit (single_of_double (double_div (hi - lo) (hi - lo)))) = Zero False"
    using r by (simp add: clamp_unit_def less_double_def)
  moreover have "single_mul (to_single False q) (Zero False) = Zero False"
    using h assms(5) round_to_nonneg [of q 24 "- 149"]
    by (cases "to_single False q") (auto simp: single_mul_def to_single_def Let_def split: if_splits)
  ultimately show ?thesis using assms(5) by (simp add: chart_y_def Let_def)
qed

lemma min_max_bounds:
  assumes "is_finite lo" and "is_finite hi" and "\<forall>d \<in> set ds. is_finite d" and "min_max ds (lo, hi) = (lo', hi')"
  shows "lo' \<in> insert lo (set ds) \<and> hi' \<in> insert hi (set ds) \<and>
    (\<forall>d \<in> set ds. finite_val lo' \<le> finite_val d \<and> finite_val d \<le> finite_val hi') \<and>
    finite_val lo' \<le> finite_val lo \<and> finite_val hi \<le> finite_val hi'"
  using assms
proof (induction ds arbitrary: lo hi)
  case (Cons d ds)
  have "is_finite (if d < lo then d else lo)" "is_finite (if hi < d then d else hi)" using Cons.prems by simp_all
  from Cons.IH [OF this] Cons.prems show ?case by (auto simp: finite_less split: if_splits)
qed simp

text \<open>Without the widening of a flat series, an automatic range is the least and the greatest value.\<close>

lemma chart_range_auto:
  assumes "lc_auto_range c" and "lc_values c \<noteq> []" and "\<forall>d \<in> set (lc_values c). is_finite d"
    and "\<forall>lo hi. \<not> fuzzy lo hi" and "chart_range fuzzy c = (lo, hi)" and "lo < hi"
  shows "lo \<in> set (lc_values c)" and "hi \<in> set (lc_values c) \<or> hi = lo + literal 1"
    and "\<forall>d \<in> set (lc_values c). finite_val lo \<le> finite_val d"
proof -
  let ?v = "hd (lc_values c)"
  obtain l h where lh: "min_max (lc_values c) (?v, ?v) = (l, h)" by (cases "min_max (lc_values c) (?v, ?v)")
  have "?v \<in> set (lc_values c)" using assms(2) by simp
  moreover have "is_finite ?v" using assms(3) \<open>?v \<in> _\<close> by blast
  ultimately have "l \<in> set (lc_values c)" "h \<in> set (lc_values c)"
    "\<forall>d \<in> set (lc_values c). finite_val l \<le> finite_val d"
    using min_max_bounds [OF _ _ assms(3) lh] by auto
  moreover have "lo = l" "hi = h \<or> hi = lo + literal 1"
    using assms(1,4,5) lh by (auto simp: chart_range_def Let_def split: if_splits)
  ultimately show "lo \<in> set (lc_values c)" and "hi \<in> set (lc_values c) \<or> hi = lo + literal 1"
    and "\<forall>d \<in> set (lc_values c). finite_val lo \<le> finite_val d" by auto
qed

section \<open>Properties\<close>

text \<open>
  C18: the curve fills its item from the left to the right edge and stays inside it: with at
  least two and at most \<open>2 ^ 23\<close> finite values, an item at least one pixel wide, of positive
  height (both within the range of a float), and a range that is not empty and does not
  overflow, there is one vertex per value, in order. The first is on the left edge, each next
  one strictly to the right of the one before, and vertex \<open>k\<close> of \<open>n\<close> at the \<open>k / (n - 1)\<close>-th
  part of the width (as a float) with a relative error of at most \<open>2 ^ - 22\<close>, so that rounding
  alone can carry the last one past the right edge. Each is at a finite height between 0 and
  the height of the item (as a float); a value at the lower end of the range is drawn exactly
  at the bottom edge and one at the upper end exactly at the top edge.
\<close>

theorem chart_inside_item:
  assumes "2 \<le> length (lc_values c)" and "length (lc_values c) \<le> 2 ^ 23" and "\<forall>d \<in> set (lc_values c). is_finite d"
    and "1 \<le> p" and "p < 2 ^ 126" and "0 < q" and "q < 2 ^ 127"
    and "chart_range fuzzy c = (lo, hi)" and "on_grid lo" and "on_grid hi" and "lo < hi" and "is_finite (hi - lo)"
    and "points = cn_points (updatePaintNode fuzzy (Fin p) (Fin q) c old)"
    and "width = finite_val (single_of_double (Fin p))" and "height = finite_val (single_of_double (Fin q))"
  shows "length points = length (lc_values c) \<and>
    (\<forall>k < length points. \<forall>x y. points ! k = (x, y) \<longrightarrow>
       is_finite x \<and> (k = 0 \<longrightarrow> x = Zero False) \<and>
       \<bar>finite_val x - of_nat k / of_nat (length points - 1) * width\<bar> \<le> of_nat k / of_nat (length points - 1) * width * 2 powi (- 22) \<and>
       (Suc k < length points \<longrightarrow> finite_val x < finite_val (fst (points ! Suc k))) \<and>
       is_finite y \<and> 0 \<le> finite_val y \<and> finite_val y \<le> height \<and>
       (lc_values c ! k = lo \<longrightarrow> y = single_of_double (Fin q)) \<and>
       (lc_values c ! k = hi \<longrightarrow> y = Zero False))"
proof -
  let ?n = "length (lc_values c)" and ?step = "single_div (single_of_double (Fin p)) (single_of_int (int (length (lc_values c)) - 1))"
  define X where "X = (\<lambda>k. single_mul ?step (single_of_int (int k)))"
  have points: "points = chart_points ?step (chart_y (Fin q) lo hi) 0 (lc_values c)"
    using assms(1,4,6,8,13) by (simp add: updatePaintNode_def Let_def less_eq_double_def less_double_def del: single_div.simps)
  then have len: "length points = ?n" by simp
  have vertex: "points ! k = (X k, chart_y (Fin q) lo hi (lc_values c ! k))"
    if "k < ?n" for k using that by (simp add: points nth_chart_points X_def del: single_div.simps)
  note x = chart_x_facts [OF assms(1,2,4,5,14) _ X_def]
  have fv: "height = round32 q" using to_single_finite assms(6,7,15) by simp
  have vertices: "is_finite x \<and> (k = 0 \<longrightarrow> x = Zero False) \<and>
       \<bar>finite_val x - of_nat k / of_nat (length points - 1) * width\<bar> \<le> of_nat k / of_nat (length points - 1) * width * 2 powi (- 22) \<and>
       (Suc k < length points \<longrightarrow> finite_val x < finite_val (fst (points ! Suc k)))"
    if "k < length points" "points ! k = (x, y)" for k x y
  proof -
    have k: "k < ?n" using that(1) len by simp
    have "x = X k" using vertex [OF k] that(2) by simp
    moreover have "fst (points ! Suc k) = X (Suc k)" if "Suc k < ?n" using vertex [OF that] by simp
    ultimately show ?thesis using x [OF k] unfolding len by auto
  qed
  have heights: "is_finite y \<and> 0 \<le> finite_val y \<and> finite_val y \<le> height \<and>
       (lc_values c ! k = lo \<longrightarrow> y = single_of_double (Fin q)) \<and> (lc_values c ! k = hi \<longrightarrow> y = Zero False)"
    if "k < length points" "points ! k = (x, y)" for k x y
  proof -
    have k: "k < ?n" using that(1) len by simp
    then have d: "is_finite (lc_values c ! k)" using assms(3) by simp
    have y: "y = chart_y (Fin q) lo hi (lc_values c ! k)" using vertex [OF k] that(2) by simp
    show ?thesis
      using chart_y_inside [OF assms(9-12) d assms(6,7)] chart_y_bottom [OF assms(9-12) assms(6,7)]
        chart_y_top [OF assms(9-12) assms(6,7)] fv y by simp
  qed
  show ?thesis using len vertices heights by blast
qed

definition demo_chart :: line_chart where
  "demo_chart = \<lparr>lc_values = [Fin 10, Fin 30, Fin 20], lc_line_color = ''red'', lc_min_value = Fin 10,
     lc_max_value = Fin 30, lc_auto_range = False\<rparr>"

theorem chart_inside_item_witness:
  "cn_points (updatePaintNode (\<lambda>_ _. False) (Fin 200) (Fin 50) demo_chart None) ! 0 = (Zero False, single_of_double (Fin 50)) \<and>
   snd (cn_points (updatePaintNode (\<lambda>_ _. False) (Fin 200) (Fin 50) demo_chart None) ! 1) = Zero False"
proof -
  have grid: "on_grid (Fin (of_int i))" for i
    by (simp only: on_grid_def is_finite.simps finite_val.simps)
      (rule conjI [OF TrueI], rule exI [of _ "i * 2 ^ 1074"], simp add: power_int_minus field_simps)
  have diff: "Fin 30 - Fin 10 = Fin 20"
    using literal_int [of 20] by (simp add: minus_double_def literal_def)
  let ?points = "cn_points (updatePaintNode (\<lambda>_ _. False) (Fin 200) (Fin 50) demo_chart None)"
  have hyps: "2 \<le> length (lc_values demo_chart)" "length (lc_values demo_chart) \<le> 2 ^ 23"
      "\<forall>d \<in> set (lc_values demo_chart). is_finite d" "(1::rat) \<le> 200" "(200::rat) < 2 ^ 126" "(0::rat) < 50" "(50::rat) < 2 ^ 127"
      "chart_range (\<lambda>_ _. False) demo_chart = (Fin 10, Fin 30)" "on_grid (Fin 10)" "on_grid (Fin 30)" "Fin 10 < Fin 30"
      "is_finite (Fin 30 - Fin 10)"
    using grid [of 10] grid [of 30] diff by (simp_all add: demo_chart_def chart_range_def less_double_def)
  obtain x0 y0 x1 y1 where p: "?points ! 0 = (x0, y0)" "?points ! 1 = (x1, y1)" by (meson surj_pair)
  note all = chart_inside_item [OF hyps refl refl refl, of None]
  have len: "length ?points = 3" using all [THEN conjunct1] by (simp add: demo_chart_def)
  note vertex = conjunct2 [OF all, rule_format]
  have "lc_values demo_chart ! 0 = Fin 10" "lc_values demo_chart ! 1 = Fin 30" by (simp_all add: demo_chart_def)
  with vertex [OF _ p(1)] vertex [OF _ p(2)] len
  have "x0 = Zero False" "y0 = single_of_double (Fin 50)" "y1 = Zero False" by (simp_all del: single_of_double.simps)
  then show ?thesis using p by simp
qed

text \<open>
  Rounding does carry the last of the 60 values the client keeps past the edge of an item 61
  pixels wide, by less than four millionths of a pixel.
\<close>

lemma last_vertex_past_the_edge:
  "61 < finite_val (single_mul (single_div (single_of_double (Fin 61)) (single_of_int 59)) (single_of_int 59))"
  by code_simp

section \<open>A flat series of large values\<close>

definition big_value :: double where "big_value = Fin (2 ^ 60)"

lemma big_minus: "big_value - Fin 1 = big_value"
  by code_simp

lemma big_plus: "big_value + Fin 1 = big_value"
  by code_simp

lemma big_facts: "is_finite big_value" "\<not> big_value < big_value"
  by (simp_all add: big_value_def less_double_def)

text \<open>
  A series that stays at one large value gives no curve: the two steps that widen an
  empty range add and subtract 1, which a double of 2^60 does not show, so the range stays
  empty, the height is computed as 0/0, and every vertex gets a height that is not a
  number.
\<close>

theorem flat_large_series_has_no_curve:
  assumes "lc_values c = replicate n (big_value)" and "2 \<le> n" and "lc_auto_range c"
    and "\<forall>x. fuzzy x x" and "\<not> w \<le> literal 0" and "\<not> h \<le> literal 0"
  shows "map snd (cn_points (updatePaintNode fuzzy w h c old)) = replicate n NaN"
proof -
  let ?v = big_value
  have mm: "min_max (replicate k ?v) (?v, ?v) = (?v, ?v)" for k
    by (induction k) (simp_all add: big_facts)
  have "hd (replicate n ?v) = ?v" using assms(2) by (cases n) simp_all
  then have range: "chart_range fuzzy c = (?v, ?v)"
    using assms(3,4) by (simp add: chart_range_def assms(1) mm Let_def big_plus big_minus big_facts)
  have "?v - ?v = Zero False" by (rule diff_same) (rule big_facts)
  then have "chart_y h ?v ?v ?v = NaN"
    by (simp add: chart_y_def clamp_unit_def less_double_def single_mul_def Let_def)
      (cases "single_of_double h"; simp)
  then show ?thesis
    using assms(1,2,5,6) range by (simp add: updatePaintNode_def Let_def chart_points_snd)
qed

theorem flat_large_series_has_no_curve_witness:
  "map snd (cn_points (updatePaintNode (=) (Fin 1) (Fin 1) \<lparr>lc_values = replicate 2 (big_value),
     lc_line_color = ''red'', lc_min_value = Fin 0, lc_max_value = Fin 1, lc_auto_range = True\<rparr> None)) = [NaN, NaN]"
  using flat_large_series_has_no_curve [of "\<lparr>lc_values = replicate 2 (big_value),
     lc_line_color = ''red'', lc_min_value = Fin 0, lc_max_value = Fin 1, lc_auto_range = True\<rparr>" 2 "(=)" "Fin 1" "Fin 1" None]
  by (simp add: less_eq_double_def less_double_def numeral_eq_Suc)

end
