(* ===== verification/Logging.thy ===== *)
theory Logging
  imports Pdh_Paths Paths
begin

text \<open>
  \<open>libs/core/src/log.cpp\<close> and the two log sinks of the service,
  \<open>apps/hwpanel-service/sinks\<close>: which sinks the process's logger has, and what the event
  log and ETW are told of a record. spdlog's formatting of a record is an argument.
\<close>

section \<open>The logger\<close>

datatype level = Trace | Debug | Info | Warn | Err | Critical | Off

fun level_number :: "level \<Rightarrow> nat" where
  "level_number Trace = 0"
| "level_number Debug = 1"
| "level_number Info = 2"
| "level_number Warn = 3"
| "level_number Err = 4"
| "level_number Critical = 5"
| "level_number Off = 6"

instantiation level :: linorder
begin

definition less_eq_level :: "level \<Rightarrow> level \<Rightarrow> bool" where "a \<le> b \<longleftrightarrow> level_number a \<le> level_number b"
definition less_level :: "level \<Rightarrow> level \<Rightarrow> bool" where "a < b \<longleftrightarrow> level_number a < level_number b"

instance
proof
  fix a b :: level
  show "a = b" if "a \<le> b" "b \<le> a" using that by (cases a; cases b) (simp_all add: less_eq_level_def)
qed (auto simp: less_eq_level_def less_level_def)

end

text \<open>A rotating file has its path, its largest size and the number of old files; other sinks have a name.\<close>

datatype sink = Console_sink | Rotating_file string nat nat | Other_sink string

record logger =
  lg_sinks :: "sink list"
  lg_pattern :: string
  lg_level :: level
  lg_flush_on :: level

definition new_logger :: logger where
  "new_logger = \<lparr>lg_sinks = [], lg_pattern = [], lg_level = Info, lg_flush_on = Off\<rparr>"

text \<open>spdlog's registry, and the name of the logger \<open>g_logger\<close> points to.\<close>

record log_state =
  ls_registry :: "string \<rightharpoonup> logger"
  ls_logger :: string

definition log_pattern :: string where
  "log_pattern = ''[%Y-%m-%d %H:%M:%S.%e] [%n] [%^%l%$] %v''"

text \<open>
  \<open>dir_ok\<close>: \<open>create_directories\<close> reported no error; \<open>file_ok\<close>: the rotating sink could open
  its file, otherwise its constructor throws, which is \<open>None\<close>.
\<close>

definition log_Init :: "bool \<Rightarrow> bool \<Rightarrow> string \<Rightarrow> string \<Rightarrow> log_state \<Rightarrow> log_state option" where
  "log_Init dir_ok file_ok component data_dir st =
     (let log_dir = path_append data_dir ''logs'';
          lg = (case ls_registry st component of Some lg \<Rightarrow> lg | None \<Rightarrow> new_logger);
          lg = lg\<lparr>lg_sinks := [Console_sink]\<rparr>
      in if dir_ok \<and> \<not> file_ok then None
         else let lg = (if dir_ok
                        then lg\<lparr>lg_sinks := lg_sinks lg @
                               [Rotating_file (path_append log_dir (component @ ''.log'')) (5 * 1024 * 1024) 3]\<rparr>
                        else lg);
                  lg = lg\<lparr>lg_pattern := log_pattern, lg_level := Debug, lg_flush_on := Warn\<rparr>
              in Some (st\<lparr>ls_registry := (ls_registry st)(component \<mapsto> lg), ls_logger := component\<rparr>))"

definition AddSink :: "sink \<Rightarrow> log_state \<Rightarrow> log_state" where
  "AddSink s st =
     (case ls_registry st (ls_logger st) of
        None \<Rightarrow> st
      | Some lg \<Rightarrow> st\<lparr>ls_registry := (ls_registry st)(ls_logger st \<mapsto> lg\<lparr>lg_sinks := lg_sinks lg @ [s]\<rparr>)\<rparr>)"

definition Logger :: "log_state \<Rightarrow> logger option" where
  "Logger st = ls_registry st (ls_logger st)"

text \<open>\<open>InitLogging\<close> of \<open>apps/hwpanel-service/main.cpp\<close>.\<close>

definition InitLogging :: "bool \<Rightarrow> bool \<Rightarrow> string \<Rightarrow> log_state \<Rightarrow> log_state option" where
  "InitLogging dir_ok file_ok data_dir st =
     map_option (\<lambda>st. AddSink (Other_sink ''etw'') (AddSink (Other_sink ''HWPanel'') st))
       (log_Init dir_ok file_ok ''hwpanel-service'' data_dir st)"

section \<open>The sinks\<close>

text \<open>
  \<open>std::wstring(text.begin(), text.end())\<close> converts each \<open>char\<close>, which is signed, to a
  16-bit \<open>wchar_t\<close>.
\<close>

definition widen :: "string \<Rightarrow> wstring" where
  "widen text = map (\<lambda>c. word_of_int (if (of_char c :: int) < 128 then of_char c else of_char c - 256)) text"

text \<open>
  The constructors, with what the system answers (a handle for the source of that name; a
  return code), and the destructors: whether they unregister. The state of a sink is whether
  it has its handle or registration.
\<close>

definition EventLogSink :: "(wstring \<Rightarrow> bool) \<Rightarrow> string \<Rightarrow> bool" where
  "EventLogSink RegisterEventSource source_name = RegisterEventSource (c_str (widen source_name))"

definition EventLogSink_destroy :: "bool \<Rightarrow> bool" where
  "EventLogSink_destroy has_handle = has_handle"

definition EtwSink :: "int \<Rightarrow> bool" where
  "EtwSink TraceLoggingRegister = (TraceLoggingRegister = 0)"

definition EtwSink_destroy :: "bool \<Rightarrow> bool" where
  "EtwSink_destroy registered = registered"

datatype event_type = EVENTLOG_INFORMATION_TYPE | EVENTLOG_WARNING_TYPE | EVENTLOG_ERROR_TYPE

text \<open>The event type and the text, up to its terminator, that the event log is given; \<open>None\<close>: nothing is reported.\<close>

definition EventLogSink_sink_it :: "bool \<Rightarrow> level \<Rightarrow> string \<Rightarrow> (event_type \<times> wstring) option" where
  "EventLogSink_sink_it has_handle lvl formatted =
     (if \<not> has_handle then None
      else let type = (if lvl \<ge> Err then EVENTLOG_ERROR_TYPE
                       else if lvl = Warn then EVENTLOG_WARNING_TYPE else EVENTLOG_INFORMATION_TYPE)
        in Some (type, c_str (widen formatted)))"

datatype trace_level = TRACE_LEVEL_ERROR | TRACE_LEVEL_WARNING | TRACE_LEVEL_INFORMATION | TRACE_LEVEL_VERBOSE

definition EtwSink_sink_it :: "bool \<Rightarrow> level \<Rightarrow> string \<Rightarrow> (trace_level \<times> wstring) option" where
  "EtwSink_sink_it registered lvl formatted =
     (if \<not> registered then None
      else let message = c_str (widen formatted)
        in if lvl \<ge> Err then Some (TRACE_LEVEL_ERROR, message)
           else if lvl = Warn then Some (TRACE_LEVEL_WARNING, message)
           else if lvl = Debug then Some (TRACE_LEVEL_VERBOSE, message)
           else Some (TRACE_LEVEL_INFORMATION, message))"

section \<open>Lemmas\<close>

definition service_sinks :: "bool \<Rightarrow> string \<Rightarrow> sink list" where
  "service_sinks dir_ok data_dir = [Console_sink] @
     (if dir_ok then [Rotating_file (path_append (path_append data_dir ''logs'') ''hwpanel-service.log'') 5242880 3] else []) @
     [Other_sink ''HWPanel'', Other_sink ''etw'']"

lemma InitLogging_None: "InitLogging dir_ok file_ok d st = None \<longleftrightarrow> dir_ok \<and> \<not> file_ok"
  by (auto simp: InitLogging_def log_Init_def Let_def)

lemma InitLogging_sinks:
  "InitLogging dir_ok file_ok d st = Some st' \<Longrightarrow> map_option lg_sinks (Logger st') = Some (service_sinks dir_ok d)"
  by (auto simp: InitLogging_def AddSink_def log_Init_def Logger_def Let_def service_sinks_def split: if_splits)

text \<open>Initialising twice leaves the sinks of one initialisation.\<close>

lemma InitLogging_again:
  "InitLogging ok file_ok d st = Some st' \<Longrightarrow>
     \<exists>st''. InitLogging ok file_ok d st' = Some st'' \<and> Logger st'' = Logger st'"
  by (auto simp: InitLogging_def AddSink_def log_Init_def Logger_def Let_def split: option.splits if_splits)

definition ascii :: "string \<Rightarrow> bool" where
  "ascii s \<longleftrightarrow> (\<forall>c \<in> set s. c \<noteq> CHR 0x00 \<and> (of_char c :: int) < 128)"

lemma widen_ascii:
  assumes "ascii s"
  shows "widen s = wide s"
proof -
  have "word_of_int (if (of_char c :: int) < 128 then of_char c else of_char c - 256) = (of_char c :: wchar)"
    if "c \<in> set s" for c
    using assms that unfolding ascii_def by (metis of_int_of_char)
  then show ?thesis by (simp add: widen_def wide_def)
qed

lemma wide_zero: "(of_char c :: wchar) = 0 \<longleftrightarrow> c = CHR 0x00"
proof
  assume "(of_char c :: wchar) = 0"
  then have "unat (of_char c :: wchar) = 0" by simp
  then have "(of_char c :: nat) = of_char (CHR 0x00)" by simp
  then show "c = CHR 0x00" by (simp only: of_char_eq_iff)
qed simp

lemma c_str_ascii: "ascii s \<Longrightarrow> c_str (wide s) = wide s"
  by (induction s) (auto simp: ascii_def c_str_def wide_def wide_zero)

text \<open>The severity both sinks are meant to show.\<close>

definition severity :: "level \<Rightarrow> nat" where
  "severity l = (if l \<ge> Err then 2 else if l = Warn then 1 else 0)"

fun event_severity :: "event_type \<Rightarrow> nat" where
  "event_severity EVENTLOG_ERROR_TYPE = 2"
| "event_severity EVENTLOG_WARNING_TYPE = 1"
| "event_severity EVENTLOG_INFORMATION_TYPE = 0"

fun trace_severity :: "trace_level \<Rightarrow> nat" where
  "trace_severity TRACE_LEVEL_ERROR = 2"
| "trace_severity TRACE_LEVEL_WARNING = 1"
| "trace_severity _ = 0"

section \<open>Properties\<close>

text \<open>
  The service's logging comes up unless the log file of an existing directory cannot be
  opened, and then an exception leaves it; once up, the logger writes to the console, the
  rotating file when its directory exists, the event log and ETW, also when it is
  initialised again; and a record whose text is ASCII reaches the event log and ETW as the
  same characters, with the same severity in both: error for error and critical, warning
  for warning, information below, whatever the level (information records included).
\<close>

theorem service_log_record_mirrored:
  assumes "ascii formatted"
  shows "(case InitLogging dir_ok file_ok data_dir st of
       None \<Rightarrow> dir_ok \<and> \<not> file_ok
     | Some st' \<Rightarrow> map_option lg_sinks (Logger st') = Some (service_sinks dir_ok data_dir) \<and>
         (\<exists>st''. InitLogging dir_ok file_ok data_dir st' = Some st'' \<and> Logger st'' = Logger st')) \<and>
    map_option (\<lambda>(t, m). (event_severity t, m)) (EventLogSink_sink_it True lvl formatted) = Some (severity lvl, wide formatted) \<and>
    map_option (\<lambda>(t, m). (trace_severity t, m)) (EtwSink_sink_it True lvl formatted) = Some (severity lvl, wide formatted)"
  using assms InitLogging_sinks InitLogging_again InitLogging_None
  by (auto simp: EventLogSink_sink_it_def EtwSink_sink_it_def severity_def widen_ascii c_str_ascii Let_def split: option.splits)

theorem service_log_record_mirrored_witness:
  "EventLogSink_sink_it True Critical ''disk'' = Some (EVENTLOG_ERROR_TYPE, wide ''disk'')"
proof -
  have "ascii ''disk''" by (simp add: ascii_def)
  from service_log_record_mirrored [OF this, of True True "''d''" "\<lparr>ls_registry = Map.empty, ls_logger = []\<rparr>" Critical]
  have "\<exists>t. EventLogSink_sink_it True Critical ''disk'' = Some (t, wide ''disk'') \<and> event_severity t = 2"
    by (auto simp: severity_def less_eq_level_def)
  then show ?thesis by (auto elim: event_severity.elims)
qed

end
