(* ===== verification/Service_Main.thy ===== *)
theory Service_Main
  imports Service_Host Logging
begin

text \<open>
  \<open>apps/hwpanel-service/main.cpp\<close>: the command line, the console mode and the service
  mode with its fallback. Windows' delivery of console events follows its documented rule:
  a handler that returns \<open>TRUE\<close> ends the handling, otherwise the default handler ends the
  process; a close event ends it in any case.
\<close>

section \<open>The command line\<close>

text \<open>The loop over the arguments; \<open>None\<close> prints the usage and returns 2.\<close>

fun parse_args :: "string list \<Rightarrow> bool \<times> string \<Rightarrow> (bool \<times> string) option" where
  "parse_args [] acc = Some acc"
| "parse_args (arg # args) (console, endpoint) =
     (if arg = ''--console'' then parse_args args (True, endpoint)
      else if arg = ''--endpoint'' \<and> args \<noteq> [] then parse_args (tl args) (console, hd args)
      else None)"

section \<open>Console mode\<close>

datatype console_event = CTRL_C_EVENT | CTRL_BREAK_EVENT | CTRL_CLOSE_EVENT | CTRL_LOGOFF_EVENT | CTRL_SHUTDOWN_EVENT

definition console_handler :: "console_event \<Rightarrow> bool" where
  "console_handler type \<longleftrightarrow> type = CTRL_C_EVENT \<or> type = CTRL_BREAK_EVENT \<or> type = CTRL_CLOSE_EVENT"

text \<open>
  What has become of the process: it has returned a code, it waits for the stop event, the
  system has ended it, or an uncaught exception has.
\<close>

datatype 'h process = Exited int | Waiting 'h | Ended_by_system | Aborted

text \<open>The wait of \<open>RunConsole\<close> over the console events; nothing sets its event.\<close>

fun console_wait :: "console_event list \<Rightarrow> 'h \<Rightarrow> 'h process" where
  "console_wait [] h = Waiting h"
| "console_wait (ev # evs) h =
     (if console_handler ev \<and> ev \<noteq> CTRL_CLOSE_EVENT then console_wait evs h else Ended_by_system)"

text \<open>What the log finds: see \<open>log_Init\<close>. Its failure is an exception nobody catches.\<close>

record log_place =
  lp_dir_ok :: bool
  lp_file_ok :: bool
  lp_data_dir :: string
  lp_state :: log_state

text \<open>
  A failed start leaves \<open>RunConsole\<close> through the destructor of its host. An uncaught exception
  ends the process at once.
\<close>

definition RunConsole :: "log_place \<Rightarrow> ('b, 'e) host_env \<Rightarrow> string \<Rightarrow> console_event list \<Rightarrow> ('b, 'e) service_host \<Rightarrow>
    ('b, 'e) service_host process" where
  "RunConsole lp env endpoint events h =
     (case InitLogging (lp_dir_ok lp) (lp_file_ok lp) (lp_data_dir lp) (lp_state lp) of
        None \<Rightarrow> Aborted
      | Some _ \<Rightarrow>
          (case host_Start env endpoint h of
             (Returned_bool True, h') \<Rightarrow> console_wait events h'
           | (Returned_bool False, h') \<Rightarrow> (case host_destroy h' of None \<Rightarrow> Aborted | Some _ \<Rightarrow> Exited 1)
           | _ \<Rightarrow> Aborted))"

section \<open>Service mode\<close>

text \<open>The callbacks: the first starts the log, then the host, whose failure is only logged.\<close>

definition service_handlers :: "log_place \<Rightarrow> ('b, 'e) host_env \<Rightarrow> string \<Rightarrow> ('b, 'e) service_host option handlers" where
  "service_handlers lp env endpoint = (host_handlers env endpoint)\<lparr>on_start := Some (\<lambda>w.
     case InitLogging (lp_dir_ok lp) (lp_file_ok lp) (lp_data_dir lp) (lp_state lp) of
       None \<Rightarrow> None
     | Some _ \<Rightarrow> (case on_start (host_handlers env endpoint) of None \<Rightarrow> w | Some f \<Rightarrow> f w))\<rparr>"

text \<open>
  \<open>dispatched\<close> is what \<open>Run\<close> returned for these callbacks (see \<open>controller_Run\<close>): false when
  the process was not started by the SCM. The host is the one of \<open>RunConsole\<close>.
\<close>

definition RunService :: "log_place \<Rightarrow> ('b, 'e) host_env \<Rightarrow> string \<Rightarrow> console_event list \<Rightarrow> bool \<Rightarrow>
    ('b, 'e) service_host \<Rightarrow> ('b, 'e) service_host process" where
  "RunService lp env endpoint events dispatched h =
     (if dispatched then Exited 0 else RunConsole lp env endpoint events h)"

definition service_main :: "(string \<Rightarrow> string option) \<Rightarrow> log_place \<Rightarrow> ('b, 'e) host_env \<Rightarrow> string list \<Rightarrow> console_event list \<Rightarrow>
    bool \<Rightarrow> ('b, 'e) service_host \<Rightarrow> ('b, 'e) service_host process" where
  "service_main getenv lp env args events dispatched h =
     (case parse_args args (False, DefaultEndpoint getenv) of
        None \<Rightarrow> Exited 2
      | Some (console, endpoint) \<Rightarrow>
          if console then RunConsole lp env endpoint events h else RunService lp env endpoint events dispatched h)"

section \<open>Lemmas\<close>

text \<open>The options a caller can mean, and how they are written.\<close>

datatype service_option = Console | Endpoint string

fun render :: "service_option \<Rightarrow> string list" where
  "render Console = [''--console'']"
| "render (Endpoint a) = [''--endpoint'', a]"

fun apply_option :: "service_option \<Rightarrow> bool \<times> string \<Rightarrow> bool \<times> string" where
  "apply_option Console (c, e) = (True, e)"
| "apply_option (Endpoint a) (c, e) = (c, a)"

lemma parse_args_render: "parse_args (concat (map render opts)) acc = Some (fold apply_option opts acc)"
proof (induction opts arbitrary: acc)
  case (Cons opt opts)
  then show ?case by (cases opt; cases acc) simp_all
qed simp

lemma parse_args_rendered:
  "parse_args args acc = Some r \<Longrightarrow> \<exists>opts. args = concat (map render opts) \<and> r = fold apply_option opts acc"
proof (induction args acc rule: parse_args.induct)
  case (1 acc)
  then show ?case by (intro exI [of _ "[]"]) simp
next
  case (2 arg args console endpoint)
  show ?case
  proof (cases "arg = ''--console''")
    case True
    then obtain opts where "args = concat (map render opts)" "r = fold apply_option opts (True, endpoint)"
      using 2 by auto
    then show ?thesis using True by (intro exI [of _ "Console # opts"]) simp
  next
    case False
    then have args: "arg = ''--endpoint''" "args \<noteq> []" using 2(3) by (auto split: if_splits)
    then obtain opts where "tl args = concat (map render opts)" "r = fold apply_option opts (console, hd args)"
      using 2(2,3) False by auto
    moreover obtain a rest where "args = a # rest" using args(2) by (cases args) auto
    ultimately show ?thesis using args(1) by (intro exI [of _ "Endpoint (hd args) # opts"]) simp
  qed
qed

lemma console_wait_ctrl_c: "set evs \<subseteq> {CTRL_C_EVENT, CTRL_BREAK_EVENT} \<Longrightarrow> console_wait evs h = Waiting h"
  by (induction evs) (auto simp: console_handler_def)

lemma console_wait_not_exited: "console_wait evs h \<noteq> Exited n"
  by (induction evs) auto

lemma fresh_host_Start:
  assumes "fst (host_Start env ep (ServiceHost fs e)) = Returned_bool True"
  obtains h where "host_Start env ep (ServiceHost fs e) = (Returned_bool True, h)" and "host_inv h"
    and "host_running h" and "pl_running (host_pipeline h)"
proof -
  obtain h where h: "host_Start env ep (ServiceHost fs e) = (Returned_bool True, h)"
    using assms by (metis prod.collapse)
  show thesis
    using host_Start_cases [OF host_inv_init _ h] that [OF h]
    by (auto simp: ServiceHost_def host_inv_def split: option.splits)
qed

lemma host_Start_fresh_unpaused:
  "host_Start env ep (ServiceHost fs e) = (Returned_bool True, h) \<Longrightarrow> \<not> host_paused h"
  using host_Start_cases [OF host_inv_init, of fs e env ep "Returned_bool True" h]
  by (auto simp: ServiceHost_def split: option.splits)

text \<open>A console start that finds no address to listen on ends the threads it started and returns 1.\<close>

lemma failed_console_start_exits:
  assumes "host_Start env ep (ServiceHost fs e) = (Returned_bool False, h)" and "lp_dir_ok lp \<longrightarrow> lp_file_ok lp"
  shows "RunConsole lp env ep events (ServiceHost fs e) = Exited 1"
proof -
  have "InitLogging (lp_dir_ok lp) (lp_file_ok lp) (lp_data_dir lp) (lp_state lp) \<noteq> None"
    using assms(2) by (simp only: InitLogging_None) blast
  then show ?thesis using destroy_after_start [OF assms(1)] assms(1) by (auto simp: RunConsole_def)
qed

section \<open>Properties\<close>

text \<open>
  The command line is accepted exactly when it is a sequence of complete options, and
  then each endpoint option overrides the ones before it; otherwise the process exits with
  2, without touching the host.
\<close>

theorem command_line_is_options:
  "case parse_args args (False, DefaultEndpoint getenv) of
     Some (console, endpoint) \<Rightarrow>
       (\<exists>opts. args = concat (map render opts) \<and>
          (console, endpoint) = fold apply_option opts (False, DefaultEndpoint getenv)) \<and>
       service_main getenv lp env args events dispatched h =
         (if console then RunConsole lp env endpoint events h else RunService lp env endpoint events dispatched h)
   | None \<Rightarrow> (\<nexists>opts. args = concat (map render opts)) \<and>
       service_main getenv lp env args events dispatched h = Exited 2"
proof (cases "parse_args args (False, DefaultEndpoint getenv)")
  case None
  then have "\<nexists>opts. args = concat (map render opts)" using parse_args_render [of _ "(False, DefaultEndpoint getenv)"] by auto
  then show ?thesis using None by (simp add: service_main_def)
next
  case (Some r)
  then show ?thesis using parse_args_rendered [OF Some] by (cases r) (simp add: service_main_def)
qed

text \<open>
  C40: in console mode the stop event is set by nobody: once log and host have started,
  Ctrl+C and Ctrl+Break leave it running and collecting, and whatever the events are the
  process never comes to stop the host and return.
\<close>

theorem console_ignores_ctrl_c:
  assumes "fst (host_Start env ep (ServiceHost fs e)) = Returned_bool True"
    and "lp_dir_ok lp \<longrightarrow> lp_file_ok lp"
  shows "(\<exists>h. RunConsole lp env ep (filter (\<lambda>ev. ev \<in> {CTRL_C_EVENT, CTRL_BREAK_EVENT}) events) (ServiceHost fs e) = Waiting h \<and>
       host_running h \<and> pl_running (host_pipeline h)) \<and>
     RunConsole lp env ep events (ServiceHost fs e) \<noteq> Exited n"
proof -
  obtain h where "host_Start env ep (ServiceHost fs e) = (Returned_bool True, h)" "host_running h"
    "pl_running (host_pipeline h)" by (rule fresh_host_Start [OF assms(1)])
  moreover have "console_wait (filter (\<lambda>ev. ev \<in> {CTRL_C_EVENT, CTRL_BREAK_EVENT}) events) h = Waiting h"
    by (rule console_wait_ctrl_c) auto
  moreover have "InitLogging (lp_dir_ok lp) (lp_file_ok lp) (lp_data_dir lp) (lp_state lp) \<noteq> None"
    using assms(2) by (simp only: InitLogging_None) blast
  ultimately show ?thesis by (auto simp: RunConsole_def console_wait_not_exited)
qed

definition demo_log :: log_place where
  "demo_log = \<lparr>lp_dir_ok = True, lp_file_ok = True, lp_data_dir = ''d'',
     lp_state = \<lparr>ls_registry = Map.empty, ls_logger = []\<rparr>\<rparr>"

theorem console_ignores_ctrl_c_witness:
  "\<exists>h. RunConsole demo_log (demo_host_env (\<lambda>_. True)) ''np:x'' [CTRL_C_EVENT, CTRL_BREAK_EVENT] (ServiceHost demo_disk ()) = Waiting h \<and>
     host_running h"
  using console_ignores_ctrl_c [OF demo_host_Start, of demo_log "[CTRL_C_EVENT, CTRL_BREAK_EVENT]"]
  by (auto simp: demo_log_def)


section \<open>The end of the service\<close>

lemma service_handlers_eq:
  "InitLogging (lp_dir_ok lp) (lp_file_ok lp) (lp_data_dir lp) (lp_state lp) \<noteq> None \<Longrightarrow>
     service_handlers lp env ep = host_handlers env ep"
  by (auto simp: service_handlers_def host_handlers_def)

text \<open>
  C7: when the SCM runs the service and its start succeeds, the process returns 0 only after
  the service was stopped: whatever controls came before, the SCM knows it as stopped, its
  host answers STOPPED and does not collect, and the destructor of the host, which runs as
  the process exits, finds no thread to end the process with.
\<close>

theorem service_process_ends_stopped:
  assumes "controller_Run (service_handlers lp env ep) (controller_init (Some (ServiceHost fs e))) dispatched c"
    and "RunService lp env ep events dispatched (ServiceHost fs e) = Exited 0" and "reports c \<noteq> []"
    and "fst (host_Start env ep (ServiceHost fs e)) = Returned_bool True" and "lp_dir_ok lp \<longrightarrow> lp_file_ok lp"
  shows "known_state c = Some SERVICE_STOPPED \<and>
    (\<exists>h. world c = Some h \<and> StateName h = ''STOPPED'' \<and> \<not> pl_running (host_pipeline h) \<and> host_destroy h = Some ())"
proof -
  have log: "InitLogging (lp_dir_ok lp) (lp_file_ok lp) (lp_data_dir lp) (lp_state lp) \<noteq> None"
    using assms(5) by (simp only: InitLogging_None) blast
  have dispatched
    using assms(2,4) log by (cases "host_Start env ep (ServiceHost fs e)")
      (auto simp: RunService_def RunConsole_def console_wait_not_exited split: if_splits option.splits)
  then have run: "controller_Run (host_handlers env ep) (controller_init (Some (ServiceHost fs e))) True c"
    using assms(1) by (simp add: service_handlers_eq [OF log])
  obtain mid where known: "known_state c = Some SERVICE_STOPPED" and mid: "set mid \<subseteq> {Pausing, Continuing}"
    and world: "world c = fold (run_call (host_handlers env ep)) (Starting # mid @ [Stopping]) (Some (ServiceHost fs e))"
    using Run_returns_stopped [OF run] assms(3) by blast
  obtain h1 where h1: "host_Start env ep (ServiceHost fs e) = (Returned_bool True, h1)" "host_inv h1" "host_running h1"
    and up: "\<not> host_paused h1"
    using fresh_host_Start [OF assms(4)] host_Start_fresh_unpaused by metis
  obtain h2 where h2: "fold (run_call (host_handlers env ep)) mid (Some h1) = Some h2" "host_inv h2" "host_running h2"
    using host_pauses [OF h1(2,3) up mid, of env ep] by blast
  have w: "world c = Some (host_Stop h2)" using world h1(1) h2(1) by (simp add: host_handlers_def)
  have "host_watch_ok h2" using host_watch_pauses [OF host_watch_Start [OF h1(1)] mid h2(1)] .
  then have "host_destroy (host_Stop h2) = Some ()"
    using h2(2) by (intro host_destroy_ok host_inv_Stop host_watch_Stop)
  moreover have "\<not> host_running (host_Stop h2)" "\<not> pl_running (host_pipeline (host_Stop h2))"
    using h2(2,3) pl_Stop_ok by (auto simp: host_Stop_def host_inv_def)
  ultimately show ?thesis using w known by (simp add: StateName_def)
qed


text \<open>Started, stopped at once, ended.\<close>

theorem service_process_ends_stopped_witness:
  "\<exists>c h. controller_Run (service_handlers demo_log (demo_host_env (\<lambda>_. True)) ''np:x'')
       (controller_init (Some (ServiceHost demo_disk ()))) True c \<and>
     world c = Some h \<and> StateName h = ''STOPPED'' \<and> host_destroy h = Some ()"
proof -
  let ?H = "service_handlers demo_log (demo_host_env (\<lambda>_. True)) ''np:x''"
  let ?c0 = "controller_init (Some (ServiceHost demo_disk ()))"
  let ?c1 = "main_steps ?H 4 ?c0" let ?c2 = "snd (HandlerThunk ?H CONTROL_STOP ?c1)" let ?c3 = "main_steps ?H 2 ?c2"
  have at1: "main_at ?c1 = Wait_exit" "known_state ?c1 = Some SERVICE_RUNNING" "start_done ?c1"
    by (simp_all add: controller_init_def numeral_eq_Suc ServiceMain.simps FinalizeStart_def Let_def known_state_def)
  then have "delivers ?c1" by (simp add: delivers_def)
  then have "svc_step ?H ?c1 ?c2" by (rule control_step)
  then have steps: "rtranclp (svc_step ?H) ?c0 ?c3"
    by (meson main_steps_rtranclp rtranclp.rtrancl_into_rtrancl rtranclp_trans)
  have at3: "main_at ?c3 = Returned" "reports ?c3 \<noteq> []"
    using at1 by (simp_all add: numeral_eq_Suc ServiceMain.simps Let_def)
  have run: "controller_Run ?H ?c0 True ?c3" by (rule dispatched [OF steps at3(1)])
  have "RunService demo_log (demo_host_env (\<lambda>_. True)) ''np:x'' [] True (ServiceHost demo_disk ()) = Exited 0"
    by (simp add: RunService_def)
  from service_process_ends_stopped [OF run this at3(2) demo_host_Start] run
  show ?thesis by (auto simp: demo_log_def)
qed

end
