(* ===== verification/Client_Main.thy ===== *)
theory Client_Main
  imports Client_Worker
begin

text \<open>
  The life of the client's stream threads, step by step, and the end of the process:
  \<open>TelemetryLoop\<close> and \<open>EventsLoop\<close> of \<open>apps/hwpanel-client/backend/client_worker.cpp\<close> run the
  same loop over different messages, \<open>Stop\<close> joins both, and \<open>apps/hwpanel-client/main.cpp\<close>
  calls it once the window is closed. \<open>Read\<close> returns when the service sends a message or
  ends the call; no deadline is set and nothing cancels the call.
\<close>

section \<open>The threads\<close>

text \<open>Before the outer test, before the inner one, inside \<open>Read\<close>, in a pause, returned.\<close>

datatype place = Outer | Inner | Reading | Pausing int | Returned

record 'm stream_thread =
  sth_running :: bool
  sth_at :: place
  sth_read :: "'m list"

text \<open>
  \<open>Stop_called\<close> clears the flag from another thread; the other labels are steps of the
  thread, with what its environment answers.
\<close>

datatype 'm stream_label = Stop_called | Checked bool bool | Tested | Got 'm | Read_failed | Woken

inductive stream_step :: "'m stream_label \<Rightarrow> 'm stream_thread \<Rightarrow> 'm stream_thread \<Rightarrow> bool" where
  stop: "stream_step Stop_called s (s\<lparr>sth_running := False\<rparr>)"
| outer: "sth_at s = Outer \<Longrightarrow> stream_step (Checked ready reader) s
    (s\<lparr>sth_at := if \<not> sth_running s then Returned else if \<not> ready then Pausing 500
                  else if \<not> reader then Pausing 1000 else Inner\<rparr>)"
| inner: "sth_at s = Inner \<Longrightarrow> stream_step Tested s (s\<lparr>sth_at := if sth_running s then Reading else Pausing 1000\<rparr>)"
| got: "sth_at s = Reading \<Longrightarrow> stream_step (Got m) s (s\<lparr>sth_at := Inner, sth_read := sth_read s @ [m]\<rparr>)"
| failed: "sth_at s = Reading \<Longrightarrow> stream_step Read_failed s (s\<lparr>sth_at := Pausing 1000\<rparr>)"
| woken: "sth_at s = Pausing ms \<Longrightarrow> stream_step Woken s (s\<lparr>sth_at := Outer\<rparr>)"

inductive stream_run :: "'m stream_label list \<Rightarrow> 'm stream_thread \<Rightarrow> 'm stream_thread \<Rightarrow> bool" where
  run_Nil: "stream_run [] s s"
| run_Cons: "stream_step l s s1 \<Longrightarrow> stream_run ls s1 s2 \<Longrightarrow> stream_run (l # ls) s s2"

inductive_simps stream_step_simps:
  "stream_step Stop_called s t" "stream_step (Checked a b) s t" "stream_step Tested s t"
  "stream_step (Got m) s t" "stream_step Read_failed s t" "stream_step Woken s t"

inductive_simps stream_run_simps: "stream_run [] s t" "stream_run (l # ls) s t"

code_pred (modes: i \<Rightarrow> i \<Rightarrow> o \<Rightarrow> bool) stream_step .

lemma stream_run_append: "stream_run ls s t \<Longrightarrow> stream_run ms t u \<Longrightarrow> stream_run (ls @ ms) s u"
  by (induction rule: stream_run.induct) (auto intro: run_Cons)

section \<open>The loop they run\<close>

text \<open>The steps of one turn of the loop as \<open>TelemetryLoop\<close> and \<open>EventsLoop\<close> see it.\<close>

definition turn_labels :: "'m link_turn \<Rightarrow> 'm stream_label list" where
  "turn_labels t = Checked (lt_ready t) (lt_reader t) #
     (if lt_ready t \<and> lt_reader t
      then concat (map (\<lambda>m. [Tested, Got m]) (lt_messages t)) @ [Tested, Read_failed, Woken] else [Woken])"

definition turn_messages :: "'m link_turn \<Rightarrow> 'm list" where
  "turn_messages t = (if lt_ready t \<and> lt_reader t then lt_messages t else [])"

lemma stream_run_messages:
  "sth_at s = Inner \<Longrightarrow> sth_running s \<Longrightarrow>
     stream_run (concat (map (\<lambda>m. [Tested, Got m]) msgs)) s (s\<lparr>sth_read := sth_read s @ msgs\<rparr>)"
proof (induction msgs arbitrary: s)
  case Nil
  then show ?case by (simp add: stream_run_simps)
next
  case (Cons m msgs)
  from Cons.IH [of "s\<lparr>sth_read := sth_read s @ [m]\<rparr>"] Cons.prems show ?case
    by (cases s) (auto simp: stream_run_simps stream_step_simps)
qed

lemma stream_run_turn:
  assumes "sth_at s = Outer" and "sth_running s"
  shows "stream_run (turn_labels t) s (s\<lparr>sth_read := sth_read s @ turn_messages t\<rparr>)"
proof (cases "lt_ready t \<and> lt_reader t")
  case True
  let ?in = "s\<lparr>sth_at := Inner\<rparr>"
  have "stream_run [Checked (lt_ready t) (lt_reader t)] s ?in"
    using True assms by (simp add: stream_run_simps stream_step_simps)
  moreover have "stream_run (concat (map (\<lambda>m. [Tested, Got m]) (lt_messages t))) ?in
      (?in\<lparr>sth_read := sth_read ?in @ lt_messages t\<rparr>)"
    by (rule stream_run_messages) (simp_all add: assms)
  moreover have "stream_run [Tested, Read_failed, Woken] (?in\<lparr>sth_read := sth_read ?in @ lt_messages t\<rparr>)
      (s\<lparr>sth_read := sth_read s @ lt_messages t\<rparr>)"
    using assms by (simp add: stream_run_simps stream_step_simps)
  ultimately have "stream_run ([Checked (lt_ready t) (lt_reader t)] @ concat (map (\<lambda>m. [Tested, Got m]) (lt_messages t)) @
      [Tested, Read_failed, Woken]) s (s\<lparr>sth_read := sth_read s @ lt_messages t\<rparr>)"
    by (intro stream_run_append)
  then show ?thesis using True by (simp add: turn_labels_def turn_messages_def)
next
  case False
  then show ?thesis using assms by (auto simp: turn_labels_def turn_messages_def stream_run_simps stream_step_simps)
qed

lemma stream_run_turns:
  "sth_at s = Outer \<Longrightarrow> sth_running s \<Longrightarrow>
     stream_run (concat (map turn_labels ts)) s (s\<lparr>sth_read := sth_read s @ concat (map turn_messages ts)\<rparr>)"
proof (induction ts arbitrary: s)
  case Nil
  then show ?case by (simp add: stream_run_simps)
next
  case (Cons t ts)
  have "stream_run (turn_labels t) s (s\<lparr>sth_read := sth_read s @ turn_messages t\<rparr>)"
    by (rule stream_run_turn) (use Cons.prems in simp_all)
  from stream_run_append [OF this Cons.IH] Cons.prems show ?case by simp
qed

text \<open>So the machine, run through the turns of \<open>TelemetryLoop\<close>, reads what that function emits.\<close>

lemma stream_thread_runs_TelemetryLoop:
  assumes "sth_at s = Outer" and "sth_running s" and "sth_read s = []"
  shows "\<exists>t. stream_run (concat (map turn_labels ts)) s t \<and> sth_at t = Outer \<and>
    map sample_of_proto (sth_read t) = fst (TelemetryLoop ts)"
  using stream_run_turns [OF assms(1,2), of ts] assms(1,3)
  by (intro exI [of _ "s\<lparr>sth_read := sth_read s @ concat (map turn_messages ts)\<rparr>"])
    (simp add: TelemetryLoop_emitted turn_messages_def map_concat comp_def if_distrib cong: if_cong)

section \<open>Stopping\<close>

text \<open>The steps a thread whose flag is cleared can still take on its own, and those that wait for the service.\<close>

fun own :: "'m stream_label \<Rightarrow> bool" where
  "own Stop_called = False"
| "own _ = True"

fun from_service :: "'m stream_label \<Rightarrow> bool" where
  "from_service (Got m) = True"
| "from_service Read_failed = True"
| "from_service _ = False"

fun steps_left :: "place \<Rightarrow> nat" where
  "steps_left Returned = 0"
| "steps_left Outer = 1"
| "steps_left (Pausing _) = 2"
| "steps_left Inner = 3"
| "steps_left Reading = 4"

lemma stopped_step:
  assumes "stream_step l s t" and "\<not> sth_running s"
  shows "\<not> sth_running t" and "(if own l then 1 else 0) + steps_left (sth_at t) \<le> steps_left (sth_at s)"
    and "sth_at s = Reading \<Longrightarrow> \<not> from_service l \<Longrightarrow> sth_at t = Reading \<and> sth_read t = sth_read s"
  using assms by (induction rule: stream_step.induct) auto

lemma stopped_run:
  assumes "stream_run ls s t" and "\<not> sth_running s"
  shows "\<not> sth_running t \<and> length (filter own ls) + steps_left (sth_at t) \<le> steps_left (sth_at s) \<and>
    (sth_at s = Reading \<and> (\<forall>l \<in> set ls. \<not> from_service l) \<longrightarrow> sth_at t = Reading)"
  using assms
proof (induction rule: stream_run.induct)
  case (run_Cons l s s1 ls s2)
  note step = stopped_step [OF run_Cons(1,4)]
  show ?case using run_Cons.IH [OF step(1)] step(2,3) by (auto split: if_splits)
qed simp

lemma enabled_unless_reading:
  assumes "sth_at s \<noteq> Returned" and "sth_at s \<noteq> Reading"
  shows "\<exists>l t. own l \<and> \<not> from_service l \<and> stream_step l s t"
proof (cases "sth_at s")
  case Outer
  then show ?thesis by (intro exI [of _ "Checked True True"] exI) (auto intro: stream_step.outer)
next
  case Inner
  then show ?thesis by (intro exI [of _ Tested] exI) (auto intro: stream_step.inner)
next
  case (Pausing ms)
  then show ?thesis by (intro exI [of _ Woken] exI) (auto intro: stream_step.woken)
qed (use assms in simp_all)

section \<open>The end of the process\<close>

text \<open>
  What \<open>main\<close> has come to: returned, waiting in \<open>Stop\<close> for a thread to be joined, or crashed
  because an object was destroyed under a running thread.
\<close>

datatype client_outcome = Client_returns int | In_join | Crashes

text \<open>
  \<open>tele\<close> and \<open>ev\<close>: how far the two threads have come since \<open>Stop\<close> cleared their flag;
  \<open>busy_ms\<close>: how long the worker's own thread is still inside a slot when it is asked to quit.
  \<open>wait(3000)\<close> gives up on it, and the destructors of the worker and of its thread run.
\<close>

definition client_main :: "bool \<Rightarrow> int \<Rightarrow> 'a stream_thread \<Rightarrow> 'b stream_thread \<Rightarrow> int \<Rightarrow> client_outcome" where
  "client_main qml_loaded rc tele ev busy_ms =
     (if \<not> qml_loaded then Client_returns (-1)
      else if sth_at tele \<noteq> Returned \<or> sth_at ev \<noteq> Returned then In_join
      else if busy_ms > 3000 then Crashes else Client_returns rc)"

text \<open>The messages a run reads.\<close>

definition messages_got :: "'m stream_label list \<Rightarrow> 'm list" where
  "messages_got = List.map_filter (\<lambda>l. case l of Got m \<Rightarrow> Some m | _ \<Rightarrow> None)"

lemma messages_got_Nil: "messages_got ls = [] \<Longrightarrow> Got m \<notin> set ls"
  by (induction ls) (auto simp: messages_got_def List.map_filter_simps split: option.splits)

section \<open>Properties\<close>

text \<open>
  A stopped stream thread takes at most four more steps of its own, wherever it was and
  whatever its environment answers, and always has a next one until it has returned, except
  inside Read; from there it does not move unless the service sends a message or ends the
  call.
\<close>

theorem stop_waits_only_for_read:
  assumes "stream_run ls s t" and "\<not> sth_running s"
  shows "length (filter own ls) \<le> 4 \<and>
    (sth_at t = Returned \<or> sth_at t = Reading \<or> (\<exists>l u. own l \<and> \<not> from_service l \<and> stream_step l t u)) \<and>
    (sth_at s = Reading \<and> (\<forall>l \<in> set ls. \<not> from_service l) \<longrightarrow> sth_at t = Reading)"
proof -
  have "steps_left (sth_at s) \<le> 4" by (cases "sth_at s") simp_all
  then show ?thesis using stopped_run [OF assms] enabled_unless_reading [of t] by auto
qed

text \<open>
  C32: closing the client while it watches a service on which nothing happens never ends: if
  no event is published while the service runs the client's WatchEvents call, and the
  events thread was inside Read when Stop cleared its flag, then whatever the other thread
  and the worker do, main is still joining the events thread.
\<close>

theorem close_hangs_on_quiet_service:
  assumes "bus_inv b" and "\<forall>t \<in> set turns. foreign (next_id b) (rt_ops t) \<and> ops_published (rt_ops t) = []"
    and "rpc_WatchEvents turns b = (msgs, b')"
    and "sth_at ev = Reading" and "\<not> sth_running ev" and "stream_run ls ev ev'"
    and "prefix (messages_got ls) msgs" and "Read_failed \<notin> set ls"
  shows "client_main True rc tele ev' busy_ms = In_join"
proof -
  have f: "\<forall>t \<in> set turns. foreign (next_id b) (rt_ops t)" using assms(2) by blast
  have none: "concat (map (ops_published \<circ> rt_ops) turns) = []" using assms(2) by (auto simp: concat_eq_Nil_conv)
  have "subseq (map event_of_proto msgs) []"
    using rpc_WatchEvents_stream [OF assms(1) f assms(3)] unfolding none by (rule conjunct1)
  then have "map event_of_proto msgs = []" by (simp only: list_emb_Nil2)
  then have "msgs = []" by simp
  then have "messages_got ls = []" using assms(7) by simp
  then have "\<forall>l \<in> set ls. \<not> from_service l"
    using messages_got_Nil assms(8) by (metis from_service.elims(2))
  then have "sth_at ev' = Reading" using stopped_run [OF assms(6,5)] assms(4) by blast
  then show ?thesis by (simp add: client_main_def)
qed

theorem stop_waits_only_for_read_witness:
  "\<exists>t. stream_run [Got (1::nat), Tested, Woken, Checked True True] \<lparr>sth_running = False, sth_at = Reading, sth_read = []\<rparr> t \<and>
     sth_at t = Returned \<and> length (filter own [Got (1::nat), Tested, Woken, Checked True True]) \<le> 4"
proof -
  let ?s = "\<lparr>sth_running = False, sth_at = Reading, sth_read = []\<rparr>"
  let ?ls = "[Got (1::nat), Tested, Woken, Checked True True]"
  have run: "stream_run ?ls ?s \<lparr>sth_running = False, sth_at = Returned, sth_read = [1]\<rparr>"
    by (simp add: stream_run_simps stream_step_simps)
  from stop_waits_only_for_read [OF run] run show ?thesis by (intro exI conjI) auto
qed

theorem close_hangs_on_quiet_service_witness:
  "client_main True 0 \<lparr>sth_running = False, sth_at = Returned, sth_read = [] :: pb_sample list\<rparr>
     \<lparr>sth_running = False, sth_at = Reading, sth_read = [] :: pb_event list\<rparr> 0 = In_join"
proof -
  let ?turns = "[event_turn [], event_turn [], event_turn []]"
  obtain msgs b' where run: "rpc_WatchEvents ?turns registry_empty = (msgs, b')"
    by (cases "rpc_WatchEvents ?turns registry_empty")
  show ?thesis
    by (rule close_hangs_on_quiet_service [OF bus_inv_empty _ run, of _ "[]"])
      (simp_all add: event_turn_def foreign_def stream_run_simps messages_got_def List.map_filter_simps)
qed

end
