(* ===== verification/Smoke.thy ===== *)
theory Smoke
  imports Endpoint
begin

text \<open>
  \<open>tools/hwpanel-smoke/main.cpp\<close>: the acceptance client. The service it dials is an
  argument: what \<open>GetStatus\<close> ends with, and, for a deadline in seconds, the timestamps of
  the samples the stream delivers and the status it finishes with. What it prints is its
  report; only the numbers of the last line are kept.
\<close>

section \<open>The program\<close>

datatype status_code = OK | DEADLINE_EXCEEDED | Other_code nat

record smoke_service =
  sv_GetStatus :: "string \<Rightarrow> status_code"
  sv_Subscribe :: "string \<Rightarrow> int \<Rightarrow> int list \<times> status_code"

text \<open>The loop over the arguments; \<open>None\<close> prints the usage.\<close>

fun smoke_args :: "string list \<Rightarrow> string \<times> int \<times> bool \<Rightarrow> (string \<times> int \<times> bool) option" where
  "smoke_args [] acc = Some acc"
| "smoke_args (arg # args) (endpoint, seconds, check_status) =
     (if arg = ''--endpoint'' \<and> args \<noteq> [] then smoke_args (tl args) (hd args, seconds, check_status)
      else if arg = ''--seconds'' \<and> args \<noteq> [] then smoke_args (tl args) (endpoint, atoi (hd args), check_status)
      else if arg = ''--status'' then smoke_args args (endpoint, seconds, True)
      else None)"

text \<open>
  The reading loop over (received, last_ts, monotonic). \<open>None\<close> stands for the undefined
  behaviour of incrementing the largest \<open>int\<close>.
\<close>

fun read_samples :: "int list \<Rightarrow> int \<times> int \<times> bool \<Rightarrow> (int \<times> int \<times> bool) option" where
  "read_samples [] acc = Some acc"
| "read_samples (timestamp # rest) (received, last_ts, monotonic) =
     (if \<not> int32_range (received + 1) then None
      else read_samples rest (received + 1, timestamp, if timestamp < last_ts then False else monotonic))"

definition deadline_ok :: "status_code \<Rightarrow> bool" where
  "deadline_ok status \<longleftrightarrow> status = OK \<or> status = DEADLINE_EXCEEDED"

datatype smoke_outcome = Exit int | Undefined_behaviour

definition smoke_stream :: "smoke_service \<Rightarrow> string \<Rightarrow> int \<Rightarrow> smoke_outcome" where
  "smoke_stream service endpoint seconds =
     (if \<not> int32_range (seconds + 5) then Undefined_behaviour
      else let (timestamps, status) = sv_Subscribe service endpoint (seconds + 5)
        in case read_samples timestamps (0, 0, True) of
             None \<Rightarrow> Undefined_behaviour
           | Some (received, _, monotonic) \<Rightarrow>
               if \<not> int32_range (seconds - 2) then Undefined_behaviour
               else Exit (if deadline_ok status \<and> monotonic \<and> received \<ge> max 1 (seconds - 2) then 0 else 1))"

definition smoke_main :: "(string \<Rightarrow> string option) \<Rightarrow> smoke_service \<Rightarrow> string list \<Rightarrow> smoke_outcome" where
  "smoke_main getenv service args =
     (case smoke_args args (DefaultEndpoint getenv, 10, False) of
        None \<Rightarrow> Exit 2
      | Some (endpoint, seconds, check_status) \<Rightarrow>
          if check_status \<and> sv_GetStatus service endpoint \<noteq> OK then Exit 1
          else smoke_stream service endpoint seconds)"

section \<open>The options\<close>

datatype smoke_option = Dial string | Seconds int | Check_status

fun smoke_render :: "smoke_option \<Rightarrow> string list" where
  "smoke_render (Dial a) = [''--endpoint'', a]"
| "smoke_render (Seconds n) = [''--seconds'', to_string n]"
| "smoke_render Check_status = [''--status'']"

fun smoke_apply :: "smoke_option \<Rightarrow> string \<times> int \<times> bool \<Rightarrow> string \<times> int \<times> bool" where
  "smoke_apply (Dial a) (e, s, c) = (a, s, c)"
| "smoke_apply (Seconds n) (e, s, c) = (e, n, c)"
| "smoke_apply Check_status (e, s, c) = (e, s, True)"

fun option_ok :: "smoke_option \<Rightarrow> bool" where
  "option_ok (Seconds n) = int32_range n"
| "option_ok _ = True"

lemma smoke_args_render:
  "list_all option_ok opts \<Longrightarrow> smoke_args (concat (map smoke_render opts)) acc = Some (fold smoke_apply opts acc)"
proof (induction opts arbitrary: acc)
  case (Cons opt opts)
  then show ?case by (cases opt; cases acc) (simp_all add: atoi_to_string)
qed simp

section \<open>The verdict\<close>

lemma read_samples_eq:
  assumes "0 \<le> received" and "received + int (length ts) < 2 ^ 31"
  shows "read_samples ts (received, last_ts, monotonic) =
    Some (received + int (length ts), last (last_ts # ts), monotonic \<and> sorted (last_ts # ts))"
  using assms
proof (induction ts arbitrary: received last_ts monotonic)
  case (Cons t ts)
  have "int32_range (received + 1)" using Cons.prems by (simp add: int32_range_def)
  then show ?case using Cons by (auto simp: algebra_simps)
qed simp

lemma smoke_stream_passes:
  assumes "sv_Subscribe service ep (seconds + 5) = (ts, status)" and "length ts < 2 ^ 31"
  shows "smoke_stream service ep seconds = Exit 0 \<longleftrightarrow>
    int32_range (seconds + 5) \<and> int32_range (seconds - 2) \<and> deadline_ok status \<and> sorted (0 # ts) \<and>
    max 1 (seconds - 2) \<le> int (length ts)"
proof -
  have "read_samples ts (0, 0, True) = Some (int (length ts), last (0 # ts), sorted (0 # ts))"
    using read_samples_eq [of 0 ts 0 True] assms(2) by simp
  then show ?thesis using assms(1) by (auto simp: smoke_stream_def simp del: sorted_simps)
qed

text \<open>
  An acceptance run passes exactly when the status call succeeded if it was asked
  for, the stream ended normally or by its deadline, the timestamps never went back
  (nor below zero), at least \<open>max 1 (seconds - 2)\<close> samples were read and neither sum with
  the seconds overflows an \<open>int\<close>.
\<close>

theorem smoke_verdict:
  assumes "list_all option_ok opts"
    and "fold smoke_apply opts (DefaultEndpoint getenv, 10, False) = (ep, seconds, check)"
    and "sv_Subscribe service ep (seconds + 5) = (ts, status)" and "length ts < 2 ^ 31"
  shows "smoke_main getenv service (concat (map smoke_render opts)) = Exit 0 \<longleftrightarrow>
    (check \<longrightarrow> sv_GetStatus service ep = OK) \<and> int32_range (seconds + 5) \<and> int32_range (seconds - 2) \<and>
    (status = OK \<or> status = DEADLINE_EXCEEDED) \<and> sorted (0 # ts) \<and> max 1 (seconds - 2) \<le> int (length ts)"
  using smoke_stream_passes [OF assms(3,4)] smoke_args_render [OF assms(1), of "(DefaultEndpoint getenv, 10, False)"]
    assms(2) by (auto simp: smoke_main_def deadline_ok_def simp del: sorted_simps)

definition demo_service :: smoke_service where
  "demo_service = \<lparr>sv_GetStatus = (\<lambda>_. OK), sv_Subscribe = (\<lambda>_ s. (upto 1 s, DEADLINE_EXCEEDED))\<rparr>"

theorem smoke_verdict_witness:
  "smoke_main (\<lambda>_. None) demo_service [''--seconds'', to_string 3, ''--status''] = Exit 0 \<and>
   smoke_main (\<lambda>_. None) (demo_service\<lparr>sv_Subscribe := \<lambda>_ _. ([5, 4], OK)\<rparr>) [''--seconds'', to_string 3] \<noteq> Exit 0"
  using smoke_verdict [of "[Seconds 3, Check_status]" "\<lambda>_. None" "DefaultEndpoint (\<lambda>_. None)" 3 True demo_service
      "upto 1 8" DEADLINE_EXCEEDED]
    smoke_verdict [of "[Seconds 3]" "\<lambda>_. None" "DefaultEndpoint (\<lambda>_. None)" 3 False
      "demo_service\<lparr>sv_Subscribe := \<lambda>_ _. ([5, 4], OK)\<rparr>" "[5, 4]" OK]
  by (simp add: demo_service_def int32_range_def)

end
