(* ===== verification/Switch_Runs.thy ===== *)
theory Switch_Runs
  imports Command_Service
begin

text \<open>
  Switches of several clients. \<open>SwitchTo\<close> holds the manager's mutex, so whatever clients call
  it, the manager runs a sequence of switches: here that sequence refines an abstract
  manager whose state is the system and the active profile. \<open>ListProfiles\<close> takes the mutex
  twice, and switches may come in between: its answer is shown to be that of one state.
\<close>

section \<open>Sequences of switches\<close>

fun switch_run :: "'b json_library \<Rightarrow> 'b \<Rightarrow> 'e manager_config \<Rightarrow> (int \<times> string) list \<Rightarrow> ('b, 'e) manager_state \<Rightarrow>
    (json_error + switch_result) list \<times> ('b, 'e) manager_state" where
  "switch_run lib no_bytes cfg [] st = ([], st)"
| "switch_run lib no_bytes cfg ((now, pid) # calls) st =
     (let (r, st) = SwitchTo lib no_bytes cfg now pid st; (rs, st) = switch_run lib no_bytes cfg calls st
      in (r # rs, st))"

section \<open>The abstract manager\<close>

text \<open>Its state: the system, and the id of the active profile. A call applies a profile or changes nothing.\<close>

definition spec_switch :: "'e executor list \<Rightarrow> (string \<Rightarrow> profile option) \<Rightarrow> string \<Rightarrow> 'e \<times> string \<Rightarrow> bool \<times> 'e \<times> string" where
  "spec_switch exs profiles pid s =
     (case Option.bind (profiles pid) (\<lambda>p. apply_all exs (prof_settings p) (fst s)) of
        None \<Rightarrow> (False, s)
      | Some e \<Rightarrow> (True, e, pid))"

fun spec_run :: "'e executor list \<Rightarrow> (string \<Rightarrow> profile option) \<Rightarrow> string list \<Rightarrow> 'e \<times> string \<Rightarrow> bool list \<times> 'e \<times> string" where
  "spec_run exs profiles [] s = ([], s)"
| "spec_run exs profiles (pid # pids) s =
     (let (b, s) = spec_switch exs profiles pid s; (bs, s) = spec_run exs profiles pids s in (b # bs, s))"

text \<open>What the abstract manager sees of the concrete one.\<close>

definition abs_manager :: "'b json_library \<Rightarrow> ('b, 'e) manager_state \<Rightarrow> 'e \<times> string" where
  "abs_manager lib st = (pm_env st, pm_ActiveId lib st)"

text \<open>A healthy disk from which \<open>Get\<close> reads \<open>profiles\<close>, none of them in the file of the active id.\<close>

definition shelf_ok :: "'b json_library \<Rightarrow> (string \<Rightarrow> profile option) \<Rightarrow> string set \<Rightarrow> 'b file_system \<Rightarrow> bool" where
  "shelf_ok lib profiles pids fs \<longleftrightarrow> fs_healthy fs \<and>
     (\<forall>pid \<in> pids. canon fs (pid @ ''.json'') \<noteq> canon fs ''active.json'' \<and> store_Get lib fs pid = Inr (profiles pid))"

section \<open>One switch\<close>

lemma SwitchTo_canon: "canon (pm_fs (snd (SwitchTo lib no_bytes cfg now pid st))) = canon (pm_fs st)"
  by (auto simp: SwitchTo_def store_SetActiveId_def split: sum.splits option.splits switch_run.splits prod.splits)

lemma SwitchTo_healthy: "fs_healthy (pm_fs (snd (SwitchTo lib no_bytes cfg now pid st))) = fs_healthy (pm_fs st)"
  by (auto simp: SwitchTo_def store_SetActiveId_def split: sum.splits option.splits switch_run.splits prod.splits)

lemma apply_all_keeps:
  assumes "\<forall>ex \<in> set exs. transactional P ex" and "P e" and "apply_all exs settings e = Some e'"
  shows "P e'"
  using assms
proof (induction exs settings e rule: apply_all.induct)
  case (2 exs key desired rest e)
  then obtain ex where ex: "FindExecutor exs key = Some ex" and ok: "Available ex e" "applied_ok ex desired e"
    and rest: "apply_all exs rest (after_apply ex desired e) = Some e'"
    by (auto split: option.splits if_splits)
  have "transactional P ex" using "2.prems"(1) FindExecutor_Some [OF ex] by blast
  then have "P (after_apply ex desired e)" using "2.prems"(2) by (rule transactionalD(1))
  then show ?case using "2.IH" [OF ex _ "2.prems"(1) _ rest] ok by simp
qed simp

lemma SwitchTo_total:
  assumes "json_library_ok lib" and "utf8 pid" and "store_Get lib (pm_fs st) pid = Inr found"
  obtains r st' where "SwitchTo lib no_bytes cfg now pid st = (Inr r, st')"
proof -
  obtain b where "dump lib (JObject [(''active'', JString pid)]) = Some b"
    using dump_utf8 [OF assms(1), of "JObject [(''active'', JString pid)]"] assms(2) by auto
  then have "\<exists>r. fst (SwitchTo lib no_bytes cfg now pid st) = Inr r"
    using assms(3) by (auto simp: SwitchTo_def store_SetActiveId_def split: option.splits switch_run.splits)
  then show thesis using that by (metis prod.collapse)
qed

lemma SwitchTo_step:
  assumes "json_library_ok lib" and "\<forall>pid \<in> pids. utf8 pid" and "\<forall>ex \<in> set (executors cfg). transactional P ex"
    and "P (pm_env st)" and "shelf_ok lib profiles pids (pm_fs st)" and "pid \<in> pids"
  shows "\<exists>r st'. SwitchTo lib no_bytes cfg now pid st = (Inr r, st') \<and> P (pm_env st') \<and>
    shelf_ok lib profiles pids (pm_fs st') \<and>
    spec_switch (executors cfg) profiles pid (abs_manager lib st) = (sr_ok r, abs_manager lib st')"
proof -
  have h: "fs_healthy (pm_fs st)" and get: "store_Get lib (pm_fs st) pid = Inr (profiles pid)"
    using assms(5,6) by (auto simp: shelf_ok_def)
  obtain r st' where run: "SwitchTo lib no_bytes cfg now pid st = (Inr r, st')"
    using SwitchTo_total [OF assms(1) _ get] assms(2,6) by blast
  show ?thesis
  proof (cases "profiles pid")
    case None
    then have "st' = st" "\<not> sr_ok r" using run get by (auto simp: SwitchTo_def)
    then show ?thesis using assms(4,5) run None by (simp add: spec_switch_def)
  next
    case (Some p)
    note get = get [unfolded Some]
    note refines = switch_refines [OF assms(3,4) get run]
    show ?thesis
    proof (cases "apply_all (executors cfg) (prof_settings p) (pm_env st)")
      case None
      then have "\<not> sr_ok r" "pm_env st' = pm_env st" "pm_fs st' = pm_fs st" using refines by simp_all
      then show ?thesis
        using assms(4,5) run Some None by (simp add: spec_switch_def abs_manager_def pm_ActiveId_def)
    next
      case (Some e)
      then have ok: "sr_ok r" and e: "pm_env st' = e" using refines by simp_all
      note success = switch_success [OF assms(1) h get run ok]
      have "shelf_ok lib profiles pids (pm_fs st')"
        using success SwitchTo_canon [of lib no_bytes cfg now pid st] SwitchTo_healthy [of lib no_bytes cfg now pid st] assms(5)
        by (simp add: run shelf_ok_def)
      moreover have "P e" by (rule apply_all_keeps [OF assms(3,4) Some])
      ultimately show ?thesis
        using run ok e success Some \<open>profiles pid = Some p\<close> by (simp add: spec_switch_def abs_manager_def)
    qed
  qed
qed

lemma switch_run_step:
  assumes "json_library_ok lib" and "\<forall>pid \<in> pids. utf8 pid" and "\<forall>ex \<in> set (executors cfg). transactional P ex"
    and "P (pm_env st)" and "shelf_ok lib profiles pids (pm_fs st)" and "snd ` set calls \<subseteq> pids"
  shows "\<exists>rs st'. switch_run lib no_bytes cfg calls st = (map Inr rs, st') \<and> P (pm_env st') \<and>
    shelf_ok lib profiles pids (pm_fs st') \<and>
    spec_run (executors cfg) profiles (map snd calls) (abs_manager lib st) = (map sr_ok rs, abs_manager lib st')"
  using assms(4-6)
proof (induction calls arbitrary: st)
  case Nil
  then show ?case by (intro exI [of _ "[]"]) simp
next
  case (Cons call calls)
  obtain now pid where call: "call = (now, pid)" by (cases call)
  with Cons.prems(3) have "pid \<in> pids" by simp
  from SwitchTo_step [OF assms(1-3) Cons.prems(1,2) this, of no_bytes now]
  obtain r st1 where one: "SwitchTo lib no_bytes cfg now pid st = (Inr r, st1)" "P (pm_env st1)"
      "shelf_ok lib profiles pids (pm_fs st1)"
      "spec_switch (executors cfg) profiles pid (abs_manager lib st) = (sr_ok r, abs_manager lib st1)" by blast
  from Cons.IH [OF one(2,3)] Cons.prems(3)
  obtain rs st' where "switch_run lib no_bytes cfg calls st1 = (map Inr rs, st')" "P (pm_env st')"
      "shelf_ok lib profiles pids (pm_fs st')"
      "spec_run (executors cfg) profiles (map snd calls) (abs_manager lib st1) = (map sr_ok rs, abs_manager lib st')"
    by auto
  then show ?case using one(1,4) by (intro exI [of _ "r # rs"] exI [of _ st']) (simp add: call)
qed


text \<open>
  Without valid UTF-8 the switch throws, after its settings were applied: the system is
  changed, the active profile is not, and nobody is told.
\<close>

lemma switch_to_invalid_utf8_throws:
  assumes "json_library_ok lib" and "\<not> utf8 pid" and "fs_healthy (pm_fs st)"
    and "store_Get lib (pm_fs st) pid = Inr (Some p)"
    and "apply_settings (executors cfg) [] (prof_settings p) (pm_env st) = Completed e"
  shows "\<exists>st'. SwitchTo lib no_bytes cfg now pid st = (Inl InvalidUtf8, st') \<and> pm_env st' = e \<and> pm_bus st' = pm_bus st"
proof -
  have "dump lib (JObject [(''active'', JString pid)]) = None"
    using assms(1,2) by (simp add: json_library_ok_def)
  then show ?thesis using assms(3-5) by (simp add: SwitchTo_def store_SetActiveId_def fs_healthy_def)
qed

section \<open>Listing between switches\<close>

text \<open>A profile file's name ends in \<open>.json\<close>.\<close>

lemma profile_file_name:
  assumes "is_profile_file f"
  obtains j where "f = j @ ''.json''"
proof -
  let ?tail = "takeWhile (\<lambda>c. c \<noteq> CHR ''.'') (rev f)" and ?rest = "dropWhile (\<lambda>c. c \<noteq> CHR ''.'') (rev f)"
  have ext: "extension f = ''.json''" using assms by (simp add: is_profile_file_def)
  then have n: "\<not> length f - length ?tail \<le> 1" and tail: "CHR ''.'' # rev ?tail = ''.json''"
    by (auto simp: extension_def Let_def split: if_splits)
  have split: "f = rev ?rest @ rev ?tail" by (metis rev_append rev_rev_ident takeWhile_dropWhile_id)
  have "length f = length ?tail + length ?rest" using arg_cong [OF split, of length] by simp
  then have "length ?rest > 0" using n by linarith
  then have "?rest \<noteq> []" by (rule length_greater_0_conv [THEN iffD1])
  then have "?rest = CHR ''.'' # tl ?rest" using hd_dropWhile [of "\<lambda>c. c \<noteq> CHR ''.''" "rev f"] by (metis list.collapse)
  then have "rev ?rest = rev (tl ?rest) @ ''.''" by (metis rev.simps(2))
  then have "f = rev (tl ?rest) @ ''.json''" using split tail by simp
  then show thesis by (rule that)
qed

text \<open>No profile file is another spelling of \<open>active.json\<close>.\<close>

definition active_apart :: "'b file_system \<Rightarrow> bool" where
  "active_apart fs \<longleftrightarrow> (\<forall>f \<in> set (dir_files fs). is_profile_file f \<longrightarrow> canon fs f \<noteq> canon fs ''active.json'')"

abbreviation profile_files :: "(string \<times> 'b) list \<Rightarrow> string list" where
  "profile_files es \<equiv> filter (\<lambda>f. in_directory f \<and> is_profile_file f) (map fst es)"

lemma profile_files_put: "\<not> is_profile_file name \<Longrightarrow> profile_files (put_entry cn name b es) = profile_files es"
  by (induction cn name b es rule: put_entry.induct) simp_all

lemma profile_files_del:
  assumes "\<And>f. is_profile_file f \<Longrightarrow> cn f \<noteq> cn name"
  shows "profile_files (del_entry cn name es) = profile_files es"
  using assms by (induction es) (auto simp: del_entry_def)

lemma parse_files_cong:
  assumes "profile_files (entries fs) = profile_files (entries fs')"
    and "\<And>f. f \<in> set (profile_files (entries fs)) \<Longrightarrow> ParseProfileFile lib fs f = ParseProfileFile lib fs' f"
  shows "parse_files lib fs (dir_files fs) = parse_files lib fs' (dir_files fs')"
proof -
  have "parse_files lib fs files = parse_files lib fs' files" if "set files \<subseteq> set (profile_files (entries fs))" for files
    using that assms(2) by (induction files) (auto split: sum.splits)
  moreover have "parse_files lib g (dir_files g) = parse_files lib g (profile_files (entries g))" for g :: "'a file_system"
    using parse_files_filter [of lib g "dir_files g"] by (simp add: dir_files_def)
  ultimately show ?thesis using assms(1) by (metis subset_refl)
qed

lemma SetActiveId_List:
  assumes "fs_healthy fs" and "active_apart fs" and "store_SetActiveId lib no_bytes fs i = (Inr u, fs')"
  shows "store_List lib fs' = store_List lib fs \<and> active_apart fs'"
proof -
  obtain b where b: "dump lib (JObject [(''active'', JString i)]) = Some b"
    and fs': "fs' = snd (rename_file (write_file fs ''active.json.tmp'' b) ''active.json.tmp'' ''active.json'')"
    using assms(1,3) by (auto simp: store_SetActiveId_def fs_healthy_def split: option.splits)
  note replaced = replace_file [OF assms(1), of "''active''" b, simplified, folded fs']
  have apart: "canon fs f \<noteq> canon fs ''active.json.tmp''" if pf: "is_profile_file f" for f
  proof -
    obtain j where "f = j @ ''.json''" by (rule profile_file_name [OF pf])
    moreover have "canon fs (''active'' @ ''.json.tmp'') \<noteq> canon fs (j @ ''.json'')"
      using assms(1) unfolding fs_healthy_def by blast
    ultimately show ?thesis by simp
  qed
  have not_profile: "\<not> is_profile_file ''active.json''" "\<not> is_profile_file ''active.json.tmp''" by code_simp+
  have c: "canon fs' = canon fs" by (simp add: fs')
  have "profile_files (del_entry (canon fs) ''active.json.tmp'' es) = profile_files es" for es :: "(string \<times> 'a) list"
    by (rule profile_files_del) (rule apart)
  then have names: "profile_files (entries fs') = profile_files (entries fs)"
    using not_profile
    by (auto simp: fs' rename_file_def write_file_def profile_files_put split: option.splits)
  have apart_iff: "active_apart g \<longleftrightarrow> (\<forall>f \<in> set (profile_files (entries g)). canon g f \<noteq> canon g ''active.json'')" for g :: "'a file_system"
    by (auto simp: active_apart_def dir_files_def)
  have apart': "active_apart fs'" using assms(2) by (simp only: apart_iff names c)
  have "ParseProfileFile lib fs f = ParseProfileFile lib fs' f" if "f \<in> set (profile_files (entries fs))" for f
  proof -
    have "canon fs f \<noteq> canon fs ''active.json''" "canon fs f \<noteq> canon fs ''active.json.tmp''"
      using that assms(2) apart by (auto simp: active_apart_def dir_files_def)
    then have "lookup fs' f = lookup fs f" using replaced(3) [of f] by simp
    then have "read_file fs f = read_file fs' f" using assms(1) by (simp add: read_file_def fs_healthy_def fs')
    moreover have "narrow fs = narrow fs'" by (simp add: fs')
    ultimately show ?thesis by (intro ParseProfileFile_cong) simp_all
  qed
  then have "parse_files lib fs (dir_files fs) = parse_files lib fs' (dir_files fs')"
    by (intro parse_files_cong) (simp_all add: names)
  moreover have "fs_healthy fs'" using assms(1) by (simp add: fs')
  ultimately show ?thesis using apart' assms(1) by (simp add: store_List_healthy)
qed

lemma SwitchTo_List:
  assumes "fs_healthy (pm_fs st)" and "active_apart (pm_fs st)" and "SwitchTo lib no_bytes cfg now pid st = (Inr r, st')"
  shows "pm_List lib st' = pm_List lib st \<and> fs_healthy (pm_fs st') \<and> active_apart (pm_fs st')"
proof -
  have "fs_healthy (pm_fs st')" using SwitchTo_healthy [of lib no_bytes cfg now pid st] assms(1,3) by simp
  moreover have "pm_fs st' = pm_fs st \<or> (\<exists>u. store_SetActiveId lib no_bytes (pm_fs st) pid = (Inr u, pm_fs st'))"
    using assms(3) by (auto simp: SwitchTo_def split: sum.splits option.splits switch_run.splits prod.splits)
  ultimately show ?thesis
    using SetActiveId_List [OF assms(1,2)] assms(2) by (auto simp: pm_List_def)
qed

lemma switch_run_List:
  assumes "fs_healthy (pm_fs st)" and "active_apart (pm_fs st)" and "switch_run lib no_bytes cfg calls st = (map Inr rs, st')"
  shows "pm_List lib st' = pm_List lib st"
  using assms
proof (induction calls arbitrary: st rs)
  case (Cons call calls)
  obtain now pid where call: "call = (now, pid)" by (cases call)
  obtain x st1 where one: "SwitchTo lib no_bytes cfg now pid st = (x, st1)" by (cases "SwitchTo lib no_bytes cfg now pid st")
  obtain xs st2 where more: "switch_run lib no_bytes cfg calls st1 = (xs, st2)" by (cases "switch_run lib no_bytes cfg calls st1")
  have "x # xs = map Inr rs" "st2 = st'" using Cons.prems(3) one more by (simp_all add: call)
  then obtain r rs' where "x = Inr r" "xs = map Inr rs'" "st2 = st'" by (cases rs) auto
  with one more SwitchTo_List [OF Cons.prems(1,2)] Cons.IH show ?case by metis
qed simp


section \<open>Properties\<close>

text \<open>
  C2: whatever sequence of switches the clients of the service cause, on a healthy disk and
  over transactional executors the manager behaves as the abstract one does: call by call it
  succeeds exactly when every setting of the profile can be applied, and at the end the
  system and the active profile are those of the abstract run; no call throws. The ids in
  the calls are valid UTF-8, as those of protocol messages are, each can be read from the disk
  or is not there, and none names the file of the active id.
\<close>

theorem switch_sequence_refines:
  assumes "json_library_ok lib" and "\<forall>pid \<in> pids. utf8 pid" and "\<forall>ex \<in> set (executors cfg). transactional P ex"
    and "P (pm_env st)" and "shelf_ok lib profiles pids (pm_fs st)" and "snd ` set calls \<subseteq> pids"
    and "switch_run lib no_bytes cfg calls st = (results, st')"
  shows "\<exists>rs. results = map Inr rs \<and>
    spec_run (executors cfg) profiles (map snd calls) (pm_env st, pm_ActiveId lib st) =
      (map sr_ok rs, pm_env st', pm_ActiveId lib st')"
  using switch_run_step [OF assms(1-6), of no_bytes] assms(7) by (auto simp: abs_manager_def)

text \<open>
  C35: the answer to \<open>ListProfiles\<close>, which reads the profiles and the active id one after the
  other, is the answer a single reading of the state at its end would give, whatever switches
  other clients complete in between; on a healthy disk on which no profile file is another
  spelling of \<open>active.json\<close>.
\<close>

theorem list_answer_of_one_state:
  assumes "fs_healthy (pm_fs st)" and "active_apart (pm_fs st)" and "switch_run lib no_bytes cfg calls st = (map Inr rs, st')"
  shows "rpc_ListProfiles lib st st' = rpc_ListProfiles lib st' st'"
  using switch_run_List [OF assms] by (simp add: rpc_ListProfiles_def)

lemma quiet_states: "demo_states (pm_env quiet_state)"
  by (simp add: quiet_state_def demo_states_def guid_ok_def kBalanced_def)

lemma demo_transactional: "\<forall>ex \<in> set (executors demo_config). transactional demo_states ex"
  using service_executors_transactional [OF demo_power_ok demo_monitor_ok] by simp

lemma quiet_no_z: "store_Get identity_json (pm_fs quiet_state) ''z'' = Inr None"
  by (simp add: store_Get_def ParseProfileFile_def read_file_def lookup_def quiet_state_def plain_disk_def)

lemma quiet_applies_all: "apply_all (executors demo_config) (prof_settings quiet_profile) (pm_env quiet_state) = Some (kPowerSaver, 30)"
  by (simp add: quiet_profile_def quiet_state_def service_executors_def FindExecutor_def
      PowerPlanExecutor_def power_Apply_def AliasToGuid_def demo_power_def)
    (simp add: guid_ok_def kPowerSaver_def)

lemma quiet_shelf:
  "shelf_ok identity_json (\<lambda>i. if i = ''q'' then Some quiet_profile else None) {''q'', ''z''} (pm_fs quiet_state)"
proof -
  have "fs_healthy (pm_fs quiet_state)" by (simp add: quiet_state_def)
  moreover have "canon (pm_fs quiet_state) n = n" for n by (simp add: quiet_state_def plain_disk_def)
  ultimately show ?thesis using quiet_Get quiet_no_z by (simp add: shelf_ok_def)
qed

theorem switch_sequence_refines_witness:
  "\<exists>rs st'. switch_run identity_json JNull demo_config [(7, ''q''), (8, ''z'')] quiet_state = (map Inr rs, st') \<and>
     map sr_ok rs = [True, False] \<and> pm_env st' = (kPowerSaver, 30) \<and> pm_ActiveId identity_json st' = ''q''"
proof -
  obtain results st' where run: "switch_run identity_json JNull demo_config [(7, ''q''), (8, ''z'')] quiet_state = (results, st')"
    by (cases "switch_run identity_json JNull demo_config [(7, ''q''), (8, ''z'')] quiet_state")
  note P = quiet_states
  note t = demo_transactional
  have d: "\<forall>pid \<in> {''q'', ''z''}. utf8 pid" by simp
  have calls: "snd ` set [(7 :: int, ''q''), (8, ''z'')] \<subseteq> {''q'', ''z''}" by simp
  from switch_sequence_refines [OF identity_json_ok d t P quiet_shelf calls run]
  obtain rs where rs: "results = map Inr rs"
    and spec: "spec_run (executors demo_config) (\<lambda>i. if i = ''q'' then Some quiet_profile else None)
      (map snd [(7 :: int, ''q''), (8, ''z'')]) (pm_env quiet_state, pm_ActiveId identity_json quiet_state) =
      (map sr_ok rs, pm_env st', pm_ActiveId identity_json st')" by blast
  have "spec_run (executors demo_config) (\<lambda>i. if i = ''q'' then Some quiet_profile else None)
      (map snd [(7 :: int, ''q''), (8, ''z'')]) (pm_env quiet_state, pm_ActiveId identity_json quiet_state) =
      ([True, False], (kPowerSaver, 30), ''q'')"
    using quiet_applies_all by (simp add: spec_switch_def)
  then show ?thesis using run rs spec by auto
qed

theorem list_answer_of_one_state_witness:
  "\<exists>r st'. switch_run identity_json JNull demo_config [(7, ''q'')] quiet_state = ([Inr r], st') \<and>
     rpc_ListProfiles identity_json quiet_state st' = rpc_ListProfiles identity_json st' st'"
proof -
  obtain r st' where sw: "SwitchTo identity_json JNull demo_config 7 ''q'' quiet_state = (Inr r, st')"
    using quiet_switch by blast
  have run: "switch_run identity_json JNull demo_config [(7, ''q'')] quiet_state = (map Inr [r], st')"
    by (simp add: sw del: manager_config.simps)
  have healthy: "fs_healthy (pm_fs quiet_state)" by (simp add: quiet_state_def)
  have apart: "active_apart (pm_fs quiet_state)" by (simp add: active_apart_def dir_files_def quiet_state_def plain_disk_def)
  from list_answer_of_one_state [OF healthy apart run] run show ?thesis by auto
qed


text \<open>
  A profile id from a call is used as part of a path: an id with a separator makes \<open>SwitchTo\<close>
  apply a profile file of another directory, which no listing shows.
\<close>

theorem unlisted_file_switchable:
  assumes "json_library_ok lib" and "utf8 pid" and "\<forall>ex \<in> set (executors cfg). transactional P ex"
    and "P (pm_env st)" and "store_Get lib (pm_fs st) pid = Inr (Some p)" and "\<not> in_directory pid"
    and "apply_all (executors cfg) (prof_settings p) (pm_env st) = Some e"
  shows "pid @ ''.json'' \<notin> set (dir_files (pm_fs st)) \<and>
    (\<exists>r st'. SwitchTo lib no_bytes cfg now pid st = (Inr r, st') \<and> sr_ok r \<and> pm_env st' = e)"
proof -
  obtain r st' where run: "SwitchTo lib no_bytes cfg now pid st = (Inr r, st')"
    using SwitchTo_total [OF assms(1,2,5)] .
  then show ?thesis
    using switch_refines [OF assms(3,4,5) run] assms(6,7) by (simp add: dir_files_def)
qed

definition outside_state :: "(json, guid \<times> u32) manager_state" where
  "outside_state = quiet_state\<lparr>pm_fs := plain_disk [(''../q.json'', json_of_profile quiet_profile)]\<rparr>"

theorem unlisted_file_switchable_witness:
  "pm_List identity_json outside_state = Inr [] \<and>
   (\<exists>r st'. SwitchTo identity_json JNull demo_config 7 ''../q'' outside_state = (Inr r, st') \<and> sr_ok r \<and>
      pm_env st' = (kPowerSaver, 30))"
proof -
  have "lookup (pm_fs outside_state) ''../q.json'' = Some (json_of_profile quiet_profile)"
    by (simp add: lookup_def outside_state_def plain_disk_def)
  then have "ParseProfileFile identity_json (pm_fs outside_state) ''../q.json'' = Inr (Some quiet_profile)"
    by (intro ParseProfileFile_saved [OF identity_json_ok]) (simp_all add: outside_state_def, simp_all add: quiet_profile_def)
  then have get: "store_Get identity_json (pm_fs outside_state) ''../q'' = Inr (Some quiet_profile)"
    by (simp add: store_Get_def)
  have env: "pm_env outside_state = pm_env quiet_state" by (simp add: outside_state_def)
  have "\<not> in_directory ''../q''" "\<not> in_directory ''../q.json''" by code_simp+
  then have "pm_List identity_json outside_state = Inr []"
    by (simp add: pm_List_def store_List_def dir_files_def outside_state_def plain_disk_def)
  moreover have "utf8 ''../q''" by code_simp
  ultimately show ?thesis
    using unlisted_file_switchable [OF identity_json_ok _ demo_transactional _ get \<open>\<not> in_directory ''../q''\<close>, of "(kPowerSaver, 30)" JNull 7]
      quiet_states quiet_applies_all by (simp add: env)
qed

end
