(* ===== verification/Client_Switch.thy ===== *)
theory Client_Switch
  imports Client_Worker Switch_Runs
begin

text \<open>
  A profile switch from the click to the screen: the client's queued \<open>SwitchProfile\<close> slot,
  the service's \<open>SwitchProfile\<close> and \<open>ListProfiles\<close> handlers on the state of the profile
  manager, and what the user interface shows of the signals; with the deadlines of the two
  calls, failures of the transport, and the switches of other clients in between.
\<close>

section \<open>The round trip\<close>

text \<open>What the client sees of a handler that threw: gRPC answers with an error status.\<close>

definition rpc_answer :: "(json_error \<Rightarrow> string) \<Rightarrow> json_error + 'r \<Rightarrow> 'r rpc_result" where
  "rpc_answer error_text r = (case r of Inl err \<Rightarrow> RpcFailed (error_text err) | Inr response \<Rightarrow> RpcOk response)"

text \<open>The slots post their work to the worker's thread, which runs it in order.\<close>

datatype posted = Post_Refresh | Post_Switch string

definition RefreshProfiles :: "posted list \<Rightarrow> posted list" where
  "RefreshProfiles queue = queue @ [Post_Refresh]"

definition SwitchProfile :: "string \<Rightarrow> posted list \<Rightarrow> posted list" where
  "SwitchProfile profile_id queue = queue @ [Post_Switch profile_id]"

record 'b client_link =
  cl_json :: "'b json_library"
  cl_no_bytes :: 'b
  cl_error_text :: "json_error \<Rightarrow> string"

text \<open>
  What becomes of a call the client makes: its handler ran and the answer came back before
  the deadline (5 seconds for \<open>SwitchProfile\<close>, 3 for \<open>ListProfiles\<close>); its handler ran, but the
  client gave up at the deadline or lost the connection and has only the text of a status;
  or it did not reach the service. A handler that runs only later, after further calls, is a
  call that did not reach the service followed by a switch of somebody else.
\<close>

datatype delivery = Answered | Unanswered string | Undelivered string

text \<open>
  The circumstances of one call: whether there is a channel, the switches other callers have
  run by then (with the service's clock at each), what becomes of it, the service's clock,
  and the switches others run between the two readings \<open>ListProfiles\<close> takes.
\<close>

record call_turn =
  ct_channel :: bool
  ct_before :: "(int \<times> string) list"
  ct_delivery :: delivery
  ct_now :: int
  ct_between :: "(int \<times> string) list"

definition call_ListProfiles :: "'b client_link \<Rightarrow> 'e manager_config \<Rightarrow> call_turn \<Rightarrow> ('b, 'e) manager_state \<Rightarrow>
    list_profiles_response rpc_result \<times> ('b, 'e) manager_state" where
  "call_ListProfiles link cfg t st =
     (let st1 = snd (switch_run (cl_json link) (cl_no_bytes link) cfg (ct_before t) st);
          st2 = snd (switch_run (cl_json link) (cl_no_bytes link) cfg (ct_between t) st1)
      in (case ct_delivery t of
            Answered \<Rightarrow> rpc_answer (cl_error_text link) (rpc_ListProfiles (cl_json link) st1 st2)
          | Unanswered why \<Rightarrow> RpcFailed why
          | Undelivered why \<Rightarrow> RpcFailed why, st2))"

definition call_SwitchProfile :: "'b client_link \<Rightarrow> 'e manager_config \<Rightarrow> call_turn \<Rightarrow> string \<Rightarrow> ('b, 'e) manager_state \<Rightarrow>
    switch_profile_response rpc_result \<times> ('b, 'e) manager_state" where
  "call_SwitchProfile link cfg t pid st =
     (let st1 = snd (switch_run (cl_json link) (cl_no_bytes link) cfg (ct_before t) st)
      in if \<not> ct_channel t then (RpcFailed '''', st1)
         else let (r, st2) = rpc_SwitchProfile (cl_json link) (cl_no_bytes link) cfg (ct_now t) pid st1
           in case ct_delivery t of
                Answered \<Rightarrow> (rpc_answer (cl_error_text link) r, st2)
              | Unanswered why \<Rightarrow> (RpcFailed why, st2)
              | Undelivered why \<Rightarrow> (RpcFailed why, st1))"

text \<open>
  One posted piece of work, in the circumstances of its call and of the refresh a switch asks
  for when it succeeded: its signals and the service's new state. The switches of others
  happen whether or not the client asks.
\<close>

record post_turn =
  pt_call :: call_turn
  pt_refresh :: call_turn

definition run_posted :: "'b client_link \<Rightarrow> 'e manager_config \<Rightarrow> posted \<Rightarrow> post_turn \<Rightarrow> ('b, 'e) manager_state \<Rightarrow>
    ui_signal list \<times> ('b, 'e) manager_state" where
  "run_posted link cfg job t st =
     (case job of
        Post_Refresh \<Rightarrow>
          (let (r, st1) = call_ListProfiles link cfg (pt_call t) st
           in (RefreshProfilesInternal (ct_channel (pt_call t)) r, st1))
      | Post_Switch pid \<Rightarrow>
          (let (r, st1) = call_SwitchProfile link cfg (pt_call t) pid st;
               (refresh, st2) = call_ListProfiles link cfg (pt_refresh t) st1
           in (SwitchProfileInternal (ct_channel (pt_call t)) r (ct_channel (pt_refresh t)) refresh, st2)))"

fun run_queue :: "'b client_link \<Rightarrow> 'e manager_config \<Rightarrow> posted list \<Rightarrow> post_turn list \<Rightarrow> ('b, 'e) manager_state \<Rightarrow>
    ui_signal list \<times> ('b, 'e) manager_state" where
  "run_queue link cfg (job # jobs) (t # ts) st =
     (let (signals, st) = run_posted link cfg job t st; (more, st) = run_queue link cfg jobs ts st
      in (signals @ more, st))"
| "run_queue link cfg _ _ st = ([], st)"

section \<open>Lemmas\<close>

lemma run_queue_append:
  "length ts = length a \<Longrightarrow> run_queue link cfg (a @ b) (ts @ us) st =
     (let (x, st) = run_queue link cfg a ts st; (y, st) = run_queue link cfg b us st in (x @ y, st))"
  by (induction ts a arbitrary: st rule: list_induct2) (simp_all add: split_beta Let_def)

lemma switch_run_append:
  "switch_run lib nb cfg (a @ b) st =
     (let (x, st) = switch_run lib nb cfg a st; (y, st) = switch_run lib nb cfg b st in (x @ y, st))"
  by (induction a arbitrary: st) (auto simp: split_beta Let_def)

lemma rpc_SwitchProfile_eq:
  "SwitchTo lib nb cfg now pid st = (Inr r, st') \<Longrightarrow>
     rpc_SwitchProfile lib nb cfg now pid st =
       (Inr \<lparr>sp_ok = sr_ok r, sp_message = sr_message r, sp_rolled_back_keys = sr_rolled_back_keys r\<rparr>, st')"
  by (simp add: rpc_SwitchProfile_def)

lemma rpc_ListProfiles_eq:
  "pm_List lib st = Inr ps \<Longrightarrow>
     rpc_ListProfiles lib st st' = Inr \<lparr>lr_profiles = map profile_to_proto ps, lr_active_profile_id = pm_ActiveId lib st'\<rparr>"
  by (simp add: rpc_ListProfiles_def)

text \<open>The rows of the list after a refresh.\<close>

definition shows_profiles :: "profile_model \<Rightarrow> profile list \<Rightarrow> string \<Rightarrow> bool" where
  "shows_profiles pm ps active \<longleftrightarrow> profile_rowCount False pm = length ps \<and>
     (\<forall>k < length ps. profile_data pm True (int k) (UserRole + 1) = Some (VString (prof_id (ps ! k))) \<and>
        profile_data pm True (int k) (UserRole + 2) = Some (VString (prof_name (ps ! k))) \<and>
        profile_data pm True (int k) (UserRole + 4) = Some (VBool (prof_id (ps ! k) = active)))"

lemma refresh_shows:
  assumes "pm_List lib st = Inr ps"
  shows "shows_profiles (ui_profiles (fold (ui_receive fmt clock)
    (RefreshProfilesInternal True (rpc_answer txt (rpc_ListProfiles lib st st'))) ui)) ps (pm_ActiveId lib st')"
  unfolding shows_profiles_def
  by (simp add: rpc_ListProfiles_eq [OF assms] rpc_answer_def RefreshProfilesInternal_def ui_receive_def SetProfiles_def
      profile_rows_eq profile_rowCount_def profile_data_def UserRole_def map_value_def profile_map_def profile_to_proto_def)

lemma refresh_keeps_notifications:
  "ui_notifications (fold (ui_receive fmt clock) (RefreshProfilesInternal channel a) ui) = ui_notifications ui"
  by (cases a) (simp_all add: RefreshProfilesInternal_def ui_receive_def)

lemma failed_refresh [simp]: "RefreshProfilesInternal channel (RpcFailed why) = []" "RefreshProfilesInternal False a = []"
  by (simp_all add: RefreshProfilesInternal_def)

text \<open>
  The switches the service runs while a queue is worked off, in order: those of other callers,
  and the clicked ones whose calls reached it, answered or not.
\<close>

fun executed :: "posted list \<Rightarrow> post_turn list \<Rightarrow> (int \<times> string) list" where
  "executed (Post_Refresh # jobs) (t # ts) = ct_before (pt_call t) @ ct_between (pt_call t) @ executed jobs ts"
| "executed (Post_Switch pid # jobs) (t # ts) =
     ct_before (pt_call t) @
     (if ct_channel (pt_call t) \<and> (\<forall>why. ct_delivery (pt_call t) \<noteq> Undelivered why) then [(ct_now (pt_call t), pid)] else []) @
     ct_before (pt_refresh t) @ ct_between (pt_refresh t) @ executed jobs ts"
| "executed _ _ = []"

lemma snd_rpc_SwitchProfile: "snd (rpc_SwitchProfile lib nb cfg now pid st) = snd (SwitchTo lib nb cfg now pid st)"
  by (simp add: rpc_SwitchProfile_def split: prod.split sum.split)

lemma snd_call_ListProfiles:
  "snd (call_ListProfiles link cfg t st) =
     snd (switch_run (cl_json link) (cl_no_bytes link) cfg (ct_before t @ ct_between t) st)"
  by (simp add: call_ListProfiles_def switch_run_append split_beta Let_def)

lemma snd_call_SwitchProfile:
  "snd (call_SwitchProfile link cfg t pid st) = snd (switch_run (cl_json link) (cl_no_bytes link) cfg
     (ct_before t @ (if ct_channel t \<and> (\<forall>why. ct_delivery t \<noteq> Undelivered why) then [(ct_now t, pid)] else [])) st)"
  by (cases "ct_delivery t")
    (simp_all add: call_SwitchProfile_def switch_run_append snd_rpc_SwitchProfile split_beta Let_def)

lemma run_queue_service:
  "snd (run_queue link cfg jobs ts st) =
     snd (switch_run (cl_json link) (cl_no_bytes link) cfg (executed jobs ts) st)"
proof (induction jobs ts arbitrary: st rule: executed.induct)
  case (1 jobs t ts)
  then show ?case
    by (simp add: run_posted_def switch_run_append split_beta Let_def snd_call_ListProfiles)
next
  case (2 pid jobs t ts)
  then show ?case
    by (simp add: run_posted_def switch_run_append split_beta Let_def snd_call_ListProfiles snd_call_SwitchProfile)
qed simp_all

lemma executed_append:
  "length ts = length jobs \<Longrightarrow> executed (jobs @ js) (ts @ us) = executed jobs ts @ executed js us"
proof (induction ts jobs rule: list_induct2)
  case (Cons t ts job jobs)
  then show ?case by (cases job) simp_all
qed simp

text \<open>The signals of one click, and its effect.\<close>

lemma click_signals:
  assumes "SwitchTo (cl_json link) (cl_no_bytes link) cfg (ct_now (pt_call t)) pid st = (Inr r, st')"
    and "ct_before (pt_call t) = []" and "ct_before (pt_refresh t) = []" and "ct_between (pt_refresh t) = []"
    and "run_queue link cfg (SwitchProfile pid []) [t] st = (signals, st'')"
  shows "st'' = (if ct_channel (pt_call t) \<and> (\<forall>why. ct_delivery (pt_call t) \<noteq> Undelivered why) then st' else st)"
    and "signals =
      (if \<not> ct_channel (pt_call t) then [SwitchResult False ''not connected'']
       else case ct_delivery (pt_call t) of
         Unanswered why \<Rightarrow> [SwitchResult False why]
       | Undelivered why \<Rightarrow> [SwitchResult False why]
       | Answered \<Rightarrow> SwitchResult (sr_ok r) (sr_message r) #
           (if sr_ok r \<and> ct_channel (pt_refresh t) \<and> ct_delivery (pt_refresh t) = Answered
            then RefreshProfilesInternal True (rpc_answer (cl_error_text link) (rpc_ListProfiles (cl_json link) st' st'))
            else []))"
proof -
  have q: "run_posted link cfg (Post_Switch pid) t st = (signals, st'')"
    using assms(5) by (simp add: SwitchProfile_def split_beta Let_def prod_eq_iff)
  show "st'' = (if ct_channel (pt_call t) \<and> (\<forall>why. ct_delivery (pt_call t) \<noteq> Undelivered why) then st' else st)"
    using q assms(2-4) rpc_SwitchProfile_eq [OF assms(1)]
    by (cases "ct_delivery (pt_call t)")
      (auto simp: run_posted_def call_SwitchProfile_def call_ListProfiles_def split_beta Let_def split: if_splits)
  show "signals =
      (if \<not> ct_channel (pt_call t) then [SwitchResult False ''not connected'']
       else case ct_delivery (pt_call t) of
         Unanswered why \<Rightarrow> [SwitchResult False why]
       | Undelivered why \<Rightarrow> [SwitchResult False why]
       | Answered \<Rightarrow> SwitchResult (sr_ok r) (sr_message r) #
           (if sr_ok r \<and> ct_channel (pt_refresh t) \<and> ct_delivery (pt_refresh t) = Answered
            then RefreshProfilesInternal True (rpc_answer (cl_error_text link) (rpc_ListProfiles (cl_json link) st' st'))
            else []))"
    using q assms(2-4) rpc_SwitchProfile_eq [OF assms(1)]
    by (cases "ct_delivery (pt_call t)"; cases "ct_delivery (pt_refresh t)"; cases "ct_channel (pt_refresh t)")
      (auto simp: run_posted_def call_SwitchProfile_def call_ListProfiles_def SwitchProfileInternal_def
        rpc_answer_def [of _ "Inr _"] split_beta Let_def split: if_splits)
qed

lemma click_shown:
  assumes "json_library_ok (cl_json link)" and "fs_healthy (pm_fs st)"
    and "\<forall>ex \<in> set (executors cfg). transactional P ex" and "P (pm_env st)"
    and "store_Get (cl_json link) (pm_fs st) pid = Inr (Some p)"
    and "SwitchTo (cl_json link) (cl_no_bytes link) cfg (ct_now (pt_call t)) pid st = (Inr r, st')"
    and "pm_List (cl_json link) st' = Inr ps"
    and "ct_before (pt_call t) = []" and "ct_before (pt_refresh t) = []" and "ct_between (pt_refresh t) = []"
    and "run_queue link cfg (SwitchProfile pid []) [t] st = (signals, st'')"
    and "ui = fold (ui_receive fmt clock) signals ui0"
  shows "(if ct_channel (pt_call t) \<and> (\<forall>why. ct_delivery (pt_call t) \<noteq> Undelivered why)
     then (case apply_all (executors cfg) (prof_settings p) (pm_env st) of
         Some e \<Rightarrow> pm_env st'' = e
       | None \<Rightarrow> pm_env st'' = pm_env st \<and> pm_fs st'' = pm_fs st)
     else st'' = st) \<and>
    (if ct_channel (pt_call t) \<and> ct_delivery (pt_call t) = Answered \<and>
        apply_all (executors cfg) (prof_settings p) (pm_env st) \<noteq> None
     then nr_title (hd (ui_notifications ui)) = ''Profile switch'' \<and>
       (if ct_channel (pt_refresh t) \<and> ct_delivery (pt_refresh t) = Answered
        then shows_profiles (ui_profiles ui) ps pid else ui_profiles ui = ui_profiles ui0)
     else nr_title (hd (ui_notifications ui)) = ''Profile switch failed'' \<and> ui_profiles ui = ui_profiles ui0 \<and>
       nr_message (hd (ui_notifications ui)) =
         (if \<not> ct_channel (pt_call t) then ''not connected''
          else case ct_delivery (pt_call t) of
            Answered \<Rightarrow> sr_message r | Unanswered why \<Rightarrow> why | Undelivered why \<Rightarrow> why))"
    (is "?effect \<and> ?screen")
proof
  note click = click_signals [OF assms(6,8-11)]
  note refines = switch_refines [OF assms(3,4,5,6)]
  have ok: "sr_ok r \<longleftrightarrow> apply_all (executors cfg) (prof_settings p) (pm_env st) \<noteq> None"
    using refines by (auto split: option.splits)
  show ?effect using refines by (auto simp: click(1) split: option.splits)
  have note1: "hd (ui_notifications (ui_receive fmt clock (SwitchResult b m) u)) = notification_row_of fmt
      \<lparr>ev_timestamp_ms = clock, ev_level = (if b then ''info'' else ''warn''),
       ev_title = (if b then ''Profile switch'' else ''Profile switch failed''), ev_message = m\<rparr>" for b m u
    by (simp add: ui_receive_def notification_Append_def push_row_def Let_def)
  have keep: "ui_profiles (ui_receive fmt clock (SwitchResult b m) u) = ui_profiles u" for b m u
    by (simp add: ui_receive_def Let_def)
  let ?refresh = "RefreshProfilesInternal True (rpc_answer (cl_error_text link) (rpc_ListProfiles (cl_json link) st' st'))"
  let ?done = "ct_channel (pt_call t) \<and> ct_delivery (pt_call t) = Answered \<and> sr_ok r"
  show ?screen
  proof (cases ?done)
    case True
    have active: "pm_ActiveId (cl_json link) st' = pid"
      using switch_success [OF assms(1,2,5,6)] True by blast
    have rows: "shows_profiles (ui_profiles (fold (ui_receive fmt clock) ?refresh u)) ps pid" for u
      using refresh_shows [OF assms(7), of fmt clock "cl_error_text link" st' u] unfolding active .
    show ?thesis
    proof (cases "ct_channel (pt_refresh t) \<and> ct_delivery (pt_refresh t) = Answered")
      case refreshed: True
      have sig: "signals = SwitchResult True (sr_message r) # ?refresh"
        using True refreshed unfolding click(2) by simp
      have ui: "ui = fold (ui_receive fmt clock) ?refresh (ui_receive fmt clock (SwitchResult True (sr_message r)) ui0)"
        by (simp only: assms(12) sig fold_simps)
      have "hd (ui_notifications ui) = hd (ui_notifications (ui_receive fmt clock (SwitchResult True (sr_message r)) ui0))"
        unfolding ui refresh_keeps_notifications ..
      moreover have "shows_profiles (ui_profiles ui) ps pid" unfolding ui by (rule rows)
      ultimately show ?thesis using True refreshed ok by (simp add: note1 notification_row_of_def)
    next
      case False
      have "signals = [SwitchResult True (sr_message r)]" using True False unfolding click(2) by auto
      then have "ui = ui_receive fmt clock (SwitchResult True (sr_message r)) ui0" by (simp add: assms(12))
      then show ?thesis using True False ok by (auto simp: note1 keep notification_row_of_def)
    qed
  next
    case False
    have "signals = [SwitchResult False (if \<not> ct_channel (pt_call t) then ''not connected''
          else case ct_delivery (pt_call t) of Answered \<Rightarrow> sr_message r | Unanswered why \<Rightarrow> why | Undelivered why \<Rightarrow> why)]"
      using False unfolding click(2) by (auto split: delivery.splits)
    then have "ui = ui_receive fmt clock (SwitchResult False (if \<not> ct_channel (pt_call t) then ''not connected''
          else case ct_delivery (pt_call t) of Answered \<Rightarrow> sr_message r | Unanswered why \<Rightarrow> why | Undelivered why \<Rightarrow> why)) ui0"
      by (simp only: assms(12) fold_simps)
    then show ?thesis using False ok by (auto simp: note1 keep notification_row_of_def)
  qed
qed

section \<open>Properties\<close>

text \<open>
  C34: what a click on a profile does, and what the screen then says, when no other client
  switches meanwhile. If the call reaches the service, over transactional executors the system
  ends in exactly the state the profile's settings give, if they can all be applied in order,
  and system and files are as before, if not; if it does not reach the service, or there is no
  channel, nothing changes. If the service answers in time that it applied the profile, the
  newest notification reports the switch and, if the listing the client then asks for is
  answered in time, too, the list shows the service's profiles with this one, and no other
  id, marked active. In all other cases the list is left alone and the newest notification
  reports a failure: with the service's message if it answered that it refused, with
  \<open>not connected\<close> without a channel, and with the text of the status if the answer did not come,
  also when the service has switched. The disk is healthy and can be listed, and the profile
  is there.
\<close>

theorem clicked_profile_shown:
  assumes "json_library_ok (cl_json link)" and "fs_healthy (pm_fs st)"
    and "\<forall>ex \<in> set (executors cfg). transactional P ex" and "P (pm_env st)"
    and "store_Get (cl_json link) (pm_fs st) pid = Inr (Some p)"
    and "SwitchTo (cl_json link) (cl_no_bytes link) cfg (ct_now (pt_call t)) pid st = (Inr r, st')"
    and "pm_List (cl_json link) st' = Inr ps"
    and "ct_before (pt_call t) = []" and "ct_before (pt_refresh t) = []" and "ct_between (pt_refresh t) = []"
    and "run_queue link cfg (SwitchProfile pid []) [t] st = (signals, st'')"
    and "ui = fold (ui_receive fmt clock) signals ui0"
  shows "(if ct_channel (pt_call t) \<and> (\<forall>why. ct_delivery (pt_call t) \<noteq> Undelivered why)
     then (case apply_all (executors cfg) (prof_settings p) (pm_env st) of
         Some e \<Rightarrow> pm_env st'' = e
       | None \<Rightarrow> pm_env st'' = pm_env st \<and> pm_fs st'' = pm_fs st)
     else st'' = st) \<and>
    (if ct_channel (pt_call t) \<and> ct_delivery (pt_call t) = Answered \<and>
        apply_all (executors cfg) (prof_settings p) (pm_env st) \<noteq> None
     then nr_title (hd (ui_notifications ui)) = ''Profile switch'' \<and>
       (if ct_channel (pt_refresh t) \<and> ct_delivery (pt_refresh t) = Answered
        then shows_profiles (ui_profiles ui) ps pid else ui_profiles ui = ui_profiles ui0)
     else nr_title (hd (ui_notifications ui)) = ''Profile switch failed'' \<and> ui_profiles ui = ui_profiles ui0 \<and>
       nr_message (hd (ui_notifications ui)) =
         (if \<not> ct_channel (pt_call t) then ''not connected''
          else case ct_delivery (pt_call t) of
            Answered \<Rightarrow> sr_message r | Unanswered why \<Rightarrow> why | Undelivered why \<Rightarrow> why))"
  by (rule click_shown [OF assms])

text \<open>
  C11: after any clicks and any refreshes of the timer, in any order, whatever becomes of each
  call (answered, given up at its deadline, lost) and whatever other clients switch in between,
  a refresh that is answered in time shows what the abstract manager of theory
  \<open>Switch_Runs\<close> ends in after the switches that reached the service: every profile of the
  service in its order with the one that was applied last, and no other id, marked active;
  and the system is in the state that run gives. The disk is healthy and can be listed, no
  profile file is another spelling of \<open>active.json\<close>, the executors are transactional, and the
  ids are valid UTF-8 and can be read from the disk or are not there.
\<close>

theorem clicks_shown_as_specified:
  assumes "json_library_ok (cl_json link)" and "\<forall>pid \<in> pids. utf8 pid"
    and "\<forall>ex \<in> set (executors cfg). transactional P ex" and "P (pm_env st)"
    and "shelf_ok (cl_json link) profiles pids (pm_fs st)" and "active_apart (pm_fs st)"
    and "pm_List (cl_json link) st = Inr ps"
    and "length ts = length jobs" and "ct_channel (pt_call t)" and "ct_delivery (pt_call t) = Answered"
    and "snd ` set (executed (RefreshProfiles jobs) (ts @ [t])) \<subseteq> pids"
    and "run_queue link cfg (RefreshProfiles jobs) (ts @ [t]) st = (signals, st')"
    and "ui = fold (ui_receive fmt clock) signals ui0"
    and "spec_run (executors cfg) profiles (map snd (executed (RefreshProfiles jobs) (ts @ [t])))
      (pm_env st, pm_ActiveId (cl_json link) st) = (oks, e, active)"
  shows "pm_env st' = e \<and> shows_profiles (ui_profiles ui) ps active"
proof -
  let ?lib = "cl_json link" and ?nb = "cl_no_bytes link" and ?calls = "executed (RefreshProfiles jobs) (ts @ [t])"
  obtain rs st2 where run: "switch_run ?lib ?nb cfg ?calls st = (map Inr rs, st2)"
    and spec: "spec_run (executors cfg) profiles (map snd ?calls) (abs_manager ?lib st) = (map sr_ok rs, abs_manager ?lib st2)"
    using switch_run_step [OF assms(1-5,11), of ?nb] by blast
  have healthy: "fs_healthy (pm_fs st)" using assms(5) by (simp add: shelf_ok_def)
  have calls: "?calls = (executed jobs ts @ ct_before (pt_call t)) @ ct_between (pt_call t)"
    using executed_append [OF assms(8), of "[Post_Refresh]" "[t]"] by (simp add: RefreshProfiles_def)
  obtain earlier st0 where q: "run_queue link cfg jobs ts st = (earlier, st0)" by (cases "run_queue link cfg jobs ts st")
  let ?st1 = "snd (switch_run ?lib ?nb cfg (ct_before (pt_call t)) st0)"
  have st0: "st0 = snd (switch_run ?lib ?nb cfg (executed jobs ts) st)" using run_queue_service [of link cfg jobs ts st] q by simp
  have st1: "?st1 = snd (switch_run ?lib ?nb cfg (executed jobs ts @ ct_before (pt_call t)) st)"
    by (simp add: st0 switch_run_append split_beta Let_def)
  have st2: "st2 = snd (switch_run ?lib ?nb cfg (ct_between (pt_call t)) ?st1)"
    using arg_cong [OF run, of snd] unfolding calls switch_run_append st1 by (simp add: split_beta Let_def)
  have "snd ` set (executed jobs ts @ ct_before (pt_call t)) \<subseteq> pids" using assms(11) unfolding calls by auto
  then obtain rs1 where "switch_run ?lib ?nb cfg (executed jobs ts @ ct_before (pt_call t)) st = (map Inr rs1, ?st1)"
    using switch_run_step [OF assms(1-5), of _ ?nb] unfolding st1 by (metis snd_conv)
  then have list: "pm_List ?lib ?st1 = Inr ps" using switch_run_List [OF healthy assms(6)] assms(7) by metis
  have "st' = st2" and sig: "signals = earlier @ RefreshProfilesInternal True (rpc_answer (cl_error_text link) (rpc_ListProfiles ?lib ?st1 st2))"
    using assms(9,10,12) run_queue_append [OF assms(8), of link cfg "[Post_Refresh]" "[t]" st] q
    by (auto simp: RefreshProfiles_def run_posted_def call_ListProfiles_def st2 split_beta Let_def)
  moreover have "pm_env st2 = e" "pm_ActiveId ?lib st2 = active"
    using spec assms(14) by (simp_all add: abs_manager_def)
  ultimately show ?thesis
    using refresh_shows [OF list, of fmt clock "cl_error_text link" st2 "fold (ui_receive fmt clock) earlier ui0"]
    by (simp add: assms(13))
qed

section \<open>A click\<close>

lemma quiet_after:
  assumes "SwitchTo identity_json JNull demo_config 7 ''q'' quiet_state = (Inr r, st')"
  shows "pm_fs st' = plain_disk [(''q.json'', json_of_profile quiet_profile), (''active.json'', JObject [(''active'', JString ''q'')])]"
proof -
  show ?thesis using assms quiet_applies quiet_SetActiveId by (auto simp: SwitchTo_def quiet_Get)
qed

lemma quiet_List:
  assumes "SwitchTo identity_json JNull demo_config 7 ''q'' quiet_state = (Inr r, st')"
  shows "pm_List identity_json st' = Inr [quiet_profile]"
proof -
  note fs = quiet_after [OF assms]
  have "lookup (pm_fs st') ''q.json'' = Some (json_of_profile quiet_profile)"
    by (simp add: lookup_def fs plain_disk_def)
  then have "ParseProfileFile identity_json (pm_fs st') ''q.json'' = Inr (Some quiet_profile)"
    by (intro ParseProfileFile_saved [OF identity_json_ok]) (simp_all add: fs, simp_all add: quiet_profile_def)
  moreover have "is_profile_file ''q.json''" "in_directory ''q.json''" "\<not> is_profile_file ''active.json''" by code_simp+
  ultimately show ?thesis by (simp add: pm_List_def store_List_def dir_files_def fs plain_disk_def)
qed

definition demo_link :: "json client_link" where
  "demo_link = \<lparr>cl_json = identity_json, cl_no_bytes = JNull, cl_error_text = (\<lambda>_. ''error'')\<rparr>"

text \<open>A call answered in time, and one whose answer comes after the deadline.\<close>

definition prompt_call :: call_turn where
  "prompt_call = \<lparr>ct_channel = True, ct_before = [], ct_delivery = Answered, ct_now = 7, ct_between = []\<rparr>"

definition late_call :: call_turn where
  "late_call = \<lparr>ct_channel = True, ct_before = [], ct_delivery = Unanswered ''Deadline Exceeded'', ct_now = 7, ct_between = []\<rparr>"

theorem clicked_profile_shown_witness:
  "(\<exists>signals st'. run_queue demo_link demo_config (SwitchProfile ''q'' []) [\<lparr>pt_call = prompt_call, pt_refresh = prompt_call\<rparr>] quiet_state =
       (signals, st') \<and> pm_env st' = (kPowerSaver, 30) \<and>
     shows_profiles (ui_profiles (fold (ui_receive (\<lambda>_. []) 9) signals ui_init)) [quiet_profile] ''q'') \<and>
   (\<exists>signals st'. run_queue demo_link demo_config (SwitchProfile ''q'' []) [\<lparr>pt_call = late_call, pt_refresh = prompt_call\<rparr>] quiet_state =
       (signals, st') \<and> pm_env st' = (kPowerSaver, 30) \<and>
     nr_message (hd (ui_notifications (fold (ui_receive (\<lambda>_. []) 9) signals ui_init))) = ''Deadline Exceeded'')"
proof -
  obtain r st' where sw: "SwitchTo identity_json JNull demo_config 7 ''q'' quiet_state = (Inr r, st')"
    using quiet_switch by blast
  have link: "cl_json demo_link = identity_json" "cl_no_bytes demo_link = JNull" by (simp_all add: demo_link_def)
  have ok: "json_library_ok (cl_json demo_link)" "fs_healthy (pm_fs quiet_state)"
      "store_Get (cl_json demo_link) (pm_fs quiet_state) ''q'' = Inr (Some quiet_profile)"
      "pm_List (cl_json demo_link) st' = Inr [quiet_profile]"
    using quiet_Get quiet_List [OF sw] by (simp_all only: link identity_json_ok) (simp add: quiet_state_def)
  let ?t1 = "\<lparr>pt_call = prompt_call, pt_refresh = prompt_call\<rparr>" and ?t2 = "\<lparr>pt_call = late_call, pt_refresh = prompt_call\<rparr>"
  obtain s1 st1 where run1: "run_queue demo_link demo_config (SwitchProfile ''q'' []) [?t1] quiet_state = (s1, st1)"
    by (cases "run_queue demo_link demo_config (SwitchProfile ''q'' []) [?t1] quiet_state")
  obtain s2 st2 where run2: "run_queue demo_link demo_config (SwitchProfile ''q'' []) [?t2] quiet_state = (s2, st2)"
    by (cases "run_queue demo_link demo_config (SwitchProfile ''q'' []) [?t2] quiet_state")
  have sw1: "SwitchTo (cl_json demo_link) (cl_no_bytes demo_link) demo_config (ct_now (pt_call ?t1)) ''q'' quiet_state = (Inr r, st')"
    and sw2: "SwitchTo (cl_json demo_link) (cl_no_bytes demo_link) demo_config (ct_now (pt_call ?t2)) ''q'' quiet_state = (Inr r, st')"
    using sw by (simp_all add: link prompt_call_def late_call_def del: manager_config.simps)
  have alone: "ct_before prompt_call = []" "ct_between prompt_call = []" "ct_before late_call = []"
    by (simp_all add: prompt_call_def late_call_def)
  have "pm_env st1 = (kPowerSaver, 30) \<and>
      shows_profiles (ui_profiles (fold (ui_receive (\<lambda>_. []) 9) s1 ui_init)) [quiet_profile] ''q''"
    using clicked_profile_shown [OF ok(1,2) demo_transactional quiet_states ok(3) sw1 ok(4) _ _ _ run1 refl, of "\<lambda>_. []" 9 ui_init] alone
    unfolding quiet_applies_all by (simp add: prompt_call_def)
  moreover have "pm_env st2 = (kPowerSaver, 30) \<and>
      nr_message (hd (ui_notifications (fold (ui_receive (\<lambda>_. []) 9) s2 ui_init))) = ''Deadline Exceeded''"
    using clicked_profile_shown [OF ok(1,2) demo_transactional quiet_states ok(3) sw2 ok(4) _ _ _ run2 refl, of "\<lambda>_. []" 9 ui_init] alone
    unfolding quiet_applies_all by (simp add: late_call_def)
  ultimately show ?thesis using run1 run2 by blast
qed


text \<open>The list of the quiet machine before the clicks.\<close>

lemma quiet_List_before: "pm_List identity_json quiet_state = Inr [quiet_profile]"
proof -
  have "lookup (pm_fs quiet_state) ''q.json'' = Some (json_of_profile quiet_profile)"
    by (simp add: lookup_def quiet_state_def plain_disk_def)
  then have "ParseProfileFile identity_json (pm_fs quiet_state) ''q.json'' = Inr (Some quiet_profile)"
    by (intro ParseProfileFile_saved [OF identity_json_ok]) (simp_all add: quiet_state_def, simp_all add: quiet_profile_def)
  moreover have "is_profile_file ''q.json''" "in_directory ''q.json''" by code_simp+
  ultimately show ?thesis by (simp add: pm_List_def store_List_def dir_files_def quiet_state_def plain_disk_def)
qed

theorem clicks_shown_as_specified_witness:
  "\<exists>signals st'. run_queue demo_link demo_config (RefreshProfiles [Post_Switch ''q'', Post_Switch ''z''])
       [\<lparr>pt_call = late_call, pt_refresh = prompt_call\<rparr>, \<lparr>pt_call = prompt_call, pt_refresh = prompt_call\<rparr>,
        \<lparr>pt_call = prompt_call, pt_refresh = prompt_call\<rparr>] quiet_state = (signals, st') \<and> pm_env st' = (kPowerSaver, 30) \<and>
     shows_profiles (ui_profiles (fold (ui_receive (\<lambda>_. []) 9) signals ui_init)) [quiet_profile] ''q''"
proof -
  let ?jobs = "[Post_Switch ''q'', Post_Switch ''z'']" and ?t = "\<lparr>pt_call = prompt_call, pt_refresh = prompt_call\<rparr>"
  let ?ts = "[\<lparr>pt_call = late_call, pt_refresh = prompt_call\<rparr>, ?t]"
  obtain signals st' where run: "run_queue demo_link demo_config (RefreshProfiles ?jobs) (?ts @ [?t]) quiet_state = (signals, st')"
    by (cases "run_queue demo_link demo_config (RefreshProfiles ?jobs) (?ts @ [?t]) quiet_state")
  have link: "json_library_ok (cl_json demo_link)" "cl_json demo_link = identity_json"
    by (simp_all add: demo_link_def)
  note shelf = quiet_shelf [folded link(2)] and list = quiet_List_before [folded link(2)]
  have utf8: "\<forall>pid \<in> {''q'', ''z''}. utf8 pid" by simp
  have apart: "active_apart (pm_fs quiet_state)" by (simp add: active_apart_def dir_files_def quiet_state_def plain_disk_def)
  have ex: "executed (RefreshProfiles ?jobs) (?ts @ [?t]) = [(7, ''q''), (7, ''z'')]"
    by (simp add: RefreshProfiles_def late_call_def prompt_call_def)
  have calls: "snd ` set (executed (RefreshProfiles ?jobs) (?ts @ [?t])) \<subseteq> {''q'', ''z''}" unfolding ex by simp
  have spec: "spec_run (executors demo_config) (\<lambda>i. if i = ''q'' then Some quiet_profile else None)
      (map snd (executed (RefreshProfiles ?jobs) (?ts @ [?t])))
      (pm_env quiet_state, pm_ActiveId (cl_json demo_link) quiet_state) = ([True, False], (kPowerSaver, 30), ''q'')"
    using quiet_applies_all unfolding ex by (simp add: spec_switch_def)
  have turns: "length ?ts = length ?jobs" "ct_channel (pt_call ?t)" "ct_delivery (pt_call ?t) = Answered"
    by (simp_all add: prompt_call_def)
  from clicks_shown_as_specified [OF link(1) utf8 demo_transactional quiet_states shelf apart list turns calls run refl spec, of "\<lambda>_. []" 9 ui_init] run
  show ?thesis by auto
qed

end
