(* ===== verification/Ui_Properties.thy ===== *)
theory Ui_Properties
  imports Client_Models Telemetry_Store Line_Chart
begin

text \<open>
  What the classes of \<open>apps/hwpanel-client/backend\<close> promise to Qt: their \<open>Q_PROPERTY\<close>
  declarations with the signals they name, the accessors behind them, the signals each slot
  and setter emits, and the changes a list model announces. Two locales state the two
  contracts: a change of a property is announced by its signal, so that a binding that reads
  the property again at that signal is never out of date; and the announced changes of a
  model, carried out on a copy of its rows, give the model's rows. The engine that evaluates
  bindings is Qt's; here a binding is the value last read.
\<close>

section \<open>The contracts\<close>

datatype qvalue = QList "double list" | QText string | QReal double | QInt int | QBool bool

text \<open>What a binding on property \<open>p\<close> shows after one operation on the object.\<close>

definition rebind :: "('o \<Rightarrow> 'p \<Rightarrow> 'v) \<Rightarrow> ('p \<Rightarrow> 's) \<Rightarrow> ('op \<Rightarrow> 'o \<Rightarrow> 's list \<times> 'o) \<Rightarrow> 'p \<Rightarrow> 'op \<Rightarrow> 'o \<times> 'v \<Rightarrow> 'o \<times> 'v" where
  "rebind read notify step p op = (\<lambda>(obj, seen).
     let (signals, obj) = step op obj in (obj, if notify p \<in> set signals then read obj p else seen))"

locale notifying_object =
  fixes read :: "'o \<Rightarrow> 'p \<Rightarrow> 'v"
    and notify :: "'p \<Rightarrow> 's"
    and step :: "'op \<Rightarrow> 'o \<Rightarrow> 's list \<times> 'o"
  assumes change_notified: "read (snd (step op obj)) p \<noteq> read obj p \<Longrightarrow> notify p \<in> set (fst (step op obj))"
begin

lemma binding_step: "seen = read obj p \<Longrightarrow> rebind read notify step p op (obj, seen) = (snd (step op obj), read (snd (step op obj)) p)"
proof -
  assume "seen = read obj p"
  moreover have "notify p \<notin> set (fst (step op obj)) \<Longrightarrow> read (snd (step op obj)) p = read obj p"
    using change_notified by blast
  ultimately show ?thesis by (cases "step op obj") (simp add: rebind_def)
qed

lemma binding_current:
  "fold (rebind read notify step p) ops (obj, read obj p) =
     (fold (\<lambda>op obj. snd (step op obj)) ops obj, read (fold (\<lambda>op obj. snd (step op obj)) ops obj) p)"
  by (induction ops arbitrary: obj) (simp_all add: binding_step)

end

text \<open>
  The changes a list model announces: rows \<open>a\<close> to \<open>b\<close> were inserted or removed, or everything
  has changed; with the rows a view can read at that moment.
\<close>

datatype 'r model_change = Inserted nat nat "'r list" | Removed nat nat | Model_reset "'r list"

fun mirror :: "'r model_change \<Rightarrow> 'r list \<Rightarrow> 'r list" where
  "mirror (Inserted a b rows) v = take a v @ map (\<lambda>k. rows ! k) [a..<Suc b] @ drop a v"
| "mirror (Removed a b) v = take a v @ drop (Suc b) v"
| "mirror (Model_reset rows) v = rows"

text \<open>What \<open>QAbstractItemModel\<close> requires of an announced range.\<close>

fun announced_ok :: "'r model_change \<Rightarrow> 'r list \<Rightarrow> bool" where
  "announced_ok (Inserted a b rows) v \<longleftrightarrow> a \<le> b \<and> a \<le> length v \<and> length rows = length v + Suc (b - a)"
| "announced_ok (Removed a b) v \<longleftrightarrow> a \<le> b \<and> b < length v"
| "announced_ok (Model_reset rows) v \<longleftrightarrow> True"

fun all_announced_ok :: "'r model_change list \<Rightarrow> 'r list \<Rightarrow> bool" where
  "all_announced_ok [] v \<longleftrightarrow> True"
| "all_announced_ok (ch # chs) v \<longleftrightarrow> announced_ok ch v \<and> all_announced_ok chs (mirror ch v)"

lemma all_announced_ok_append:
  "all_announced_ok (a @ b) v \<longleftrightarrow> all_announced_ok a v \<and> all_announced_ok b (fold mirror a v)"
  by (induction a arbitrary: v) simp_all

fun announced :: "('op \<Rightarrow> 'm \<Rightarrow> 'r model_change list \<times> 'm) \<Rightarrow> 'op list \<Rightarrow> 'm \<Rightarrow> 'r model_change list \<times> 'm" where
  "announced step [] m = ([], m)"
| "announced step (op # ops) m = (let (chs, m) = step op m; (more, m) = announced step ops m in (chs @ more, m))"

locale announcing_model =
  fixes rows :: "'m \<Rightarrow> 'r list"
    and step :: "'op \<Rightarrow> 'm \<Rightarrow> 'r model_change list \<times> 'm"
  assumes announces: "step op m = (chs, m') \<Longrightarrow> all_announced_ok chs (rows m) \<and> fold mirror chs (rows m) = rows m'"
begin

lemma view_current:
  "announced step ops m = (chs, m') \<Longrightarrow> all_announced_ok chs (rows m) \<and> fold mirror chs (rows m) = rows m'"
proof (induction ops arbitrary: m chs)
  case (Cons op ops)
  obtain now m1 where one: "step op m = (now, m1)" by (cases "step op m")
  obtain more where "announced step ops m1 = (more, m')" and "chs = now @ more"
    using Cons.prems one by (cases "announced step ops m1") (auto simp: split_beta Let_def)
  then show ?case using announces [OF one] Cons.IH by (auto simp: all_announced_ok_append)
qed simp

end

section \<open>The list models\<close>

datatype model_signal = CountChanged | ActiveChanged

datatype notification_op = Append_event event_message | Clear_all

definition notification_changes :: "(int \<Rightarrow> string) \<Rightarrow> notification_op \<Rightarrow> notification_model \<Rightarrow>
    notification_row model_change list \<times> notification_model" where
  "notification_changes fmt op rows =
     (case op of
        Append_event event \<Rightarrow>
          (let rows1 = notification_row_of fmt event # rows
           in (Inserted 0 0 rows1 #
                 (if 50 < length rows1 then [Removed (length rows1 - 1) (length rows1 - 1)] else []),
               notification_Append fmt rows event))
      | Clear_all \<Rightarrow> ([Model_reset []], notification_Clear rows))"

definition notification_step :: "(int \<Rightarrow> string) \<Rightarrow> notification_op \<Rightarrow> notification_model \<Rightarrow> model_signal list \<times> notification_model" where
  "notification_step fmt op rows = ([CountChanged], snd (notification_changes fmt op rows))"

definition notification_count :: "notification_model \<Rightarrow> int" where
  "notification_count rows = int (length rows)"

interpretation notification_property: notifying_object "\<lambda>rows (_ :: unit). notification_count rows" "\<lambda>_. CountChanged" "notification_step fmt"
  by unfold_locales (simp add: notification_step_def)

interpretation notification_view: announcing_model "\<lambda>rows. rows" "notification_changes fmt"
proof
  fix op and m :: notification_model and chs m'
  assume step: "notification_changes fmt op m = (chs, m')"
  show "all_announced_ok chs m \<and> fold mirror chs m = m'"
  proof (cases op)
    case (Append_event event)
    have "take (length m) (notification_row_of fmt event # m) = butlast (notification_row_of fmt event # m)"
      by (simp add: butlast_conv_take)
    then show ?thesis
      using step by (auto simp: Append_event notification_changes_def notification_Append_def push_row_def Let_def split: if_splits)
  next
    case Clear_all
    then show ?thesis using step by (auto simp: notification_changes_def notification_Clear_def)
  qed
qed

definition profile_changes :: "(string \<rightharpoonup> string) list \<times> string \<Rightarrow> profile_model \<Rightarrow> profile_row model_change list \<times> profile_model" where
  "profile_changes = (\<lambda>(profiles, active_id) pm.
     let pm = SetProfiles profiles active_id pm in ([Model_reset (pm_rows pm)], pm))"

definition profile_step :: "(string \<rightharpoonup> string) list \<times> string \<Rightarrow> profile_model \<Rightarrow> model_signal list \<times> profile_model" where
  "profile_step args pm = ([CountChanged, ActiveChanged], snd (profile_changes args pm))"

definition profile_count :: "profile_model \<Rightarrow> int" where
  "profile_count pm = int (length (pm_rows pm))"

definition profile_activeId :: "profile_model \<Rightarrow> string" where
  "profile_activeId pm = pm_active pm"

datatype profile_property = Count_property | ActiveId_property

fun profile_read :: "profile_model \<Rightarrow> profile_property \<Rightarrow> qvalue" where
  "profile_read pm Count_property = QInt (profile_count pm)"
| "profile_read pm ActiveId_property = QText (profile_activeId pm)"

fun profile_notify :: "profile_property \<Rightarrow> model_signal" where
  "profile_notify Count_property = CountChanged"
| "profile_notify ActiveId_property = ActiveChanged"

interpretation profile_properties: notifying_object profile_read profile_notify profile_step
proof
  fix op pm p
  show "profile_notify p \<in> set (fst (profile_step op pm))" by (cases p) (simp_all add: profile_step_def)
qed

interpretation profile_view: announcing_model pm_rows profile_changes
  by unfold_locales (auto simp: profile_changes_def Let_def split: prod.splits)


section \<open>The connection status\<close>

datatype status_property = Connected_property | Text_property | Color_property

definition status_connected :: "connection_status \<Rightarrow> bool" where
  "status_connected cs = cs_connected cs"

definition status_text :: "connection_status \<Rightarrow> string" where
  "status_text cs = cs_text cs"

definition status_color :: "connection_status \<Rightarrow> string" where
  "status_color cs = cs_color cs"

fun status_read :: "connection_status \<Rightarrow> status_property \<Rightarrow> qvalue" where
  "status_read cs Connected_property = QBool (status_connected cs)"
| "status_read cs Text_property = QText (status_text cs)"
| "status_read cs Color_property = QText (status_color cs)"

text \<open>\<open>SetState\<close> emits the one signal \<open>changed\<close>, here the unit value, whatever it changed.\<close>

definition status_step :: "int \<Rightarrow> connection_status \<Rightarrow> unit list \<times> connection_status" where
  "status_step state cs = ([()], status_SetState state cs)"

interpretation status_properties: notifying_object status_read "\<lambda>_. ()" status_step
  by unfold_locales (simp add: status_step_def)

section \<open>The series\<close>

datatype series_property = Values_property | Latest_property

definition series_latest :: "metric_series \<Rightarrow> double" where
  "series_latest s = ms_latest s"

definition series_id :: "metric_series \<Rightarrow> string" where
  "series_id s = ms_id s"

definition series_unit :: "metric_series \<Rightarrow> string" where
  "series_unit s = ms_unit s"

fun series_read :: "metric_series \<Rightarrow> series_property \<Rightarrow> qvalue" where
  "series_read s Values_property = QList (series_values s)"
| "series_read s Latest_property = QReal (series_latest s)"

definition series_step :: "double \<Rightarrow> metric_series \<Rightarrow> chart_signal list \<times> metric_series" where
  "series_step value s = ([ValuesChanged], series_Append s value)"

interpretation series_properties: notifying_object series_read "\<lambda>_. ValuesChanged" series_step
  by unfold_locales (simp add: series_step_def)

text \<open>The series of the store by the name the user interface uses; each is created once and never replaced.\<close>

definition telemetry_property :: "telemetry_store \<Rightarrow> string \<Rightarrow> metric_series option" where
  "telemetry_property st name =
     (if name = ''cpuUsage'' then Some (cpu_usage st)
      else if name = ''gpuUsage'' then Some (gpu_usage st)
      else if name = ''memUsedMb'' then Some (mem_used_mb st)
      else if name = ''diskIoBps'' then Some (disk_io_bps st)
      else if name = ''cpuTempC'' then Some (cpu_temp_c st)
      else if name = ''gpuTempC'' then Some (gpu_temp_c st)
      else None)"

section \<open>The chart\<close>

datatype chart_property = Chart_values | LineColor | MinValue | MaxValue | AutoRange

definition chart_values :: "line_chart \<Rightarrow> double list" where "chart_values c = lc_values c"

definition chart_lineColor :: "line_chart \<Rightarrow> string" where "chart_lineColor c = lc_line_color c"

definition chart_minValue :: "line_chart \<Rightarrow> double" where "chart_minValue c = lc_min_value c"

definition chart_maxValue :: "line_chart \<Rightarrow> double" where "chart_maxValue c = lc_max_value c"

definition chart_autoRange :: "line_chart \<Rightarrow> bool" where "chart_autoRange c = lc_auto_range c"

fun chart_read :: "line_chart \<Rightarrow> chart_property \<Rightarrow> qvalue" where
  "chart_read c Chart_values = QList (chart_values c)"
| "chart_read c LineColor = QText (chart_lineColor c)"
| "chart_read c MinValue = QReal (chart_minValue c)"
| "chart_read c MaxValue = QReal (chart_maxValue c)"
| "chart_read c AutoRange = QBool (chart_autoRange c)"

fun chart_notify :: "chart_property \<Rightarrow> chart_signal" where
  "chart_notify Chart_values = ValuesChanged"
| "chart_notify LineColor = LineColorChanged"
| "chart_notify MinValue = RangeChanged"
| "chart_notify MaxValue = RangeChanged"
| "chart_notify AutoRange = RangeChanged"

text \<open>A write through the property's setter; a value of another type is refused by the engine.\<close>

fun chart_write :: "(double list \<Rightarrow> double list \<Rightarrow> bool) \<Rightarrow> (double \<Rightarrow> double \<Rightarrow> bool) \<Rightarrow> chart_property \<times> qvalue \<Rightarrow>
    line_chart \<Rightarrow> chart_signal option \<times> line_chart" where
  "chart_write same fuzzy (Chart_values, QList vs) c = setValues same vs c"
| "chart_write same fuzzy (LineColor, QText color) c = setLineColor color c"
| "chart_write same fuzzy (MinValue, QReal v) c = setMinValue fuzzy v c"
| "chart_write same fuzzy (MaxValue, QReal v) c = setMaxValue fuzzy v c"
| "chart_write same fuzzy (AutoRange, QBool b) c = setAutoRange b c"
| "chart_write same fuzzy _ c = (None, c)"

definition chart_step :: "(double list \<Rightarrow> double list \<Rightarrow> bool) \<Rightarrow> (double \<Rightarrow> double \<Rightarrow> bool) \<Rightarrow> chart_property \<times> qvalue \<Rightarrow>
    line_chart \<Rightarrow> chart_signal list \<times> line_chart" where
  "chart_step same fuzzy pv c = (let (signal, c) = chart_write same fuzzy pv c in (case signal of None \<Rightarrow> [] | Some s \<Rightarrow> [s], c))"

lemmas chart_setters = setValues_def setLineColor_def setMinValue_def setMaxValue_def setAutoRange_def

lemmas chart_accessors = chart_values_def chart_lineColor_def chart_minValue_def chart_maxValue_def chart_autoRange_def

interpretation chart_properties: notifying_object chart_read chart_notify "chart_step same fuzzy"
proof
  fix op c p
  show "chart_read (snd (chart_step same fuzzy op c)) p \<noteq> chart_read c p \<Longrightarrow>
      chart_notify p \<in> set (fst (chart_step same fuzzy op c))"
    by (cases "(same, fuzzy, op, c)" rule: chart_write.cases; cases p)
      (auto simp: chart_step_def chart_setters chart_accessors split: if_splits)
qed

text \<open>What is written is read back, unless the comparison took it for the value already there.\<close>

lemma chart_write_read:
  assumes "chart_write same fuzzy (p, v) c = (Some s, c')"
  shows "chart_read c' p = v \<and> s = chart_notify p \<and> (\<forall>q. q \<noteq> p \<longrightarrow> chart_read c' q = chart_read c q)"
proof -
  have "chart_read c' q = (if q = p then v else chart_read c q) \<and> s = chart_notify p" for q
    using assms by (cases "(same, fuzzy, (p, v), c)" rule: chart_write.cases; cases q)
      (auto simp: chart_setters chart_accessors split: if_splits)
  then show ?thesis by simp
qed


section \<open>Properties\<close>

definition binding_current :: "('o \<Rightarrow> 'p \<Rightarrow> 'v) \<Rightarrow> ('p \<Rightarrow> 's) \<Rightarrow> ('op \<Rightarrow> 'o \<Rightarrow> 's list \<times> 'o) \<Rightarrow> 'p \<Rightarrow> 'op list \<Rightarrow> 'o \<Rightarrow> bool" where
  "binding_current read notify step p ops obj =
     (let (obj', seen) = fold (rebind read notify step p) ops (obj, read obj p) in seen = read obj' p)"

text \<open>
  C26: what the user interface binds to is never out of date: after any sequence of slot
  calls and property writes a binding that reads its property again whenever the declared
  signal is emitted shows the property's value; for the series, the two list models' counts
  and the active profile, the connection status, and the chart whatever its two comparisons
  are.
\<close>

theorem bindings_stay_current:
  "binding_current series_read (\<lambda>_. ValuesChanged) series_step p1 values series \<and>
   binding_current profile_read profile_notify profile_step p2 updates profiles \<and>
   binding_current (\<lambda>rows (_ :: unit). notification_count rows) (\<lambda>_. CountChanged) (notification_step fmt) () events notes \<and>
   binding_current status_read (\<lambda>_. ()) status_step p3 states status \<and>
   binding_current chart_read chart_notify (chart_step same fuzzy) p4 writes chart"
  by (simp only: binding_current_def series_properties.binding_current profile_properties.binding_current
      notification_property.binding_current status_properties.binding_current chart_properties.binding_current
      Let_def prod.case simp_thms)

text \<open>
  C25: the list views mirror their models: after any sequence of received events and clears,
  and after any sequence of profile updates, every announced range fits the rows a view has
  at that moment, and carrying the announced changes out on a copy of the rows gives the
  model's rows.
\<close>

theorem list_views_mirror_models:
  "(let (changes, notes') = announced (notification_changes fmt) events notes
    in all_announced_ok changes notes \<and> fold mirror changes notes = notes') \<and>
   (let (changes, profiles') = announced profile_changes updates profiles
    in all_announced_ok changes (pm_rows profiles) \<and> fold mirror changes (pm_rows profiles) = pm_rows profiles')"
  using notification_view.view_current profile_view.view_current by (simp add: Let_def split: prod.split)

end
