(* ===== verification/Concurrent_Fanout.thy ===== *)
theory Concurrent_Fanout
  imports Telemetry_Hub Event_Bus
begin

text \<open>
  \<open>Publish\<close> of \<open>libs/core/src/telemetry_hub.cpp\<close> and \<open>event_bus.cpp\<close> as its mutexes make it:
  one section under the registry's mutex that locks the live subscribers, then one under
  each subscriber's mutex, with the other threads' sections in between. The theory runs any
  interleaving of such sections and relates it to the sequential picture: each subscriber
  sees a session in which every publisher's messages come in the order of its calls, each
  once. It is stated for the operations of both classes.
\<close>

section \<open>Interleaved sections\<close>

text \<open>A publisher between its sections holds the subscribers it still has to serve.\<close>

record ('s, 'm) pub_system =
  pub_reg :: "'s registry"
  pub_inflight :: "nat \<Rightarrow> (nat list \<times> 'm) option"

text \<open>
  A section: of the publisher with the given number, or one of the other calls, each of
  which is one section. \<open>End_publish\<close> is the return of \<open>Publish\<close>.
\<close>

datatype 'm section_op = Begin_publish nat 'm | Serve nat | End_publish nat | Call "'m reg_op"

text \<open>What a section hands to consumers, whom it serves (publisher, subscriber, message), and the new state; \<open>None\<close>: it cannot run now.\<close>

fun pub_step :: "('s \<Rightarrow> 'm \<Rightarrow> 's) \<Rightarrow> ('s \<Rightarrow> 'm option \<times> 's) \<Rightarrow> ('s \<Rightarrow> 's) \<Rightarrow> 's \<Rightarrow> 'm section_op \<Rightarrow> ('s, 'm) pub_system \<Rightarrow>
    ((nat \<times> 'm) list \<times> (nat \<times> nat \<times> 'm) list \<times> ('s, 'm) pub_system) option" where
  "pub_step deliver pop cls new (Begin_publish p m) y =
     (if pub_inflight y p \<noteq> None then None
      else let live = live_ids (heap (pub_reg y)) (subscribers (pub_reg y))
        in Some ([], [], y\<lparr>pub_reg := (pub_reg y)\<lparr>subscribers := live\<rparr>, pub_inflight := (pub_inflight y)(p \<mapsto> (live, m))\<rparr>))"
| "pub_step deliver pop cls new (Serve p) y =
     (case pub_inflight y p of
        Some (i # ids, m) \<Rightarrow> Some ([], [(p, i, m)],
          y\<lparr>pub_reg := registry_apply (\<lambda>s. deliver s m) i (pub_reg y), pub_inflight := (pub_inflight y)(p \<mapsto> (ids, m))\<rparr>)
      | _ \<Rightarrow> None)"
| "pub_step deliver pop cls new (End_publish p) y =
     (case pub_inflight y p of
        Some ([], m) \<Rightarrow> Some ([], [], y\<lparr>pub_inflight := (pub_inflight y)(p := None)\<rparr>)
      | _ \<Rightarrow> None)"
| "pub_step deliver pop cls new (Call op) y =
     (case op of
        Publish_op _ \<Rightarrow> None
      | _ \<Rightarrow> (let (out, r) = registry_step deliver pop cls new (pub_reg y) op in Some (out, [], y\<lparr>pub_reg := r\<rparr>)))"

text \<open>A run of sections, with the record of each.\<close>

type_synonym 'm section_log = "('m section_op \<times> (nat \<times> 'm) list \<times> (nat \<times> nat \<times> 'm) list) list"

fun pub_run :: "('s \<Rightarrow> 'm \<Rightarrow> 's) \<Rightarrow> ('s \<Rightarrow> 'm option \<times> 's) \<Rightarrow> ('s \<Rightarrow> 's) \<Rightarrow> 's \<Rightarrow> 'm section_op list \<Rightarrow> ('s, 'm) pub_system \<Rightarrow>
    ('m section_log \<times> ('s, 'm) pub_system) option" where
  "pub_run deliver pop cls new [] y = Some ([], y)"
| "pub_run deliver pop cls new (l # ls) y =
     (case pub_step deliver pop cls new l y of
        None \<Rightarrow> None
      | Some (out, served, y1) \<Rightarrow>
          (case pub_run deliver pop cls new ls y1 of None \<Rightarrow> None | Some (tr, y') \<Rightarrow> Some ((l, out, served) # tr, y')))"

section \<open>What one subscriber sees\<close>

text \<open>The part of a section's record that concerns subscriber \<open>i\<close>.\<close>

fun seen_in :: "nat \<Rightarrow> 'm section_op \<Rightarrow> (nat \<times> nat \<times> 'm) list \<Rightarrow> 'm sub_op list" where
  "seen_in i (Call op) served = view_of i [op]"
| "seen_in i _ served = map (\<lambda>(p, j, m). OpPublish m) (filter (\<lambda>(p, j, m). j = i) served)"

definition log_view :: "nat \<Rightarrow> 'm section_log \<Rightarrow> 'm sub_op list" where
  "log_view i tr = concat (map (\<lambda>(l, out, served). seen_in i l served) tr)"

definition log_received :: "nat \<Rightarrow> 'm section_log \<Rightarrow> 'm list" where
  "log_received i tr = concat (map (\<lambda>(l, out, served). received i out) tr)"

text \<open>The messages it was served, each with its publisher.\<close>

definition log_served :: "nat \<Rightarrow> 'm section_log \<Rightarrow> (nat \<times> 'm) list" where
  "log_served i tr = concat (map (\<lambda>(l, out, served). map (\<lambda>(p, j, m). (p, m)) (filter (\<lambda>(p, j, m). j = i) served)) tr)"

definition by_publisher :: "nat \<Rightarrow> (nat \<times> 'm) list \<Rightarrow> 'm list" where
  "by_publisher p ms = map snd (filter (\<lambda>(q, m). q = p) ms)"

text \<open>What publisher \<open>p\<close> was asked to publish, and what it still holds for subscriber \<open>i\<close>.\<close>

fun begun :: "nat \<Rightarrow> 'm section_op list \<Rightarrow> 'm list" where
  "begun p [] = []"
| "begun p (Begin_publish q m # ls) = (if q = p then m # begun p ls else begun p ls)"
| "begun p (_ # ls) = begun p ls"

definition pending :: "nat \<Rightarrow> ('s, 'm) pub_system \<Rightarrow> nat \<Rightarrow> 'm list" where
  "pending i y p = (case pub_inflight y p of None \<Rightarrow> [] | Some (ids, m) \<Rightarrow> if i \<in> set ids then [m] else [])"

definition pub_inv :: "('s, 'm) pub_system \<Rightarrow> bool" where
  "pub_inv y \<longleftrightarrow> registry_inv (pub_reg y) \<and>
     (\<forall>p ids m. pub_inflight y p = Some (ids, m) \<longrightarrow> distinct ids \<and> (\<forall>i \<in> set ids. i < next_id (pub_reg y)))"

lemma pub_inv_idle: "registry_inv r \<Longrightarrow> pub_inv \<lparr>pub_reg = r, pub_inflight = \<lambda>_. None\<rparr>"
  by (simp add: pub_inv_def)

lemma session_append:
  "session d p c s (a @ b) = (let (x, s1) = session d p c s a; (y, s2) = session d p c s1 b in (x @ y, s2))"
proof (induction a arbitrary: s)
  case (Cons op a)
  then show ?case by (cases op) (simp_all add: split_beta Let_def split: option.split)
qed simp

lemma next_id_simps [simp]:
  "next_id (registry_apply f i r) = next_id r" "next_id (r\<lparr>subscribers := ids\<rparr>) = next_id r"
  by (simp_all add: registry_apply_def split: option.split)

lemma registry_inv_live: "registry_inv r \<Longrightarrow> registry_inv (r\<lparr>subscribers := live_ids (heap r) (subscribers r)\<rparr>)"
  by (auto simp: registry_inv_def distinct_live_ids set_live_ids)

lemma pub_inv_step:
  assumes "pub_inv y" and "pub_step deliver pop cls new l y = Some (out, served, y')"
  shows "pub_inv y'"
proof (cases l)
  case (Begin_publish p m)
  let ?live = "live_ids (heap (pub_reg y)) (subscribers (pub_reg y))"
  have y': "y' = y\<lparr>pub_reg := (pub_reg y)\<lparr>subscribers := ?live\<rparr>, pub_inflight := (pub_inflight y)(p \<mapsto> (?live, m))\<rparr>"
    using assms(2) Begin_publish by (simp add: Let_def split: if_split_asm)
  have "distinct ?live \<and> (\<forall>i \<in> set ?live. i < next_id (pub_reg y))"
    using assms(1) by (auto simp: pub_inv_def registry_inv_def distinct_live_ids set_live_ids)
  moreover have "\<forall>q ids m'. pub_inflight y q = Some (ids, m') \<longrightarrow> distinct ids \<and> (\<forall>i \<in> set ids. i < next_id (pub_reg y))"
    and "registry_inv (pub_reg y)"
    using assms(1) unfolding pub_inv_def by blast+
  ultimately show ?thesis by (simp add: y' pub_inv_def registry_inv_live)
next
  case (Serve p)
  then obtain i ids m where q: "pub_inflight y p = Some (i # ids, m)"
    and y': "y' = y\<lparr>pub_reg := registry_apply (\<lambda>s. deliver s m) i (pub_reg y), pub_inflight := (pub_inflight y)(p \<mapsto> (ids, m))\<rparr>"
    using assms(2) by (auto split: option.splits list.splits)
  have "distinct (i # ids) \<and> (\<forall>j \<in> set (i # ids). j < next_id (pub_reg y))" using assms(1) q unfolding pub_inv_def by blast
  then show ?thesis using assms(1) by (auto simp: y' pub_inv_def registry_inv_apply)
next
  case (End_publish p)
  have "\<forall>q ids m. pub_inflight y q = Some (ids, m) \<longrightarrow> distinct ids \<and> (\<forall>i \<in> set ids. i < next_id (pub_reg y))"
    and "registry_inv (pub_reg y)"
    using assms(1) unfolding pub_inv_def by blast+
  moreover have "y' = y\<lparr>pub_inflight := (pub_inflight y)(p := None)\<rparr>"
    using End_publish assms(2) by (auto split: option.splits list.splits)
  ultimately show ?thesis by (simp add: pub_inv_def)
next
  case (Call op)
  then have y': "y' = y\<lparr>pub_reg := snd (registry_step deliver pop cls new (pub_reg y) op)\<rparr>"
    using assms(2) by (auto simp: split_beta Let_def split: reg_op.splits)
  have "next_id (pub_reg y) \<le> next_id (pub_reg y')"
    using next_id_registry_step [of "pub_reg y" deliver pop cls new op] by (simp add: y')
  then show ?thesis
    using assms(1) registry_inv_step [of "pub_reg y" deliver pop cls new op] by (fastforce simp: y' pub_inv_def)
qed


text \<open>One section, from the side of a subscriber that is not released in it.\<close>

lemma pub_step_session:
  assumes "pub_inv y" and "heap (pub_reg y) i = Some s" and "l \<noteq> Call (Release_op i)"
    and "pub_step deliver pop cls new l y = Some (out, served, y')"
  shows "\<exists>s'. heap (pub_reg y') i = Some s' \<and> session deliver pop cls s (seen_in i l served) = (received i out, s')"
proof (cases l)
  case (Begin_publish p m)
  then show ?thesis using assms(2,4) by (auto simp: received_def Let_def split: if_splits)
next
  case (Serve p)
  then show ?thesis using assms(2,4) by (auto simp: received_def registry_apply_def split: option.splits list.splits)
next
  case (End_publish p)
  then show ?thesis using assms(2,4) by (auto simp: received_def split: option.splits list.splits)
next
  case (Call op)
  then have step: "registry_step deliver pop cls new (pub_reg y) op = (out, pub_reg y')"
    using assms(4) by (auto split: reg_op.splits prod.splits)
  have "Release_op i \<notin> set [op]" using Call assms(3) by auto
  moreover have "registry_run deliver pop cls new (pub_reg y) [op] = (out, pub_reg y')" using step by simp
  ultimately show ?thesis
    using registry_run_view [of "pub_reg y" i s "[op]"] assms(1,2) Call by (auto simp: pub_inv_def)
qed

text \<open>A publisher serves it exactly what it was asked to publish, in order.\<close>

lemma pub_step_pending:
  assumes "pub_inv y" and "heap (pub_reg y) i = Some s"
    and "pub_step deliver pop cls new l y = Some (out, served, y')"
  shows "by_publisher p (map (\<lambda>(q, j, m). (q, m)) (filter (\<lambda>(q, j, m). j = i) served)) @ pending i y' p =
    pending i y p @ begun p [l]"
proof (cases l)
  case (Begin_publish q m)
  have "i \<in> set (live_ids (heap (pub_reg y)) (subscribers (pub_reg y)))"
    using assms(1,2) by (auto simp: pub_inv_def registry_inv_def set_live_ids)
  moreover have "pub_inflight y q = None" using assms(3) Begin_publish by (cases "pub_inflight y q") auto
  ultimately show ?thesis
    using assms(3) Begin_publish by (auto simp: by_publisher_def pending_def Let_def)
next
  case (Serve q)
  then obtain j ids m where q: "pub_inflight y q = Some (j # ids, m)" and served: "served = [(q, j, m)]"
    and y': "y' = y\<lparr>pub_reg := registry_apply (\<lambda>s. deliver s m) j (pub_reg y), pub_inflight := (pub_inflight y)(q \<mapsto> (ids, m))\<rparr>"
    using assms(3) by (auto split: option.splits list.splits)
  have "distinct (j # ids)" using assms(1) q unfolding pub_inv_def by blast
  then show ?thesis using q by (auto simp: Serve served y' by_publisher_def pending_def)
next
  case (End_publish q)
  then show ?thesis
    using assms(3) by (cases "p = q") (auto simp: by_publisher_def pending_def split: option.splits list.splits)
next
  case (Call op)
  then show ?thesis using assms(3) by (auto simp: by_publisher_def pending_def split: reg_op.splits prod.splits)
qed

lemma by_publisher_append [simp]: "by_publisher p (a @ b) = by_publisher p a @ by_publisher p b"
  by (simp add: by_publisher_def)

lemma begun_Cons: "begun p (l # ls) = begun p [l] @ begun p ls"
  by (cases l) simp_all

lemma published_of_served: "published (map (\<lambda>(p, j, m). OpPublish m) xs) = map (\<lambda>(p, j, m). m) xs"
  by (induction xs) auto

lemma seen_published:
  assumes "pub_step deliver pop cls new l y = Some (out, served, y')"
  shows "published (seen_in i l served) = map (\<lambda>(p, j, m). m) (filter (\<lambda>(p, j, m). j = i) served)"
proof (cases l)
  case (Call op)
  then show ?thesis using assms by (auto split: reg_op.splits prod.splits)
qed (simp_all add: published_of_served)


section \<open>A run, as one subscriber sees it\<close>

lemma log_Nil [simp]: "log_view i [] = []" "log_received i [] = []" "log_served i [] = []"
  by (simp_all add: log_view_def log_received_def log_served_def)

lemma log_Cons [simp]:
  "log_view i ((l, out, served) # tr) = seen_in i l served @ log_view i tr"
  "log_received i ((l, out, served) # tr) = received i out @ log_received i tr"
  "log_served i ((l, out, served) # tr) =
     map (\<lambda>(p, j, m). (p, m)) (filter (\<lambda>(p, j, m). j = i) served) @ log_served i tr"
  by (simp_all add: log_view_def log_received_def log_served_def)

lemma published_append [simp]: "published (a @ b) = published a @ published b"
  by (induction a rule: published.induct) simp_all

lemma pub_run_Cons:
  assumes "pub_run d p c n (l # ls) y = Some (tr, y')"
  obtains out served y1 rest where "pub_step d p c n l y = Some (out, served, y1)"
    and "pub_run d p c n ls y1 = Some (rest, y')" and "tr = (l, out, served) # rest"
  using assms by (auto split: option.splits prod.splits)

text \<open>The sections of a run are a session of each subscriber that is not released in it.\<close>

lemma pub_run_session:
  assumes "pub_inv y" and "heap (pub_reg y) i = Some s" and "Call (Release_op i) \<notin> set ls"
    and "pub_run d p c n ls y = Some (tr, y')"
  shows "\<exists>s'. heap (pub_reg y') i = Some s' \<and> session d p c s (log_view i tr) = (log_received i tr, s') \<and>
    published (log_view i tr) = map snd (log_served i tr)"
  using assms
proof (induction ls arbitrary: y s tr)
  case (Cons l ls)
  obtain out served y1 rest where st: "pub_step d p c n l y = Some (out, served, y1)"
    and run: "pub_run d p c n ls y1 = Some (rest, y')" and tr: "tr = (l, out, served) # rest"
    by (rule pub_run_Cons [OF Cons.prems(4)])
  have l: "l \<noteq> Call (Release_op i)" using Cons.prems(3) by auto
  obtain s1 where s1: "heap (pub_reg y1) i = Some s1"
    and first: "session d p c s (seen_in i l served) = (received i out, s1)"
    using pub_step_session [OF Cons.prems(1,2) l st] by blast
  obtain s' where "heap (pub_reg y') i = Some s'"
    and "session d p c s1 (log_view i rest) = (log_received i rest, s')"
    and "published (log_view i rest) = map snd (log_served i rest)"
    using Cons.IH [OF pub_inv_step [OF Cons.prems(1) st] s1 _ run] Cons.prems(3) by auto
  moreover have "map (\<lambda>(p, j, m). m) xs = map (snd \<circ> (\<lambda>(p, j, m). (p, m))) xs" for xs :: "(nat \<times> nat \<times> 'b) list"
    by auto
  ultimately show ?case using first by (simp add: tr session_append seen_published [OF st])
qed simp

lemma pub_run_pending:
  assumes "pub_inv y" and "heap (pub_reg y) i = Some s" and "Call (Release_op i) \<notin> set ls"
    and "pub_run d p c n ls y = Some (tr, y')"
  shows "by_publisher q (log_served i tr) @ pending i y' q = pending i y q @ begun q ls"
  using assms
proof (induction ls arbitrary: y s tr)
  case (Cons l ls)
  obtain out served y1 rest where st: "pub_step d p c n l y = Some (out, served, y1)"
    and run: "pub_run d p c n ls y1 = Some (rest, y')" and tr: "tr = (l, out, served) # rest"
    by (rule pub_run_Cons [OF Cons.prems(4)])
  have l: "l \<noteq> Call (Release_op i)" using Cons.prems(3) by auto
  obtain s1 where s1: "heap (pub_reg y1) i = Some s1" using pub_step_session [OF Cons.prems(1,2) l st] by blast
  have "by_publisher q (log_served i rest) @ pending i y' q = pending i y1 q @ begun q ls"
    using Cons.IH [OF pub_inv_step [OF Cons.prems(1) st] s1 _ run] Cons.prems(3) by simp
  then have "by_publisher q (log_served i tr) @ pending i y' q =
      (by_publisher q (map (\<lambda>(q, j, m). (q, m)) (filter (\<lambda>(q, j, m). j = i) served)) @ pending i y1 q) @ begun q ls"
    by (simp add: tr)
  also have "\<dots> = pending i y q @ begun q (l # ls)"
    by (simp only: pub_step_pending [OF Cons.prems(1,2) st] append_assoc begun_Cons [of q l ls])
  finally show ?case .
qed (simp add: by_publisher_def)

section \<open>Through the contract\<close>

context fanout begin

lemma session_bound:
  assumes "length (queue_of s) \<le> limit" and "session deliver pop close_sub s ops = (got, s')"
  shows "length (queue_of s') \<le> limit"
  using assms
proof (induction ops arbitrary: s got)
  case (Cons op ops)
  show ?case
  proof (cases op)
    case (OpPublish m)
    then show ?thesis using Cons.IH [OF queue_bound [OF Cons.prems(1)]] Cons.prems(2) by simp
  next
    case OpPop
    then obtain rest where "session deliver pop close_sub (snd (pop s)) ops = (rest, s')"
      using Cons.prems(2) by (cases "session deliver pop close_sub (snd (pop s)) ops") (simp add: split_beta Let_def)
    then show ?thesis by (rule Cons.IH [OF queue_bound_pop [OF Cons.prems(1)]])
  next
    case OpClose
    then show ?thesis using Cons.IH [of "close_sub s"] Cons.prems by (simp add: queue_close)
  qed
qed simp

lemma concurrent_stream:
  assumes "registry_inv r" and "all_bounded r" and "heap r i = Some s" and "Call (Release_op i) \<notin> set ls"
    and "pub_run deliver pop close_sub new ls \<lparr>pub_reg = r, pub_inflight = \<lambda>_. None\<rparr> = Some (tr, y')"
  shows "\<exists>s'. heap (pub_reg y') i = Some s' \<and> length (queue_of s') \<le> limit \<and>
    subseq (log_received i tr @ queue_of s') (queue_of s @ map snd (log_served i tr)) \<and>
    (\<forall>p. by_publisher p (log_served i tr) @ pending i y' p = begun p ls)"
proof -
  let ?y = "\<lparr>pub_reg = r, pub_inflight = \<lambda>_. None\<rparr>"
  have inv: "pub_inv ?y" and s: "heap (pub_reg ?y) i = Some s"
    using assms(1,3) by (simp_all add: pub_inv_idle)
  obtain s' where s': "heap (pub_reg y') i = Some s'"
    and sess: "session deliver pop close_sub s (log_view i tr) = (log_received i tr, s')"
    and pub: "published (log_view i tr) = map snd (log_served i tr)"
    using pub_run_session [OF inv s assms(4,5)] by blast
  have len: "length (queue_of s) \<le> limit" by (rule all_boundedD [OF assms(2,3)])
  have "by_publisher p (log_served i tr) @ pending i y' p = begun p ls" for p
    using pub_run_pending [OF inv s assms(4,5), of p] by (simp add: pending_def)
  then show ?thesis
    using s' session_bound [OF len sess] session_subseq [OF len sess] by (auto simp: pub)
qed

end

section \<open>The two publishers\<close>

text \<open>The sections of the bus are those of \<open>bus_sys_step\<close>, with the state it reaches.\<close>

definition bus_of_pub :: "(bus_subscriber, event_message) pub_system \<Rightarrow> bus_system" where
  "bus_of_pub y = \<lparr>sys_bus = pub_reg y, inflight = pub_inflight y\<rparr>"

abbreviation bus_section where
  "bus_section \<equiv> pub_step bus_deliver bus_Pop bus_Close new_bus_subscriber"

abbreviation bus_sections where
  "bus_sections \<equiv> pub_run bus_deliver bus_Pop bus_Close new_bus_subscriber"

abbreviation hub_sections where
  "hub_sections \<equiv> pub_run hub_deliver hub_Pop hub_Close new_hub_subscriber"

lemma bus_section_step:
  assumes "bus_section l y = Some (out, served, y')"
  shows "bus_sys_step (bus_of_pub y) (bus_of_pub y')"
proof (cases l)
  case (Begin_publish p m)
  then have "inflight (bus_of_pub y) p = None"
    using assms by (cases "pub_inflight y p") (auto simp: bus_of_pub_def)
  from bus_sys_step.begin_publish [OF this, of m] show ?thesis
    using assms Begin_publish by (auto simp: bus_of_pub_def Let_def split: if_split_asm)
next
  case (Serve p)
  then obtain i ids m where q: "inflight (bus_of_pub y) p = Some (i # ids, m)"
    and y': "y' = y\<lparr>pub_reg := registry_apply (\<lambda>s. bus_deliver s m) i (pub_reg y), pub_inflight := (pub_inflight y)(p \<mapsto> (ids, m))\<rparr>"
    using assms by (auto simp: bus_of_pub_def split: option.splits list.splits)
  from bus_sys_step.serve [OF q] show ?thesis by (simp add: y' bus_of_pub_def)
next
  case (End_publish p)
  then obtain m where q: "inflight (bus_of_pub y) p = Some ([], m)"
    and y': "y' = y\<lparr>pub_inflight := (pub_inflight y)(p := None)\<rparr>"
    using assms by (auto simp: bus_of_pub_def split: option.splits list.splits)
  from bus_sys_step.end_publish [OF q] show ?thesis by (simp add: y' bus_of_pub_def)
next
  case (Call op)
  have "\<forall>m. op \<noteq> Publish_op m" and "y' = y\<lparr>pub_reg := snd (registry_step bus_deliver bus_Pop bus_Close new_bus_subscriber (pub_reg y) op)\<rparr>"
    using assms Call by (auto simp: split_beta Let_def split: reg_op.splits)
  with bus_sys_step.consumer [of op "bus_of_pub y"] show ?thesis by (simp add: bus_of_pub_def)
qed

text \<open>Any run of sections from an idle bus reaches a state that \<open>bus_reachable\<close> admits.\<close>

lemma bus_sections_reachable:
  "bus_reachable (bus_of_pub y) \<Longrightarrow> bus_sections ls y = Some (tr, y') \<Longrightarrow> bus_reachable (bus_of_pub y')"
proof (induction ls arbitrary: y tr)
  case (Cons l ls)
  obtain out served y1 rest where st: "bus_section l y = Some (out, served, y1)"
    and run: "bus_sections ls y1 = Some (rest, y')"
    by (rule pub_run_Cons [OF Cons.prems(2)])
  show ?case by (rule Cons.IH [OF bus_reachable.step [OF Cons.prems(1) bus_section_step [OF st]] run])
qed simp

lemma hub_stream_concurrent:
  assumes "hub_inv h" and "heap (hub_reg h) i = Some s" and "Call (Release_op i) \<notin> set ls"
    and "hub_sections ls \<lparr>pub_reg = hub_reg h, pub_inflight = \<lambda>_. None\<rparr> = Some (tr, y')"
  shows "\<exists>s'. heap (pub_reg y') i = Some s' \<and> hub_QueueSize s' \<le> 64 \<and>
    subseq (log_received i tr @ hs_queue s') (hs_queue s @ map snd (log_served i tr)) \<and>
    (\<forall>p. by_publisher p (log_served i tr) @ pending i y' p = begun p ls)"
  using hub.concurrent_stream [OF _ _ assms(2-4)] assms(1)
  by (simp add: hub_inv_def hub_QueueSize_def hub_kSubscriberQueueCapacity_def)

section \<open>Properties\<close>

text \<open>
  C19: whatever the interleaving of the publishers' mutex sections with the other calls,
  a subscriber that is not released keeps at most 32 events; what it has received and
  what waits is a subsequence of what it was served; and from each publisher it is served
  exactly the events that publisher was asked to publish, once each, in the order of its
  calls, but for the one it may still hold.
\<close>

theorem concurrent_events_in_order:
  assumes "bus_inv b" and "heap b i = Some s" and "Call (Release_op i) \<notin> set ls"
    and "bus_sections ls \<lparr>pub_reg = b, pub_inflight = \<lambda>_. None\<rparr> = Some (tr, y')"
  shows "\<exists>s'. heap (pub_reg y') i = Some s' \<and> length (bs_queue s') \<le> 32 \<and>
    subseq (log_received i tr @ bs_queue s') (bs_queue s @ map snd (log_served i tr)) \<and>
    (\<forall>p. by_publisher p (log_served i tr) @ pending i y' p = begun p ls)"
  using bus.concurrent_stream [OF _ _ assms(2-4)] assms(1)
  by (simp add: bus_inv_def bus_kSubscriberQueueCapacity_def)

text \<open>Two publishers that begin in one order and serve in the other.\<close>

definition demo_event :: "string \<Rightarrow> event_message" where
  "demo_event t = \<lparr>ev_timestamp_ms = 0, ev_level = ''info'', ev_title = t, ev_message = t\<rparr>"

definition demo_sections :: "event_message section_op list" where
  "demo_sections =
     [Begin_publish 0 (demo_event ''a''), Begin_publish 1 (demo_event ''b''), Serve 1, Serve 0,
      End_publish 1, Begin_publish 1 (demo_event ''c''), Call (Pop_op 0)]"

theorem concurrent_events_in_order_witness:
  "\<exists>tr y' s'. bus_sections demo_sections \<lparr>pub_reg = snd (bus_Subscribe registry_empty), pub_inflight = \<lambda>_. None\<rparr> = Some (tr, y') \<and>
    heap (pub_reg y') 0 = Some s' \<and> bs_queue s' = [demo_event ''a''] \<and> log_received 0 tr = [demo_event ''b''] \<and>
    subseq (log_received 0 tr @ bs_queue s') (map snd (log_served 0 tr)) \<and>
    by_publisher 1 (log_served 0 tr) @ pending 0 y' 1 = [demo_event ''b'', demo_event ''c'']"
proof -
  let ?b = "snd (bus_Subscribe registry_empty)"
  have inv: "bus_inv ?b"
    using bus_inv_run [OF bus_inv_empty, of "[Subscribe_op]"] by (simp add: bus_Subscribe_def)
  have s: "heap ?b 0 = Some new_bus_subscriber" by (simp add: bus_Subscribe_def registry_add_def registry_empty_def)
  obtain tr y' where run: "bus_sections demo_sections \<lparr>pub_reg = ?b, pub_inflight = \<lambda>_. None\<rparr> = Some (tr, y')"
    and got: "log_received 0 tr = [demo_event ''b'']"
    and left: "map_option bs_queue (heap (pub_reg y') 0) = Some [demo_event ''a'']"
    by (simp add: demo_sections_def bus_Subscribe_def registry_add_def registry_empty_def live_ids_def
        registry_apply_def registry_pop_def bus_deliver_def bus_Pop_def new_bus_subscriber_def received_def
        bus_kSubscriberQueueCapacity_def Let_def)
  have "Call (Release_op 0) \<notin> set demo_sections" by (simp add: demo_sections_def)
  from concurrent_events_in_order [OF inv s this run] obtain s' where "heap (pub_reg y') 0 = Some s'"
    and "subseq (log_received 0 tr @ bs_queue s') (map snd (log_served 0 tr))"
    and all: "\<forall>p. by_publisher p (log_served 0 tr) @ pending 0 y' p = begun p demo_sections"
    by (auto simp: new_bus_subscriber_def)
  moreover have "begun 1 demo_sections = [demo_event ''b'', demo_event ''c'']" by (simp add: demo_sections_def)
  ultimately show ?thesis using run got left by auto
qed

end
