(* ===== verification/Manager_Threads.thy ===== *)
theory Manager_Threads
  imports Concurrent_Fanout Switch_Runs
begin

text \<open>
  The calls of \<open>libs/config/src/profile_manager.cpp\<close> from several threads: each holds the
  manager's mutex to its end, and \<open>SwitchTo\<close> publishes its event while it holds it, one
  section of the event bus at a time, so other publishers (the directory watcher) and the
  bus's subscribers act in between. Any such run answers as the calls do one after the
  other, and every subscriber is served the switches' events in the order the switches
  took effect.
\<close>

section \<open>A call under the mutex\<close>

text \<open>\<open>SwitchTo\<close> up to the publication: its result, the text it publishes if any, the state.\<close>

type_synonym event_text = "string \<times> string \<times> string"

definition switch_transaction :: "'b json_library \<Rightarrow> 'b \<Rightarrow> 'e manager_config \<Rightarrow> string \<Rightarrow> ('b, 'e) manager_state \<Rightarrow>
    (json_error + switch_result) \<times> event_text option \<times> ('b, 'e) manager_state" where
  "switch_transaction lib no_bytes cfg profile_id st =
     (let announced = (\<lambda>t. if has_events cfg then Some t else None)
      in case store_Get lib (pm_fs st) profile_id of
        Inl e \<Rightarrow> (Inl e, None, st)
      | Inr None \<Rightarrow>
          (Inr \<lparr>sr_ok = False, sr_message = ''profile not found: '' @ profile_id, sr_rolled_back_keys = []\<rparr>, None, st)
      | Inr (Some p) \<Rightarrow>
          (case apply_settings (executors cfg) [] (prof_settings p) (pm_env st) of
             Failed message text rolled e \<Rightarrow>
               (Inr \<lparr>sr_ok = False, sr_message = message, sr_rolled_back_keys = rolled\<rparr>,
                announced (''error'', ''Profile switch failed'', text), st\<lparr>pm_env := e\<rparr>)
           | Completed e \<Rightarrow>
               (case store_SetActiveId lib no_bytes (pm_fs st) profile_id of
                  (Inl err, fs) \<Rightarrow> (Inl err, None, st\<lparr>pm_env := e, pm_fs := fs\<rparr>)
                | (Inr _, fs) \<Rightarrow>
                    (Inr \<lparr>sr_ok = True, sr_message = ''ok'', sr_rolled_back_keys = []\<rparr>,
                     announced (''info'', ''Profile applied'', prof_name p), st\<lparr>pm_env := e, pm_fs := fs\<rparr>))))"

definition publish_text :: "int \<Rightarrow> event_text option \<Rightarrow> event_bus \<Rightarrow> event_bus" where
  "publish_text now t b = (case t of None \<Rightarrow> b | Some (level, title, message) \<Rightarrow> PublishNow now level title message b)"

text \<open>With nobody else acting, the two parts are \<open>SwitchTo\<close>.\<close>

lemma SwitchTo_transaction:
  "SwitchTo lib no_bytes cfg now pid st =
     (let (r, t, st') = switch_transaction lib no_bytes cfg pid st
      in (r, st'\<lparr>pm_bus := publish_text now t (pm_bus st')\<rparr>))"
  by (auto simp: SwitchTo_def switch_transaction_def publish_text_def publish_if_def Let_def
      split: sum.splits option.splits switch_run.splits prod.splits)

text \<open>The calls of the class that hold the mutex, their answers, and one of them.\<close>

datatype manager_call = Call_SwitchTo string | Call_List | Call_ActiveId

datatype manager_answer =
    Answer_SwitchTo "json_error + switch_result"
  | Answer_List "json_error + profile list"
  | Answer_ActiveId string

fun transaction :: "'b json_library \<Rightarrow> 'b \<Rightarrow> 'e manager_config \<Rightarrow> manager_call \<Rightarrow> ('b, 'e) manager_state \<Rightarrow>
    manager_answer \<times> event_text option \<times> ('b, 'e) manager_state" where
  "transaction lib no_bytes cfg (Call_SwitchTo pid) st =
     (let (r, t, st') = switch_transaction lib no_bytes cfg pid st in (Answer_SwitchTo r, t, st'))"
| "transaction lib no_bytes cfg Call_List st = (Answer_List (pm_List lib st), None, st)"
| "transaction lib no_bytes cfg Call_ActiveId st = (Answer_ActiveId (pm_ActiveId lib st), None, st)"

section \<open>One call after the other\<close>

text \<open>The sequential manager: answers, texts of the published events, final state.\<close>

fun calls_run :: "'b json_library \<Rightarrow> 'b \<Rightarrow> 'e manager_config \<Rightarrow> manager_call list \<Rightarrow> ('b, 'e) manager_state \<Rightarrow>
    manager_answer list \<times> event_text list \<times> ('b, 'e) manager_state" where
  "calls_run lib no_bytes cfg [] st = ([], [], st)"
| "calls_run lib no_bytes cfg (call # calls) st =
     (let (a, t, st1) = transaction lib no_bytes cfg call st; (answers, texts, st2) = calls_run lib no_bytes cfg calls st1
      in (a # answers, (case t of None \<Rightarrow> texts | Some x \<Rightarrow> x # texts), st2))"

section \<open>Threads\<close>

text \<open>
  The mutex: free, held by a call that still has to publish (or has nothing to publish), or
  held by one that is publishing. The manager's publications are those of publisher 0.
\<close>

datatype manager_mutex = Free | Holding "event_text option" | Announcing

record ('b, 'e) manager_system =
  sys_mgr :: "('b, 'e) manager_state"
  sys_pubs :: "nat \<Rightarrow> (nat list \<times> event_message) option"
  sys_mutex :: manager_mutex
  sys_answers :: "manager_answer list"

definition idle_system :: "('b, 'e) manager_state \<Rightarrow> ('b, 'e) manager_system" where
  "idle_system st = \<lparr>sys_mgr = st, sys_pubs = \<lambda>_. None, sys_mutex = Free, sys_answers = []\<rparr>"

definition pub_of :: "('b, 'e) manager_system \<Rightarrow> (bus_subscriber, event_message) pub_system" where
  "pub_of y = \<lparr>pub_reg = pm_bus (sys_mgr y), pub_inflight = sys_pubs y\<rparr>"

definition with_pub :: "('b, 'e) manager_system \<Rightarrow> (bus_subscriber, event_message) pub_system \<Rightarrow> ('b, 'e) manager_system" where
  "with_pub y q = y\<lparr>sys_mgr := (sys_mgr y)\<lparr>pm_bus := pub_reg q\<rparr>, sys_pubs := pub_inflight q\<rparr>"

text \<open>
  \<open>Enter\<close>: a thread takes the mutex and runs its call up to the publication. \<open>Announce\<close>: the
  holder enters \<open>PublishNow\<close>, at the time given. \<open>Leave\<close>: it returns and releases the mutex.
  \<open>In_bus\<close>: a section of the event bus, of any thread; those that begin and end the holder's
  publication are the two before.
\<close>

datatype manager_op = Enter manager_call | Announce int | Leave | In_bus "event_message section_op"

definition text_event :: "int \<Rightarrow> event_text \<Rightarrow> event_message" where
  "text_event now t = (case t of (level, title, message) \<Rightarrow>
     \<lparr>ev_timestamp_ms = now, ev_level = level, ev_title = title, ev_message = message\<rparr>)"

fun holder_section :: "event_message section_op \<Rightarrow> bool" where
  "holder_section (Begin_publish p m) \<longleftrightarrow> p = 0"
| "holder_section (End_publish p) \<longleftrightarrow> p = 0"
| "holder_section _ \<longleftrightarrow> False"

definition section_of :: "event_message section_op \<Rightarrow> ('b, 'e) manager_system \<Rightarrow>
    (event_message section_log \<times> ('b, 'e) manager_system) option" where
  "section_of l y =
     (case bus_section l (pub_of y) of
        None \<Rightarrow> None
      | Some (out, served, q) \<Rightarrow> Some ([(l, out, served)], with_pub y q))"

fun manager_step :: "'b json_library \<Rightarrow> 'b \<Rightarrow> 'e manager_config \<Rightarrow> manager_op \<Rightarrow> ('b, 'e) manager_system \<Rightarrow>
    (event_message section_log \<times> ('b, 'e) manager_system) option" where
  "manager_step lib no_bytes cfg (Enter call) y =
     (if sys_mutex y \<noteq> Free then None
      else let (a, t, st) = transaction lib no_bytes cfg call (sys_mgr y)
        in Some ([], y\<lparr>sys_mgr := st, sys_mutex := Holding t, sys_answers := sys_answers y @ [a]\<rparr>))"
| "manager_step lib no_bytes cfg (Announce now) y =
     (case sys_mutex y of
        Holding (Some t) \<Rightarrow> section_of (Begin_publish 0 (text_event now t)) (y\<lparr>sys_mutex := Announcing\<rparr>)
      | _ \<Rightarrow> None)"
| "manager_step lib no_bytes cfg Leave y =
     (case sys_mutex y of
        Holding None \<Rightarrow> Some ([], y\<lparr>sys_mutex := Free\<rparr>)
      | Announcing \<Rightarrow> section_of (End_publish 0) (y\<lparr>sys_mutex := Free\<rparr>)
      | _ \<Rightarrow> None)"
| "manager_step lib no_bytes cfg (In_bus l) y =
     (if holder_section l then None else section_of l y)"

fun manager_run :: "'b json_library \<Rightarrow> 'b \<Rightarrow> 'e manager_config \<Rightarrow> manager_op list \<Rightarrow> ('b, 'e) manager_system \<Rightarrow>
    (event_message section_log \<times> ('b, 'e) manager_system) option" where
  "manager_run lib no_bytes cfg [] y = Some ([], y)"
| "manager_run lib no_bytes cfg (op # ops) y =
     (case manager_step lib no_bytes cfg op y of
        None \<Rightarrow> None
      | Some (tr1, y1) \<Rightarrow>
          (case manager_run lib no_bytes cfg ops y1 of None \<Rightarrow> None | Some (tr2, y2) \<Rightarrow> Some (tr1 @ tr2, y2)))"

text \<open>The calls of a run in the order in which they took the mutex.\<close>

fun entered :: "manager_op list \<Rightarrow> manager_call list" where
  "entered [] = []"
| "entered (Enter call # ops) = call # entered ops"
| "entered (_ # ops) = entered ops"

text \<open>What the holder has still to publish.\<close>

definition unannounced :: "('b, 'e) manager_system \<Rightarrow> event_text list" where
  "unannounced y = (case sys_mutex y of Holding (Some t) \<Rightarrow> [t] | _ \<Rightarrow> [])"

definition text_of :: "event_message \<Rightarrow> event_text" where
  "text_of m = (ev_level m, ev_title m, ev_message m)"


section \<open>A call does not look at the bus\<close>

lemma transaction_bus:
  "transaction lib no_bytes cfg call (st\<lparr>pm_bus := b\<rparr>) =
     (let (a, t, st') = transaction lib no_bytes cfg call st in (a, t, st'\<lparr>pm_bus := b\<rparr>))"
  by (cases call) (auto simp: switch_transaction_def pm_List_def pm_ActiveId_def Let_def
      split: sum.splits option.splits switch_run.splits prod.splits)

lemma calls_run_bus:
  "calls_run lib no_bytes cfg calls (st\<lparr>pm_bus := b\<rparr>) =
     (let (answers, texts, st') = calls_run lib no_bytes cfg calls st in (answers, texts, st'\<lparr>pm_bus := b\<rparr>))"
  by (induction calls arbitrary: st) (simp_all add: transaction_bus split_beta Let_def split: option.split)

lemma transaction_keeps_bus: "transaction lib no_bytes cfg call st = (a, t, st') \<Longrightarrow> pm_bus st' = pm_bus st"
  by (cases call) (auto simp: switch_transaction_def Let_def
      split: sum.splits option.splits switch_run.splits prod.splits)

text \<open>Switches one after the other are \<open>switch_run\<close>, whatever the clock says.\<close>

lemma switch_run_calls:
  assumes "switch_run lib no_bytes cfg calls st = (results, st')"
    and "calls_run lib no_bytes cfg (map (\<lambda>c. Call_SwitchTo (snd c)) calls) st = (answers, texts, st'')"
  shows "answers = map Answer_SwitchTo results \<and> pm_env st'' = pm_env st' \<and> pm_fs st'' = pm_fs st'"
  using assms
proof (induction calls arbitrary: st results st' answers texts st'')
  case (Cons call calls)
  obtain now pid where call: "call = (now, pid)" by (cases call)
  obtain r t st1 where tr: "switch_transaction lib no_bytes cfg pid st = (r, t, st1)"
    by (cases "switch_transaction lib no_bytes cfg pid st")
  let ?b = "publish_text now t (pm_bus st1)"
  obtain rs z where sw: "switch_run lib no_bytes cfg calls (st1\<lparr>pm_bus := ?b\<rparr>) = (rs, z)"
    by (cases "switch_run lib no_bytes cfg calls (st1\<lparr>pm_bus := ?b\<rparr>)")
  obtain as ts w where cr: "calls_run lib no_bytes cfg (map (\<lambda>c. Call_SwitchTo (snd c)) calls) st1 = (as, ts, w)"
    by (cases "calls_run lib no_bytes cfg (map (\<lambda>c. Call_SwitchTo (snd c)) calls) st1")
  have "as = map Answer_SwitchTo rs \<and> pm_env (w\<lparr>pm_bus := ?b\<rparr>) = pm_env z \<and> pm_fs (w\<lparr>pm_bus := ?b\<rparr>) = pm_fs z"
    by (rule Cons.IH [OF sw, of as ts]) (simp add: calls_run_bus cr)
  then show ?case
    using Cons.prems tr sw cr by (auto simp: call SwitchTo_transaction)
qed simp

section \<open>A run of threads is a run of the bus and of the sequential manager\<close>

lemma pub_run_append:
  "pub_run d p c n (a @ b) y =
     (case pub_run d p c n a y of
        None \<Rightarrow> None
      | Some (tr1, y1) \<Rightarrow> (case pub_run d p c n b y1 of None \<Rightarrow> None | Some (tr2, y2) \<Rightarrow> Some (tr1 @ tr2, y2)))"
  by (induction a arbitrary: y) (auto split: option.splits prod.splits)

lemma with_pub_simps [simp]:
  "pub_of (with_pub y q) = q" "sys_mutex (with_pub y q) = sys_mutex y" "sys_answers (with_pub y q) = sys_answers y"
  "pub_of (y\<lparr>sys_mutex := m\<rparr>) = pub_of y" "sys_mgr (with_pub y q) = (sys_mgr y)\<lparr>pm_bus := pub_reg q\<rparr>"
  by (simp_all add: pub_of_def with_pub_def)

lemma section_of_Some:
  assumes "section_of l y = Some (tr, y')"
  obtains q where "bus_sections (map fst tr) (pub_of y) = Some (tr, q)" and "y' = with_pub y q" and "map fst tr = [l]"
  using assms by (auto simp: section_of_def split: option.splits prod.splits)

lemma section_of_sections:
  assumes "section_of l y = Some (tr, y')"
  shows "bus_sections (map fst tr) (pub_of y) = Some (tr, pub_of y')"
  using assms by (rule section_of_Some) simp

lemma manager_step_sections:
  assumes "manager_step lib no_bytes cfg op y = Some (tr, y')"
  shows "bus_sections (map fst tr) (pub_of y) = Some (tr, pub_of y')"
proof (cases op)
  case (Enter call)
  then show ?thesis
    using assms by (auto simp: pub_of_def Let_def split: if_splits prod.splits dest: transaction_keeps_bus)
next
  case (In_bus l)
  then show ?thesis using assms by (auto split: if_splits dest: section_of_sections)
qed (use assms in \<open>auto split: manager_mutex.splits option.splits dest: section_of_sections\<close>)

lemma manager_run_Cons:
  assumes "manager_run lib no_bytes cfg (op # ops) y = Some (tr, y')"
  obtains tr1 y1 tr2 where "manager_step lib no_bytes cfg op y = Some (tr1, y1)"
    and "manager_run lib no_bytes cfg ops y1 = Some (tr2, y')" and "tr = tr1 @ tr2"
  using assms by (auto split: option.splits prod.splits)

lemma manager_run_sections:
  "manager_run lib no_bytes cfg ops y = Some (tr, y') \<Longrightarrow> bus_sections (map fst tr) (pub_of y) = Some (tr, pub_of y')"
proof (induction ops arbitrary: y tr)
  case (Cons op ops)
  obtain tr1 y1 tr2 where one: "manager_step lib no_bytes cfg op y = Some (tr1, y1)"
    and more: "manager_run lib no_bytes cfg ops y1 = Some (tr2, y')" and tr: "tr = tr1 @ tr2"
    by (rule manager_run_Cons [OF Cons.prems])
  show ?case using manager_step_sections [OF one] Cons.IH [OF more] by (simp add: tr pub_run_append)
qed simp

lemma begun_append: "begun p (a @ b) = begun p a @ begun p b"
  by (induction p a rule: begun.induct) simp_all

lemma text_of_event [simp]: "text_of (text_event now t) = t"
  by (simp add: text_of_def text_event_def split: prod.splits)

lemma begun_section: "\<not> holder_section l \<Longrightarrow> begun 0 [l] = []"
  by (cases l) simp_all

text \<open>What a step other than \<open>Enter\<close> does to the sequential side.\<close>

lemma manager_step_silent:
  assumes "manager_step lib no_bytes cfg op y = Some (tr, y')" and "\<forall>call. op \<noteq> Enter call"
  shows "\<exists>b. sys_mgr y' = (sys_mgr y)\<lparr>pm_bus := b\<rparr> \<and> sys_answers y' = sys_answers y \<and>
    map text_of (begun 0 (map fst tr)) @ unannounced y' = unannounced y"
proof -
  consider now t where "op = Announce now" and "sys_mutex y = Holding (Some t)"
      and "section_of (Begin_publish 0 (text_event now t)) (y\<lparr>sys_mutex := Announcing\<rparr>) = Some (tr, y')"
    | "op = Leave" and "sys_mutex y = Holding None" and "tr = []" and "y' = y\<lparr>sys_mutex := Free\<rparr>"
    | "op = Leave" and "sys_mutex y = Announcing" and "section_of (End_publish 0) (y\<lparr>sys_mutex := Free\<rparr>) = Some (tr, y')"
    | l where "op = In_bus l" and "\<not> holder_section l" and "section_of l y = Some (tr, y')"
    using assms by (cases op) (auto split: manager_mutex.splits option.splits if_splits)
  then show ?thesis
  proof cases
    case 1
    from 1(3) show ?thesis
      by (rule section_of_Some) (use 1(2) in \<open>auto simp: unannounced_def\<close>)
  next
    case 2
    then show ?thesis by (intro exI [of _ "pm_bus (sys_mgr y)"]) (simp add: unannounced_def)
  next
    case 3
    from 3(3) show ?thesis by (rule section_of_Some) (use 3(2) in \<open>auto simp: unannounced_def\<close>)
  next
    case 4
    from 4(3) show ?thesis
      by (rule section_of_Some) (use begun_section [OF 4(2)] in \<open>auto simp: unannounced_def\<close>)
  qed
qed

lemma manager_run_calls:
  assumes "manager_run lib no_bytes cfg ops y = Some (tr, y')"
    and "calls_run lib no_bytes cfg (entered ops) (sys_mgr y) = (answers, texts, st)"
  shows "sys_answers y' = sys_answers y @ answers \<and> pm_env (sys_mgr y') = pm_env st \<and> pm_fs (sys_mgr y') = pm_fs st \<and>
    map text_of (begun 0 (map fst tr)) @ unannounced y' = unannounced y @ texts"
  using assms
proof (induction ops arbitrary: y tr answers texts st)
  case (Cons op ops)
  obtain tr1 y1 tr2 where one: "manager_step lib no_bytes cfg op y = Some (tr1, y1)"
    and more: "manager_run lib no_bytes cfg ops y1 = Some (tr2, y')" and tr: "tr = tr1 @ tr2"
    by (rule manager_run_Cons [OF Cons.prems(1)])
  show ?case
  proof (cases "\<exists>call. op = Enter call")
    case True
    then obtain call where op: "op = Enter call" by blast
    obtain a t st1 where txn: "transaction lib no_bytes cfg call (sys_mgr y) = (a, t, st1)"
      by (cases "transaction lib no_bytes cfg call (sys_mgr y)")
    have y1: "sys_mutex y = Free" "tr1 = []" "y1 = y\<lparr>sys_mgr := st1, sys_mutex := Holding t, sys_answers := sys_answers y @ [a]\<rparr>"
      using one by (simp_all add: op txn split: if_splits)
    obtain as ts z where rest: "calls_run lib no_bytes cfg (entered ops) (sys_mgr y1) = (as, ts, z)"
      by (cases "calls_run lib no_bytes cfg (entered ops) (sys_mgr y1)")
    show ?thesis
      using Cons.IH [OF more rest] Cons.prems(2) rest
      by (auto simp: op txn tr y1 unannounced_def split: option.splits)
  next
    case False
    then have "entered (op # ops) = entered ops" by (cases op) simp_all
    moreover obtain b where b: "sys_mgr y1 = (sys_mgr y)\<lparr>pm_bus := b\<rparr>" "sys_answers y1 = sys_answers y"
      and texts: "map text_of (begun 0 (map fst tr1)) @ unannounced y1 = unannounced y"
      using manager_step_silent [OF one] False by blast
    ultimately have rest: "calls_run lib no_bytes cfg (entered ops) (sys_mgr y1) = (answers, texts, st\<lparr>pm_bus := b\<rparr>)"
      using Cons.prems(2) by (simp add: calls_run_bus)
    from Cons.IH [OF more rest] b show ?thesis
      by (simp add: tr begun_append flip: texts)
  qed
qed simp


lemma manager_step_call:
  assumes "manager_step lib no_bytes cfg op y = Some (tr, y')" and "Call c \<in> set (map fst tr)"
  shows "op = In_bus (Call c)"
proof (cases op)
  case (Enter call)
  then show ?thesis using assms by (auto split: if_splits prod.splits)
next
  case (Announce now)
  then show ?thesis using assms by (auto split: manager_mutex.splits option.splits elim: section_of_Some)
next
  case Leave
  then show ?thesis using assms by (auto split: manager_mutex.splits option.splits elim: section_of_Some)
next
  case (In_bus l)
  then show ?thesis using assms by (auto split: if_splits elim: section_of_Some)
qed

lemma manager_run_call:
  assumes "manager_run lib no_bytes cfg ops y = Some (tr, y')" and "Call c \<in> set (map fst tr)"
  shows "In_bus (Call c) \<in> set ops"
  using assms
proof (induction ops arbitrary: y tr)
  case (Cons op ops)
  obtain tr1 y1 tr2 where one: "manager_step lib no_bytes cfg op y = Some (tr1, y1)"
    and more: "manager_run lib no_bytes cfg ops y1 = Some (tr2, y')" and tr: "tr = tr1 @ tr2"
    by (rule manager_run_Cons [OF Cons.prems(1)])
  from Cons.prems(2) consider "Call c \<in> set (map fst tr1)" | "Call c \<in> set (map fst tr2)"
    unfolding tr map_append set_append by blast
  then show ?case using manager_step_call [OF one] Cons.IH [OF more] by cases auto
qed simp

lemma linearised:
  assumes "bus_inv (pm_bus st)" and "heap (pm_bus st) i = Some s" and "In_bus (Call (Release_op i)) \<notin> set ops"
    and "manager_run lib no_bytes cfg ops (idle_system st) = Some (tr, y')"
    and "calls_run lib no_bytes cfg (entered ops) st = (answers, texts, st')"
  shows "sys_answers y' = answers \<and> pm_env (sys_mgr y') = pm_env st' \<and> pm_fs (sys_mgr y') = pm_fs st' \<and>
    map text_of (by_publisher 0 (log_served i tr) @ pending i (pub_of y') 0) @ unannounced y' = texts"
proof -
  let ?y = "\<lparr>pub_reg = pm_bus st, pub_inflight = \<lambda>_. None\<rparr> :: (bus_subscriber, event_message) pub_system"
  have start: "pub_of (idle_system st) = ?y" by (simp add: pub_of_def idle_system_def)
  have inv: "pub_inv ?y" using assms(1) by (simp add: bus_inv_def pub_inv_idle)
  have live: "heap (pub_reg ?y) i = Some s" using assms(2) by simp
  have keeps: "Call (Release_op i) \<notin> set (map fst tr)" using manager_run_call [OF assms(4)] assms(3) by blast
  have "bus_sections (map fst tr) ?y = Some (tr, pub_of y')"
    using manager_run_sections [OF assms(4)] by (simp add: start)
  from pub_run_pending [OF inv live keeps this, of 0]
  have "by_publisher 0 (log_served i tr) @ pending i (pub_of y') 0 = begun 0 (map fst tr)"
    by (simp add: pending_def)
  moreover have "calls_run lib no_bytes cfg (entered ops) (sys_mgr (idle_system st)) = (answers, texts, st')"
    using assms(5) by (simp add: idle_system_def)
  ultimately show ?thesis
    using manager_run_calls [OF assms(4)] by (simp add: idle_system_def unannounced_def)
qed

section \<open>Properties\<close>

text \<open>
  C3: whatever threads call the profile manager and whatever else happens on the event bus in
  between, every call is answered, and the system and the store are left, as by the same
  calls one after the other in the order in which they took the mutex; and each subscriber
  that stays is served the manager's events in that order, each once, but for the last ones
  still on their way.
\<close>

theorem concurrent_calls_linearised:
  assumes "bus_inv (pm_bus st)" and "heap (pm_bus st) i = Some s" and "In_bus (Call (Release_op i)) \<notin> set ops"
    and "manager_run lib no_bytes cfg ops (idle_system st) = Some (tr, y')"
    and "calls_run lib no_bytes cfg (entered ops) st = (answers, texts, st')"
  shows "sys_answers y' = answers \<and> pm_env (sys_mgr y') = pm_env st' \<and> pm_fs (sys_mgr y') = pm_fs st' \<and>
    map text_of (by_publisher 0 (log_served i tr) @ pending i (pub_of y') 0) @ unannounced y' = texts"
  by (rule linearised [OF assms])

text \<open>
  A switch whose event overtakes nothing: the watcher begins to publish before it, and a
  second thread asks for the active profile after it.
\<close>

definition watched_state :: "(json, guid \<times> u32) manager_state" where
  "watched_state = quiet_state\<lparr>pm_bus := snd (bus_Subscribe registry_empty)\<rparr>"

definition demo_threads :: "manager_op list" where
  "demo_threads =
     [In_bus (Begin_publish 1 (demo_event 3)), Enter (Call_SwitchTo ''q''), Announce 7, In_bus (Serve 0),
      In_bus (Serve 1), Leave, Enter Call_ActiveId, In_bus (Call (Pop_op 0)), Leave]"

lemma quiet_transaction:
  "switch_transaction identity_json JNull demo_config ''q'' quiet_state =
     (Inr \<lparr>sr_ok = True, sr_message = ''ok'', sr_rolled_back_keys = []\<rparr>, Some (''info'', ''Profile applied'', ''Quiet''),
      quiet_state\<lparr>pm_env := (kPowerSaver, 30), pm_fs := plain_disk
        [(''q.json'', json_of_profile quiet_profile), (''active.json'', JObject [(''active'', JString ''q'')])]\<rparr>)"
  using quiet_applies quiet_SetActiveId quiet_Get by (simp add: switch_transaction_def) (simp add: quiet_profile_def)

theorem concurrent_calls_linearised_witness:
  "\<exists>tr y'. manager_run identity_json JNull demo_config demo_threads (idle_system watched_state) = Some (tr, y') \<and>
     sys_answers y' = [Answer_SwitchTo (Inr \<lparr>sr_ok = True, sr_message = ''ok'', sr_rolled_back_keys = []\<rparr>), Answer_ActiveId ''q''] \<and>
     map text_of (by_publisher 0 (log_served 0 tr)) = [(''info'', ''Profile applied'', ''Quiet'')] \<and>
     log_received 0 tr = [text_event 7 (''info'', ''Profile applied'', ''Quiet'')]"
proof -
  let ?answers = "[Answer_SwitchTo (Inr \<lparr>sr_ok = True, sr_message = ''ok'', sr_rolled_back_keys = []\<rparr>), Answer_ActiveId ''q'']"
  let ?st = "quiet_state\<lparr>pm_env := (kPowerSaver, 30), pm_fs := plain_disk
      [(''q.json'', json_of_profile quiet_profile), (''active.json'', JObject [(''active'', JString ''q'')])]\<rparr>"
  have inv: "bus_inv (pm_bus watched_state)"
    using bus_inv_run [OF bus_inv_empty, of "[Subscribe_op]"] by (simp add: watched_state_def bus_Subscribe_def)
  have s: "heap (pm_bus watched_state) 0 = Some new_bus_subscriber"
    by (simp add: watched_state_def bus_Subscribe_def registry_add_def registry_empty_def)
  have switch: "transaction identity_json JNull demo_config (Call_SwitchTo ''q'') (quiet_state\<lparr>pm_bus := b\<rparr>) =
      (hd ?answers, Some (''info'', ''Profile applied'', ''Quiet''), ?st\<lparr>pm_bus := b\<rparr>)" for b
    using transaction_bus [of identity_json JNull demo_config "Call_SwitchTo ''q''" _ quiet_state]
    by (simp add: quiet_transaction)
  have active: "transaction identity_json JNull demo_config Call_ActiveId st = (Answer_ActiveId ''q'', None, st)"
    if "pm_fs st = pm_fs ?st" for st :: "(json, guid \<times> u32) manager_state"
    using that by (simp add: pm_ActiveId_def store_ActiveId_def read_file_def lookup_def plain_disk_def identity_json_def)
  have calls: "calls_run identity_json JNull demo_config (entered demo_threads) watched_state =
      (?answers, [(''info'', ''Profile applied'', ''Quiet'')], ?st\<lparr>pm_bus := pm_bus watched_state\<rparr>)"
    by (simp add: demo_threads_def watched_state_def switch active del: transaction.simps)
  obtain tr y' where run: "manager_run identity_json JNull demo_config demo_threads (idle_system watched_state) = Some (tr, y')"
    and got: "log_received 0 tr = [text_event 7 (''info'', ''Profile applied'', ''Quiet'')]"
    and served: "by_publisher 0 (log_served 0 tr) = [text_event 7 (''info'', ''Profile applied'', ''Quiet'')]"
    by (simp add: demo_threads_def idle_system_def watched_state_def switch active section_of_def pub_of_def with_pub_def Let_def
        bus_Subscribe_def registry_add_def registry_empty_def live_ids_def registry_apply_def registry_pop_def bus_deliver_def
        bus_Pop_def new_bus_subscriber_def received_def by_publisher_def bus_kSubscriberQueueCapacity_def del: transaction.simps)
  have keeps: "In_bus (Call (Release_op 0)) \<notin> set demo_threads" by (simp add: demo_threads_def)
  from concurrent_calls_linearised [OF inv s keeps run calls] run got served show ?thesis by auto
qed

end
