(* ===== verification/Client_Sessions.thy ===== *)
theory Client_Sessions
  imports Client_Worker
begin

text \<open>
  \<open>TelemetryLoop\<close> of \<open>apps/hwpanel-client/backend/client_worker.cpp\<close> over the life of a
  client: connections come and go, each successful one is a new \<open>Subscribe\<close> call with a new
  subscriber, and the service goes on publishing in between. The theory follows all calls
  of one client against one hub, up to its charts.
\<close>

section \<open>The calls of one client\<close>

text \<open>The request \<open>TelemetryLoop\<close> sends: one hertz, no filter.\<close>

definition client_request :: subscribe_request where
  "client_request = \<lparr>interval_hz = literal 1, metric_filter = []\<rparr>"

text \<open>
  A session: what happens to the hub before the call reaches the service, and the turns of
  the call. The messages written in each session, and the hub at the end.
\<close>

type_synonym hub_session = "telemetry_sample reg_op list \<times> telemetry_sample rpc_turn list"

fun hub_sessions :: "int \<Rightarrow> hub_session list \<Rightarrow> telemetry_hub \<Rightarrow> pb_sample list list \<times> telemetry_hub" where
  "hub_sessions u [] h = ([], h)"
| "hub_sessions u ((gap, turns) # rest) h =
     (let (msgs, h1) = rpc_Subscribe u client_request turns (snd (hub_run h gap));
          (more, h2) = hub_sessions u rest h1
      in (msgs # more, h2))"

text \<open>Nobody but the call itself uses the subscriber it makes.\<close>

fun sessions_foreign :: "int \<Rightarrow> hub_session list \<Rightarrow> telemetry_hub \<Rightarrow> bool" where
  "sessions_foreign u [] h \<longleftrightarrow> True"
| "sessions_foreign u ((gap, turns) # rest) h \<longleftrightarrow>
     (let h0 = snd (hub_run h gap)
      in list_all (\<lambda>t. foreign (next_id (hub_reg h0)) (rt_ops t)) turns \<and>
         sessions_foreign u rest (snd (rpc_Subscribe u client_request turns h0)))"

definition published_during :: "telemetry_sample rpc_turn list \<Rightarrow> telemetry_sample list" where
  "published_during turns = concat (map (ops_published \<circ> rt_ops) turns)"

text \<open>Everything published from the first session to the last.\<close>

definition all_published :: "hub_session list \<Rightarrow> telemetry_sample list" where
  "all_published ss = concat (map (\<lambda>(gap, turns). ops_published gap @ published_during turns) ss)"

text \<open>The service keeps up with a call that is not broken off.\<close>

definition keeps_up :: "telemetry_sample rpc_turn list \<Rightarrow> bool" where
  "keeps_up turns \<longleftrightarrow> list_all (\<lambda>t. \<not> rt_cancelled t \<and> rt_write_ok t \<and> length (ops_published (rt_ops t)) \<le> 1) turns"

text \<open>The turns of the client's loop that reach a call, and what it reads in them.\<close>

definition read_in_calls :: "pb_sample link_turn list \<Rightarrow> pb_sample list list" where
  "read_in_calls links = map lt_messages (filter (\<lambda>t. lt_ready t \<and> lt_reader t) links)"

lemma TelemetryLoop_read:
  "fst (TelemetryLoop links) = concat (map (map sample_of_proto) (read_in_calls links))"
  by (simp add: TelemetryLoop_emitted read_in_calls_def) (induction links; simp)

section \<open>Lemmas\<close>

lemma rpc_Subscribe_inv:
  assumes "hub_inv h" and "\<forall>t \<in> set turns. foreign (next_id (hub_reg h)) (rt_ops t)"
    and "rpc_Subscribe u request turns h = (msgs, h')"
  shows "hub_inv h'"
proof -
  obtain i h1 where sub: "hub_Subscribe h = (i, h1)" by (cases "hub_Subscribe h")
  note new = hub_Subscribe_new [OF assms(1) sub]
  obtain h2 where loop: "subscribe_loop i (set (metric_filter request)) (decimation u (interval_hz request)) turns 0 h1 = (msgs, h2)"
    and h': "h' = h2\<lparr>hub_reg := registry_apply hub_Close i (hub_reg h2)\<rparr>"
    using assms(3) sub by (auto simp: rpc_Subscribe_def Let_def split: prod.splits)
  have "\<forall>t \<in> set turns. foreign i (rt_ops t)" using assms(2) new(1) by simp
  from subscribe_loop_run [OF this loop] obtain past where "h2 = hub_after i past h1" by blast
  then have "hub_inv h2" by (simp add: hub_after_def hub_inv_run [OF new(2)])
  moreover have "h' = snd (hub_run h2 [Close_op i])" by (simp add: h' hub_step_def)
  ultimately show ?thesis by (simp only: hub_inv_run)
qed

lemma client_request_stream:
  assumes "hub_inv h" and "\<forall>t \<in> set turns. foreign (next_id (hub_reg h)) (rt_ops t)"
    and "rpc_Subscribe u client_request turns h = (msgs, h')"
  shows "subseq (map sample_of_proto msgs) (published_during turns) \<and>
    (keeps_up turns \<longrightarrow> map sample_of_proto msgs = published_during turns)"
proof -
  obtain popped where sub: "subseq popped (published_during turns)"
    and pre: "prefix msgs (map (\<lambda>s. sample_to_proto s {}) popped)"
    and all: "keeps_up turns \<longrightarrow> popped = published_during turns \<and> msgs = map (\<lambda>s. sample_to_proto s {}) popped"
    using rpc_Subscribe_stream [OF assms]
    by (auto simp: client_request_def published_during_def keeps_up_def list_all_iff)
  have trip: "map sample_of_proto (map (\<lambda>s. sample_to_proto s {}) xs) = xs" for xs by (simp add: comp_def)
  have "prefix (map sample_of_proto msgs) popped" using map_mono_prefix [OF pre, of sample_of_proto] by (simp only: trip)
  then have "subseq (map sample_of_proto msgs) (published_during turns)"
    using sub by (meson prefix_imp_subseq subseq_order.order_trans)
  then show ?thesis using all trip by metis
qed

lemma client_sessions:
  assumes "hub_inv h" and "sessions_foreign u ss h" and "hub_sessions u ss h = (written, h')"
    and "list_all2 prefix read written"
  shows "subseq (concat (map (map sample_of_proto) read)) (all_published ss) \<and>
    (list_all (keeps_up \<circ> snd) ss \<and> read = written \<longrightarrow>
       concat (map (map sample_of_proto) read) = concat (map (published_during \<circ> snd) ss))"
  using assms
proof (induction ss arbitrary: h h' written read)
  case Nil
  then show ?case by (simp add: all_published_def)
next
  case (Cons session ss)
  obtain gap turns where session: "session = (gap, turns)" by (cases session)
  let ?h0 = "snd (hub_run h gap)"
  obtain msgs h1 where call: "rpc_Subscribe u client_request turns ?h0 = (msgs, h1)"
    by (cases "rpc_Subscribe u client_request turns ?h0")
  obtain more h2 where rest: "hub_sessions u ss h1 = (more, h2)" by (cases "hub_sessions u ss h1")
  have written: "written = msgs # more" using Cons.prems(3) by (simp add: session call rest)
  then obtain r rs where read: "read = r # rs" "prefix r msgs" "list_all2 prefix rs more"
    using Cons.prems(4) by (auto simp: list_all2_Cons2)
  have inv0: "hub_inv ?h0" by (rule hub_inv_run [OF Cons.prems(1)])
  have f: "\<forall>t \<in> set turns. foreign (next_id (hub_reg ?h0)) (rt_ops t)" and fs: "sessions_foreign u ss h1"
    using Cons.prems(2) by (simp_all add: session call list_all_iff)
  note one = client_request_stream [OF inv0 f call]
  note IH = Cons.IH [OF rpc_Subscribe_inv [OF inv0 f call] fs rest read(3)]
  have "subseq (map sample_of_proto r) (published_during turns)"
    using one map_mono_prefix [OF read(2), of sample_of_proto] by (meson prefix_imp_subseq subseq_order.order_trans)
  then have "subseq (map sample_of_proto r) (ops_published gap @ published_during turns)"
    by (rule subseq_drop_many)
  from list_emb_append_mono [OF this conjunct1 [OF IH]]
  have "subseq (concat (map (map sample_of_proto) read)) (all_published (session # ss))"
    by (simp add: read(1) session all_published_def)
  then show ?case using one IH by (simp add: read(1) session written)
qed


section \<open>Properties\<close>

text \<open>
  C10: over all connections of a client's life the samples its telemetry loop emits are a
  subsequence of those published in that time, so no chart shows a sample twice or out of
  order: its CPU values are the last 60 of them. If no call is broken off and the service and
  the client keep up, only what was published between two calls is missing.
\<close>

theorem reconnects_show_subsequence:
  assumes "hub_inv h" and "sessions_foreign u ss h" and "hub_sessions u ss h = (written, h')"
    and "list_all2 prefix (read_in_calls links) written"
    and "samples = fst (TelemetryLoop links)"
    and "ui = fold (ui_receive fmt now) (map SampleReceived samples) ui_init"
  shows "subseq samples (all_published ss) \<and>
    series_values (cpu_usage (ui_telemetry ui)) = last_n 60 (values_of ''cpu.usage_pct'' (concat (map metrics samples))) \<and>
    (list_all (keeps_up \<circ> snd) ss \<and> read_in_calls links = written \<longrightarrow>
       samples = concat (map (published_during \<circ> snd) ss))"
proof -
  have "ui_telemetry ui = fold HandleSample samples TelemetryStore"
    unfolding assms(6) by (simp add: ui_samples ui_init_def)
  then have "series_values (cpu_usage (ui_telemetry ui)) = last_n 60 (values_of ''cpu.usage_pct'' (concat (map metrics samples)))"
    by (simp add: fold_HandleSample append_all_def TelemetryStore_def series_shows)
  then show ?thesis
    using client_sessions [OF assms(1-4)] unfolding assms(5) TelemetryLoop_read by blast
qed

text \<open>Two calls; a sample is published between them, and one turn finds no channel.\<close>

definition demo_sessions :: "hub_session list" where
  "demo_sessions =
     [([], [demo_turn [demo_sample 1]]), ([Publish_op (demo_sample 2)], [demo_turn [demo_sample 3], demo_turn [demo_sample 4]])]"

theorem reconnects_show_subsequence_witness:
  "\<exists>a b h'. hub_sessions 0 demo_sessions (TelemetryHub 300) = ([a, b], h') \<and>
     fst (TelemetryLoop [\<lparr>lt_ready = True, lt_reader = True, lt_messages = a\<rparr>,
       \<lparr>lt_ready = False, lt_reader = True, lt_messages = []\<rparr>, \<lparr>lt_ready = True, lt_reader = True, lt_messages = b\<rparr>]) =
     [demo_sample 1, demo_sample 3, demo_sample 4]"
proof -
  obtain a h1 where one: "rpc_Subscribe 0 client_request [demo_turn [demo_sample 1]] (TelemetryHub 300) = (a, h1)"
    by (cases "rpc_Subscribe 0 client_request [demo_turn [demo_sample 1]] (TelemetryHub 300)")
  obtain b h2 where two: "rpc_Subscribe 0 client_request [demo_turn [demo_sample 3], demo_turn [demo_sample 4]]
      (snd (hub_run h1 [Publish_op (demo_sample 2)])) = (b, h2)"
    by (cases "rpc_Subscribe 0 client_request [demo_turn [demo_sample 3], demo_turn [demo_sample 4]]
      (snd (hub_run h1 [Publish_op (demo_sample 2)]))")
  have run: "hub_sessions 0 demo_sessions (TelemetryHub 300) = ([a, b], h2)"
    using one two by (simp add: demo_sessions_def)
  have f: "sessions_foreign 0 demo_sessions (TelemetryHub 300)"
    by (simp add: demo_sessions_def demo_turn_def foreign_def Let_def)
  let ?links = "[\<lparr>lt_ready = True, lt_reader = True, lt_messages = a\<rparr>,
       \<lparr>lt_ready = False, lt_reader = True, lt_messages = []\<rparr>, \<lparr>lt_ready = True, lt_reader = True, lt_messages = b\<rparr>]"
  have c: "read_in_calls ?links = [a, b]" by (simp add: read_in_calls_def)
  then have "list_all2 prefix (read_in_calls ?links) [a, b]" by simp
  from reconnects_show_subsequence [OF hub_inv_TelemetryHub f run this refl refl, of "\<lambda>_. []" 0] c
  have "fst (TelemetryLoop ?links) = concat (map (published_during \<circ> snd) demo_sessions)"
    by (simp add: demo_sessions_def keeps_up_def demo_turn_def)
  then show ?thesis using run by (simp add: demo_sessions_def published_during_def demo_turn_def)
qed

end
