(* ===== verification/Spec2Isabelle.thy ===== *)
theory Spec2Isabelle
  imports Ring_Buffer Telemetry_Hub Event_Bus Profile_Store Power_Plan Brightness Profile_Manager
    Channel_Manager Pipeline Service_Controller Endpoint Paths Service_Host Convert Telemetry_Service
    Command_Service Telemetry_Store Client_Models Client_Worker Wmi_Collector Nvml_Collector Pdh_Collector
    Collectors Line_Chart Logging Service_Main Client_Main Smoke Handles Switch_Runs Client_Switch Ui_Properties
    Concurrent_Fanout Manager_Threads Client_Sessions
begin

text \<open>
  A model of HWPanel, a hardware monitor for Windows made of a service, a Qt client and a
  small acceptance tool.

  The service samples the hardware once a second with three collector plugins, keeps the
  last 300 samples, streams them over gRPC, and switches between stored profiles whose
  settings two executor plugins apply. The client shows the streams as charts and lists.

  What depends on what, from the bottom:

  \<^item> \<open>Prelude\<close> (collections of rules, \<open>last_n\<close>, conversions between integer widths), \<open>Double\<close>
    and \<open>Single\<close> (IEEE binary64 and binary32 as rationals with rounding), \<open>Text\<close>
    (\<open>to_string\<close>, \<open>atoi\<close>, \<open>sscanf\<close>, hexadecimal), \<open>Std_Map\<close>, \<open>File_System\<close>, \<open>Json\<close>
    (nlohmann's values; the parser itself is a parameter) model what the source uses of the
    language and its libraries.
  \<^item> Interfaces are locales, each interpreted on the model of every class that provides it:
    \<open>Bounded_Log\<close> (keep the most recent \<open>n\<close>: \<open>Ring_Buffer\<close>, \<open>Telemetry_Store\<close>,
    \<open>Client_Models\<close>), \<open>Fanout\<close> (a bounded queue per subscriber: \<open>Telemetry_Hub\<close>,
    \<open>Event_Bus\<close>, and \<open>Concurrent_Fanout\<close> for their mutex sections in any interleaving),
    \<open>Worker_Thread\<close> (start and stop of a background thread: \<open>Pipeline\<close>,
    \<open>Channel_Manager\<close>, the watcher of \<open>Profile_Manager\<close>), \<open>Executor\<close> (what a plugin promises
    to a transaction: \<open>Power_Plan\<close>, \<open>Brightness\<close>), \<open>Handles\<close> (a call closes what it opens:
    \<open>Wmi_Collector\<close>, \<open>Pdh_Paths\<close>, \<open>Pdh_Collector\<close>, \<open>Nvml_Collector\<close>, \<open>Brightness\<close>), and the
    two of \<open>Ui_Properties\<close> (a property's change is announced by its signal; the announced
    changes of a list model give its rows).
  \<^item> \<open>libs/core\<close>: \<open>Ring_Buffer\<close> (\<open>ring_buffer.h\<close>), \<open>Telemetry_Types\<close>, \<open>Telemetry_Hub\<close>,
    \<open>Event_Bus\<close>, \<open>Profile_Store\<close>, \<open>Channel_Manager\<close>, \<open>Endpoint\<close>, \<open>Paths\<close> and \<open>Logging\<close> (with the
    two log sinks of the service) model the file of the same name under
    \<open>libs/core/src\<close> and its header. \<open>libs/config\<close>: \<open>Profile_Manager\<close>, and \<open>Switch_Runs\<close>, which
    relates sequences of switches to an abstract manager, and \<open>Manager_Threads\<close>, which relates
    calls of several threads, with the bus acting in between, to such sequences.
  \<^item> \<open>plugins/executors\<close>: \<open>Power_Plan\<close>, \<open>Brightness\<close>. \<open>plugins/collectors\<close>: \<open>Pipeline\<close> (the
    plugin interface and the tick loop), \<open>Pdh_Paths\<close> and \<open>Pdh_Collector\<close>, \<open>Wmi_Collector\<close>,
    \<open>Nvml_Collector\<close>, and \<open>Collectors\<close> (\<open>factory.cpp\<close>: the three behind the interface).
  \<^item> \<open>apps/hwpanel-service\<close>: \<open>Service_Controller\<close> (the SCM protocol), \<open>Service_Host\<close> (the
    composition root), \<open>Service_Main\<close> (\<open>main.cpp\<close>), \<open>Convert\<close>, \<open>Telemetry_Service\<close> and
    \<open>Command_Service\<close> (the \<open>grpc\<close> directory).
  \<^item> \<open>apps/hwpanel-client\<close>: \<open>Telemetry_Store\<close>, \<open>Client_Models\<close> (the three models of the user
    interface), \<open>Line_Chart\<close>, \<open>Ui_Properties\<close> (the properties and signals their headers
    declare), \<open>Client_Worker\<close> (streams, calls, wiring of \<open>main.cpp\<close>),
    \<open>Client_Sessions\<close> (the stream across reconnects), \<open>Client_Switch\<close> (the
    posted calls, from a click to what the list then shows) and \<open>Client_Main\<close> (its threads step
    by step and the end of the process).
  \<^item> \<open>tools/hwpanel-smoke\<close>: \<open>Smoke\<close>.

  How code becomes definitions. A class is a record of its members, a member function a
  function from its state to its result and the new state; definitions have the name of
  the function they translate, with a prefix where two classes share it (\<open>hub_Pop\<close>,
  \<open>bus_Pop\<close>). A mutex makes each locked section one step. What is not code of the
  repository (Windows, PDH, WMI, NVML, the monitor and power interfaces, spdlog's sinks,
  gRPC's verdicts, the JSON library) is an argument: a record of functions, or the answers
  of one call. Exceptions and \<open>std::terminate\<close> are values, of a sum or option type. A loop
  that another thread ends is a recursion over the list of its turns, each with what its
  environment answers in it; this bounds no behaviour, since every theorem holds for every
  such list. Where interleavings matter (\<open>bus_sys_step\<close>, \<open>pub_run\<close>, \<open>manager_run\<close>, \<open>svc_run\<close>, \<open>interleave\<close>,
  \<open>stream_step\<close>) the steps are a relation, or a function of the label of a step, and the theorems
  are about every run.
  Integers keep their width where they can wrap (\<open>u32\<close>, \<open>u64\<close>, the 64-bit push counter,
  \<open>as_int32\<close>), and undefined arithmetic is an outcome (\<open>Undefined_behaviour\<close>); the one
  exception is the running number of a telemetry stream, whose increment past 32 bits wraps
  as on the target.

  Specifications are stated over what a component was given, not over what it recorded: the
  states reported to the SCM over the controls it delivered (\<open>svc_run\<close>, \<open>settled_state\<close>),
  the messages of a stream over the samples and the request (\<open>requested_message\<close>), a switch
  over the settings that can be applied (\<open>apply_all\<close>, \<open>refusal\<close>).

  What is relied on of code outside the repository stands in named predicates: the JSON library
  (\<open>json_library_ok\<close>: \<open>dump\<close> throws exactly on strings that are not UTF-8, and a document
  without non-finite numbers survives the round trip), the power and monitor interfaces
  (\<open>power_api_ok\<close>, \<open>monitor_api_ok\<close>), a disk on which every call succeeds (\<open>fs_healthy\<close>), plugins
  that throw nothing the loop does not catch (\<open>throws_caught_only\<close>: nothing from \<open>Available\<close>,
  which is called outside the \<open>try\<close>, and standard exceptions from \<open>Collect\<close>). Ids in calls are
  UTF-8 because protobuf checks the strings of a message.

  What is shown. Containers: what they hold is the most recent part of what was put in, and
  what a subscriber receives is a subsequence of what was published, without loss while its
  queue fits; publishers that run at the same time are each served in the order of their calls. Profiles: saving and reading is the identity, and a switch applies all
  settings of a profile or restores every one; calls of several threads answer as one
  after the other and their events arrive in that order, any sequence of switches is one of an
  abstract manager, and after any clicks, with calls lost or given up at their deadlines, a
  refresh that is answered shows where it ended. The service: the states reported to the SCM
  follow its protocol, agree with the host and always reach a stop; the collectors' call
  results equal a reference written from the answers of the system; the history call and
  the streams deliver the samples of the ticks, and the charts and lists of the client show
  them, each chart from the left edge of its item to the right, within the rounding of a float. Threads: no sequence of calls ends the process, a stopped thread ends unless it is
  inside a blocking read, and a tick starts one interval after the one before, within the
  delays of its steps. Handles: every call closes what it opened, once. The acceptance tool
  passes against the service it tests. Error paths and the
  places where the code does not do what its comments say are theorems of their own.

  This theory holds the properties that span several components.

  The handles of a call are a trace of acquiring, using and releasing them, next to the
  function that models the call; \<open>leak_free\<close> says what such a trace may be. The pace of the
  collector loop is a relation between the clock readings of a turn (\<open>tick_over\<close>).

  Not modelled. Qt's event loop and the QML file; the scene graph behind
  \<open>updatePaintNode\<close>; the text that the tool prints and the log messages themselves; the
  protocol buffers' wire format (a message is its record of fields); the conversion of a
  narrow file name to a wide one, which can fail under some code pages; the
  installer, the scripts and the tests. Real time is the clock readings a loop is given.
\<close>

section \<open>From the collectors to the history\<close>

lemma hub_run_publish: "snd (hub_run h (map Publish_op samples)) = fold hub_Publish samples h"
  by (induction samples arbitrary: h) (simp_all add: hub_step_def split_beta Let_def)

lemma ops_published_publish [simp]: "ops_published (map Publish_op samples) = samples"
  by (induction samples) simp_all

lemma rpc_GetHistory_published:
  "rpc_GetHistory seconds (fold hub_Publish samples (TelemetryHub kDefaultHistoryCapacity)) =
     map (\<lambda>s. sample_to_proto s {}) (last_n (min (nat seconds) 300) samples)"
  using history_is_recent_published [of "map Publish_op samples" seconds]
  by (simp add: rpc_GetHistory_def hub_run_publish)

text \<open>
  C12: whatever plugins the service registers, if none of them throws from Available (which
  the loop calls outside its try block) and none throws anything but standard exceptions
  from Collect: the loop a successfully started host runs never ends by an exception, and
  after any number of ticks the history call answers with the samples of the last ticks,
  one per tick and in order, at most the number of seconds asked for and at most 300, each
  stamped with its tick's clock and made of metrics some registered plugin returned.
\<close>

theorem history_call_returns_recent_ticks:
  assumes "host_Start env ep (ServiceHost fs e) = (Returned_bool True, h)"
    and "\<forall>c \<in> set (he_collectors env). throws_caught_only c"
  shows "\<exists>cb e' hub samples. pl_loop (host_pipeline h) = Some (1000, cb) \<and>
    Loop (pl_collectors (host_pipeline h)) cb nows (pm_env (host_store h), host_hub h) = Some (e', hub) \<and>
    rpc_GetHistory seconds hub = map (\<lambda>s. sample_to_proto s {}) (last_n (min (nat seconds) 300) samples) \<and>
    map timestamp_ms samples = nows \<and>
    (\<forall>s \<in> set samples. \<forall>m \<in> set (metrics s). \<exists>c \<in> set (he_collectors env). produces c m)"
proof -
  note h = host_Start_collects [OF assms(1)]
  obtain e' samples where "Loop (he_collectors env) (Some hub_Publish) nows (e, TelemetryHub kDefaultHistoryCapacity) =
      Some (e', fold hub_Publish samples (TelemetryHub kDefaultHistoryCapacity))"
    and "map timestamp_ms samples = nows"
    and "\<forall>s \<in> set samples. \<forall>m \<in> set (metrics s). \<exists>c \<in> set (he_collectors env). produces c m"
    using Loop_total [OF assms(2), of hub_Publish nows e "TelemetryHub kDefaultHistoryCapacity"] by blast
  then show ?thesis
    using h rpc_GetHistory_published [of seconds samples]
    by (intro exI [of _ "Some hub_Publish"] exI conjI) (auto simp: kSampleInterval_def)
qed

section \<open>The threads of the program\<close>

text \<open>
  C16: no sequence of start and stop calls, in any order and however often repeated, followed
  by the destructor ends the process through a joinable thread: neither for the collector
  pipeline, whatever interval and callback it is started with, nor for the directory
  watcher, whether or not its handles open, nor for the channel manager, nor for the client's
  worker, as long as the calls of one object do not overlap.
\<close>

theorem threads_never_terminate_process:
  "(\<exists>p. life_run pl_Start pl_Stop (empty_pipeline :: ('e, 'w) pipeline) pipeline_calls = Some p \<and>
      pl_destroy p = Some ()) \<and>
   (\<exists>w. life_run StartFileWatch StopFileWatch watch_init watcher_calls = Some w \<and>
      watch_destroy w = Some ()) \<and>
   (\<exists>m. life_run cm_Start cm_Stop (ChannelManager address :: ('c, 'v) channel_manager) channel_calls = Some m \<and>
      cm_destroy m = Some ()) \<and>
   (\<exists>w. life_run worker_Start worker_Stop (worker_init address) worker_calls = Some w \<and>
      worker_destroy w = Some ())"
proof (intro conjI)
  show "\<exists>p. life_run pl_Start pl_Stop (empty_pipeline :: ('e, 'w) pipeline) pipeline_calls = Some p \<and>
      pl_destroy p = Some ()"
    unfolding pl_destroy_def by (rule pipeline_thread.life_safe) (simp add: pipeline_thread.life_ok_def empty_pipeline_def)
  show "\<exists>w. life_run StartFileWatch StopFileWatch watch_init watcher_calls = Some w \<and>
      watch_destroy w = Some ()"
    unfolding watch_destroy_def by (rule watcher_thread.life_safe) (simp add: watcher_thread.life_ok_def watch_init_def)
  show "\<exists>m. life_run cm_Start cm_Stop (ChannelManager address :: ('c, 'v) channel_manager) channel_calls = Some m \<and>
      cm_destroy m = Some ()"
    unfolding cm_destroy_def by (rule channel_thread.life_safe) (simp add: channel_thread.life_ok_def ChannelManager_def)
  have "worker_ok (worker_init address)" by (simp add: worker_ok_def worker_init_def ChannelManager_def)
  then obtain w where "life_run worker_Start worker_Stop (worker_init address) worker_calls = Some w" "worker_ok w"
    using worker_life by blast
  then show "\<exists>w. life_run worker_Start worker_Stop (worker_init address) worker_calls = Some w \<and>
      worker_destroy w = Some ()"
    by (simp add: worker_destroy_ok)
qed

section \<open>Two sources of one metric\<close>

abbreviation gpu_values :: "metric_sample list \<Rightarrow> double list" where
  "gpu_values \<equiv> values_of ''gpu.util_pct''"

lemma wmi_part_no_gpu: "gpu_values (wmi_part e) = []"
  using wmi_Collect_catalog by (auto simp: wmi_part_def values_of_def filter_empty_conv)

lemma service_samples_gpu:
  assumes "\<forall>k < length nows. gpu_values (pdh_part ((world_after ^^ k) e)) = [a k] \<and> gpu_values (nvml_part ((world_after ^^ k) e)) = [b k]"
  shows "gpu_values (concat (map metrics (service_samples e nows))) = concat (map (\<lambda>k. [a k, b k]) [0..<length nows])"
  using assms
proof (induction nows arbitrary: e a b)
  case (Cons now nows)
  have "\<forall>k < length nows. gpu_values (pdh_part ((world_after ^^ k) (world_after e))) = [a (Suc k)] \<and>
      gpu_values (nvml_part ((world_after ^^ k) (world_after e))) = [b (Suc k)]"
    using Cons.prems by (auto simp: funpow_Suc_right simp del: funpow.simps dest: spec [of _ "Suc _"])
  note rest = Cons.IH [OF this]
  have "gpu_values (pdh_part e) = [a 0]" "gpu_values (nvml_part e) = [b 0]"
    using Cons.prems by (fastforce dest: spec [of _ 0])+
  then show ?case
    using rest by (simp add: wmi_part_no_gpu map_upt_Suc del: upt_Suc)
qed (simp add: values_of_def)

text \<open>
  C39: while both the performance counters and the NVIDIA library report the GPU, the client's
  GPU chart shows the two sources alternately: after any samples followed by ticks in which
  each of them gives one value, the chart ends with both values of every one of these ticks,
  so 30 ticks fill its 60 places.
\<close>

theorem gpu_chart_alternates_sources:
  assumes "\<forall>k < length nows. gpu_values (pdh_part ((world_after ^^ k) e)) = [a k] \<and> gpu_values (nvml_part ((world_after ^^ k) e)) = [b k]"
  shows "series_values (gpu_usage (fold HandleSample (old @ service_samples e nows) TelemetryStore)) =
    last_n 60 (gpu_values (concat (map metrics old)) @ concat (map (\<lambda>k. [a k, b k]) [0..<length nows]))"
  unfolding fold_HandleSample
  using service_samples_gpu [OF assms]
  by (simp add: append_all_def TelemetryStore_def series_shows foldl_append [symmetric] del: foldl_append)

section \<open>System handles\<close>

text \<open>
  C17: no call leaves a handle open: after any number of WMI queries, whatever fails in
  them, of registry lookups, of lifetimes of the PDH collector with any calls, of calls of the brightness executor (when the compiler elides
  the copy of its monitor list) and of lifetimes of the NVML collector (when the library
  has a shutdown function), everything that was opened has been closed, exactly once and
  after its last use.
\<close>

theorem calls_close_what_they_open:
  assumes "\<forall>call \<in> set brightness_calls. distinct (Enumerate (fst call) (fst (snd call)))"
    and "\<forall>l. Some l \<in> set libraries \<longrightarrow> nvmlShutdown l"
  shows "leak_free (concat (map wmi_trace wmi_calls)) \<and> leak_free (concat (map registry_trace lookups)) \<and>
    leak_free (concat (map (brightness_trace True) brightness_calls)) \<and> leak_free (concat (map nvml_life_trace libraries)) \<and>
    leak_free (concat (map pdh_life_trace queries))"
  using assms
  by (intro conjI pdh_life.calls_leak_free wmi_references.calls_leak_free registry_key.calls_leak_free brightness_handles.calls_leak_free
      nvml_life.calls_leak_free) (auto split: option.splits)

section \<open>The acceptance run against the service\<close>

lemma rpc_Subscribe_published:
  assumes "hub_inv h" and "concat (map rt_ops turns) = map Publish_op samples"
    and "\<forall>t \<in> set turns. \<not> rt_cancelled t \<and> rt_write_ok t \<and> length (rt_ops t) \<le> 1"
  shows "fst (rpc_Subscribe u \<lparr>interval_hz = literal 1, metric_filter = []\<rparr> turns h) =
    map (\<lambda>s. sample_to_proto s {}) samples"
proof -
  let ?req = "\<lparr>interval_hz = literal 1, metric_filter = []\<rparr>"
  obtain msgs h' where run: "rpc_Subscribe u ?req turns h = (msgs, h')" by (cases "rpc_Subscribe u ?req turns h")
  have op: "\<exists>s. op = Publish_op s" if "t \<in> set turns" "op \<in> set (rt_ops t)" for t op
  proof -
    have "op \<in> set (concat (map rt_ops turns))" using that by auto
    then show ?thesis by (auto simp: assms(2))
  qed
  have f: "\<forall>t \<in> set turns. foreign (next_id (hub_reg h)) (rt_ops t)"
    using op unfolding foreign_def by (metis reg_op.distinct)
  have len: "length (ops_published ops) \<le> length ops" for ops :: "telemetry_sample reg_op list"
    by (induction ops rule: ops_published.induct) auto
  have all: "concat (map (ops_published \<circ> rt_ops) ts) = ops_published (concat (map rt_ops ts))" for ts :: "telemetry_sample rpc_turn list"
    by (induction ts) simp_all
  have "\<forall>t \<in> set turns. \<not> rt_cancelled t \<and> rt_write_ok t \<and> length (ops_published (rt_ops t)) \<le> 1"
    using assms(3) len le_trans by blast
  then have "msgs = map (\<lambda>s. sample_to_proto s {}) samples"
    using rpc_Subscribe_stream [OF assms(1) f run] by (simp add: all assms(2) del: set_map)
  then show ?thesis by (simp only: run fst_conv)
qed

lemma Loop_hub_inv:
  assumes "hub_inv h" and "Loop cs (Some hub_Publish) nows (e, h) = Some (e', h')"
  shows "hub_inv h'"
  using assms
proof (induction nows arbitrary: e h)
  case (Cons now nows)
  obtain s e1 where "tick cs now e = Some (s, e1)" and "Loop cs (Some hub_Publish) nows (e1, hub_Publish s h) = Some (e', h')"
    using Cons.prems(2) by (auto split: option.splits)
  moreover have "hub_inv (hub_Publish s h)"
    using hub_inv_run [OF Cons.prems(1), of "[Publish_op s]"] by (simp add: hub_step_def)
  ultimately show ?case using Cons.IH by blast
qed simp

lemma fold_snoc: "fold (\<lambda>s acc. acc @ [s]) xs acc = acc @ xs"
  by (induction xs arbitrary: acc) simp_all

lemma Loop_logged_nows:
  assumes "\<forall>c \<in> set cs. throws_caught_only c" and "Loop cs (Some (\<lambda>s acc. acc @ [s])) nows (e, []) = Some (e', samples)"
  shows "map timestamp_ms samples = nows"
proof -
  obtain e'' ss where "Loop cs (Some (\<lambda>s acc. acc @ [s])) nows (e, []) = Some (e'', fold (\<lambda>s acc. acc @ [s]) ss [])"
    and "map timestamp_ms ss = nows"
    using Loop_total [OF assms(1), of "\<lambda>s acc. acc @ [s]" nows e "[]"] by blast
  then show ?thesis using assms(2) by (simp add: fold_snoc)
qed

text \<open>
  C13: the acceptance tool accepts the service it was written for: dialled at the service's
  endpoint with any options whose number of seconds lets \<open>seconds + 5\<close> and \<open>seconds - 2\<close> stay
  in the range of a 32-bit int, after any number of earlier ticks, if the status call succeeds
  where it is asked for, the system clock is not before the epoch and does not go back during
  the run, there are at least \<open>max 1 (seconds - 2)\<close> ticks in it (and fewer than \<open>2 ^ 31\<close>), the
  stream polls at least once per tick, is not cancelled, writes without failure and ends by
  its deadline, the tool exits with 0; it does so whatever plugins the service registers, as
  long as none throws from Available and none throws anything but standard exceptions from
  Collect.
\<close>

theorem acceptance_run_passes:
  assumes "host_Start env ep (ServiceHost fs e) = (Returned_bool True, h)"
    and "\<forall>c \<in> set (he_collectors env). throws_caught_only c"
    and "Loop (he_collectors env) (Some hub_Publish) before (e, host_hub h) = Some (e1, hub)"
    and "Loop (he_collectors env) (Some (\<lambda>s acc. acc @ [s])) (map (NowMs per_ms) clock) (e1, []) = Some (e2, samples)"
    and "concat (map rt_ops turns) = map Publish_op samples"
    and "\<forall>t \<in> set turns. \<not> rt_cancelled t \<and> rt_write_ok t \<and> length (rt_ops t) \<le> 1"
    and "list_all option_ok opts"
    and "fold smoke_apply opts (DefaultEndpoint getenv, 10, False) = (dialled, seconds, check)"
    and "check \<longrightarrow> sv_GetStatus service dialled = OK"
    and "sv_Subscribe service dialled (seconds + 5) =
      (map pb_timestamp_ms (fst (rpc_Subscribe u \<lparr>interval_hz = literal 1, metric_filter = []\<rparr> turns hub)), DEADLINE_EXCEEDED)"
    and "int32_range (seconds + 5)" and "int32_range (seconds - 2)"
    and "sorted (0 # clock)" and "0 < per_ms" and "max 1 (seconds - 2) \<le> int (length clock)" and "length clock < 2 ^ 31"
  shows "smoke_main getenv service (concat (map smoke_render opts)) = Exit 0"
proof -
  have "hub_inv hub" using Loop_hub_inv [OF _ assms(3)] host_Start_collects(3) [OF assms(1)] by simp
  then have "fst (rpc_Subscribe u \<lparr>interval_hz = literal 1, metric_filter = []\<rparr> turns hub) = map (\<lambda>s. sample_to_proto s {}) samples"
    by (rule rpc_Subscribe_published [OF _ assms(5,6)])
  then have "map pb_timestamp_ms (fst (rpc_Subscribe u \<lparr>interval_hz = literal 1, metric_filter = []\<rparr> turns hub)) =
      map timestamp_ms samples" by (simp only:) (simp add: sample_to_proto_def comp_def)
  also have "map timestamp_ms samples = map (NowMs per_ms) clock" by (rule Loop_logged_nows [OF assms(2,4)])
  finally have "sv_Subscribe service dialled (seconds + 5) = (map (NowMs per_ms) clock, DEADLINE_EXCEEDED)"
    using assms(10) by (simp only:)
  note passes = smoke_stream_passes [OF this]
  have "NowMs per_ms 0 = 0" by (simp add: NowMs_def)
  then have "sorted (0 # map (NowMs per_ms) clock)"
    using NowMs_sorted [OF assms(14,13)] by (simp only: list.map)
  moreover have "deadline_ok DEADLINE_EXCEEDED" by (simp add: deadline_ok_def)
  ultimately have "smoke_stream service dialled seconds = Exit 0"
    using passes assms(11,12,15,16) by (simp only: length_map)
  then show ?thesis
    using assms(9) smoke_args_render [OF assms(7), of "(DefaultEndpoint getenv, 10, False)"]
    by (simp add: smoke_main_def assms(8))
qed

section \<open>Concrete runs\<close>

text \<open>A machine whose GPU both collectors report: 5 percent by the counters, 40 by the driver.\<close>

definition demo_nvml :: "unit nvml_library" where
  "demo_nvml = \<lparr>nvmlInit = Some 0, nvmlShutdown = True, nvmlDeviceGetCount = Some (0, 1),
     nvmlDeviceGetHandleByIndex = Some (\<lambda>_. (0, Some ())), nvmlDeviceGetUtilizationRates = Some (\<lambda>_. (0, 40)),
     nvmlDeviceGetTemperature = None, nvmlDeviceGetMemoryInfo = None, nvmlDeviceGetPowerUsage = None,
     nvmlDeviceGetClockInfo = None\<rparr>"

definition gpu_world :: "(wstring, unit) collector_world" where
  "gpu_world = collectors_made demo_api (Some demo_nvml) (\<lambda>_. demo_answers) no_wmi (\<lambda>_. demo_nvml)"

lemma world_after_static:
  "cw_pdh ((world_after ^^ k) e) = cw_pdh e" "cw_pdh_answers ((world_after ^^ k) e) = cw_pdh_answers e"
  "cw_nvml ((world_after ^^ k) e) = cw_nvml e" "cw_nvml_answers ((world_after ^^ k) e) = cw_nvml_answers e"
  by (induction k) (simp_all add: world_after_def)

lemma demo_nvml_Collect:
  "nvml_Collect demo_nvml (NvmlCollector (Some demo_nvml)) = [metric ''gpu.util_pct'' (Fin 40) ''percent'']"
  using literal_int [of 40]
  by (simp add: nvml_Collect_def NvmlCollector_def demo_nvml_def kNvmlSuccess_def collect_device_def double_of_int_def literal_def)

lemma gpu_world_values:
  "gpu_values (pdh_part ((world_after ^^ k) gpu_world)) = [Fin 5] \<and>
   gpu_values (nvml_part ((world_after ^^ k) gpu_world)) = [Fin 40]"
proof
  have "pdh_Available (PdhCollector demo_api)"
    using demo_Collect by (auto simp: pdh_Collect_def pdh_Available_def split: if_splits)
  then show "gpu_values (pdh_part ((world_after ^^ k) gpu_world)) = [Fin 5]"
    by (simp add: pdh_part_def world_after_static gpu_world_def collectors_made_def demo_Collect values_of_def)
  have "nvml_Available (NvmlCollector (Some demo_nvml))"
    by (simp add: nvml_Available_def NvmlCollector_def demo_nvml_def kNvmlSuccess_def)
  then show "gpu_values (nvml_part ((world_after ^^ k) gpu_world)) = [Fin 40]"
    by (simp add: nvml_part_def world_after_static gpu_world_def collectors_made_def demo_nvml_Collect values_of_def)
qed

theorem gpu_chart_alternates_sources_witness:
  "series_values (gpu_usage (fold HandleSample (service_samples gpu_world [1, 2]) TelemetryStore)) =
     [Fin 5, Fin 40, Fin 5, Fin 40]"
  using gpu_chart_alternates_sources [of "[1, 2]" gpu_world "\<lambda>_. Fin 5" "\<lambda>_. Fin 40" "[]"] gpu_world_values
  by (simp add: last_n_def)

definition service_env :: "(json, (wstring, unit) collector_world) host_env" where
  "service_env = \<lparr>he_json = identity_json, he_no_bytes = JNull, he_executors = [], he_collectors = service_collectors,
     he_binds = (\<lambda>_. True), he_watch = (True, True), he_steady_now = 0, he_now = 0\<rparr>"

lemma service_env_Start:
  obtains h where "host_Start service_env ''np:x'' (ServiceHost demo_disk gpu_world) = (Returned_bool True, h)"
proof -
  obtain fs where "store_EnsureDefaults identity_json JNull demo_disk = (Inr (), fs)"
    using demo_EnsureDefaults by (metis prod.collapse)
  then have "fst (host_Start service_env ''np:x'' (ServiceHost demo_disk gpu_world)) = Returned_bool True"
    by (simp add: host_Start_def start_parts_def ServiceHost_def service_env_def BuildServer_def Let_def
        pl_Start_def assign_thread_def StartFileWatch_def watch_init_def empty_pipeline_def)
  then show thesis using that by (metis prod.collapse)
qed

theorem history_call_returns_recent_ticks_witness:
  "\<exists>h e' hub. host_Start service_env ''np:x'' (ServiceHost demo_disk gpu_world) = (Returned_bool True, h) \<and>
     Loop (pl_collectors (host_pipeline h)) (Some hub_Publish) [1, 2, 3] (pm_env (host_store h), host_hub h) = Some (e', hub) \<and>
     length (rpc_GetHistory 2 hub) = 2"
proof -
  obtain h where h: "host_Start service_env ''np:x'' (ServiceHost demo_disk gpu_world) = (Returned_bool True, h)"
    by (rule service_env_Start)
  have "\<forall>c \<in> set (he_collectors service_env). throws_caught_only c"
    using service_collectors_never_throw by (simp add: service_env_def)
  from history_call_returns_recent_ticks [OF h this, of "[1, 2, 3]" 2]
  obtain cb e' hub samples where "pl_loop (host_pipeline h) = Some (1000, cb)"
    and "Loop (pl_collectors (host_pipeline h)) cb [1, 2, 3] (pm_env (host_store h), host_hub h) = Some (e', hub)"
    and "rpc_GetHistory 2 hub = map (\<lambda>s. sample_to_proto s {}) (last_n (min (nat 2) 300) samples)"
    and "map timestamp_ms samples = [1, 2, 3]"
    by (elim exE conjE) (rule that)
  moreover from this(1) have "cb = Some hub_Publish" using host_Start_collects(2) [OF h] by simp
  moreover from \<open>map timestamp_ms samples = [1, 2, 3]\<close> have "length samples = 3" by (metis length_map length_Cons list.size(3) numeral_3_eq_3)
  ultimately show ?thesis using h by (intro exI [of _ h] exI [of _ e'] exI [of _ hub]) simp
qed


theorem calls_close_what_they_open_witness:
  "leak_free (concat (map (brightness_trace True) [(demo_monitor, (kBalanced, 30), Call_Apply ''50''), (demo_monitor, (kBalanced, 30), Call_Available)])) \<and>
   leak_free (concat (map nvml_life_trace [Some demo_nvml, None, Some demo_nvml]))"
  using calls_close_what_they_open [of "[(demo_monitor, (kBalanced, 30), Call_Apply ''50''), (demo_monitor, (kBalanced, 30), Call_Available)]"
      "[Some demo_nvml, None, Some demo_nvml]" "[]" "[]"
      "[] :: (unit pdh_api \<times> unit pdh_answers list) list"]
  by (simp add: demo_monitor_def demo_nvml_def Enumerate_def EnumMonitorCallback_def)

theorem acceptance_run_passes_witness:
  "\<exists>hub turns service. length turns = 2 \<and>
     sv_Subscribe service (DefaultEndpoint (\<lambda>_. None)) 8 =
       (map pb_timestamp_ms (fst (rpc_Subscribe 0 \<lparr>interval_hz = literal 1, metric_filter = []\<rparr> turns hub)), DEADLINE_EXCEEDED) \<and>
     smoke_main (\<lambda>_. None) service [''--seconds'', to_string 3, ''--status''] = Exit 0"
proof -
  obtain h where h: "host_Start service_env ''np:x'' (ServiceHost demo_disk gpu_world) = (Returned_bool True, h)"
    by (rule service_env_Start)
  have std: "\<forall>c \<in> set (he_collectors service_env). throws_caught_only c"
    using service_collectors_never_throw by (simp add: service_env_def)
  obtain e1 hub where before: "Loop (he_collectors service_env) (Some hub_Publish) [1, 2] (gpu_world, host_hub h) = Some (e1, hub)"
    using Loop_total [OF std, of hub_Publish "[1, 2]" gpu_world "host_hub h"] by blast
  obtain e2 samples where during: "Loop (he_collectors service_env) (Some (\<lambda>s acc. acc @ [s])) (map (NowMs 10000) [30000, 40001]) (e1, []) = Some (e2, samples)"
    using Loop_total [OF std, of "\<lambda>s acc. acc @ [s]" "map (NowMs 10000) [30000, 40001]" e1 "[]"] by blast
  let ?turns = "map (\<lambda>s. demo_turn [s]) samples"
  let ?reply = "(map pb_timestamp_ms (fst (rpc_Subscribe 0 \<lparr>interval_hz = literal 1, metric_filter = []\<rparr> ?turns hub)), DEADLINE_EXCEEDED)"
  let ?service = "\<lparr>sv_GetStatus = \<lambda>_. OK, sv_Subscribe = \<lambda>_ _. ?reply\<rparr>"
  have published: "concat (map rt_ops ?turns) = map Publish_op samples"
    by (simp add: demo_turn_def concat_map_singleton comp_def)
  have "smoke_main (\<lambda>_. None) ?service (concat (map smoke_render [Seconds 3, Check_status])) = Exit 0"
    by (rule acceptance_run_passes [OF h std before during published, where dialled = "DefaultEndpoint (\<lambda>_. None)"
          and seconds = 3 and check = True and u = 0])
      (simp_all add: demo_turn_def int32_range_def del: literal_simps)
  moreover have "length ?turns = 2" using Loop_logged_nows [OF std during] by (metis length_map length_Cons list.size(3) numeral_2_eq_2)
  ultimately show ?thesis by (intro exI [of _ hub] exI [of _ ?turns] exI [of _ ?service]) simp
qed

end
